(* ===== verification/Prelude.thy ===== *)
theory Prelude
  imports Main "HOL-Library.Word" "HOL-Library.Char_ord" "HOL-Library.List_Lexorder"
begin

text \<open>
  What every component of the development shares: C++ exceptions as values, the pieces of
  the C++ standard library that the sources call (character classes, decimal printing by
  output streams, \<open>stoi\<close> and \<open>stoll\<close>, \<open>std::map\<close> as a key-sorted
  association list), the machine types, and the generic lemmas about them.
\<close>

section \<open>Collections and types\<close>

named_theorems show_simps \<open>decimal printing and parsing\<close>

named_theorems omap_simps \<open>ordered maps\<close>

text \<open>
  The platform is LP64: \<open>size_t\<close> and \<open>uintmax_t\<close> are 64-bit words. Signed integers
  that only ever hold range-checked values are kept as \<open>int\<close>.
\<close>

type_synonym size_t = "64 word"
type_synonym intmax_t = "64 word"
type_synonym uintmax_t = "64 word"

abbreviation (input) CR :: char where "CR \<equiv> CHR 0x0D"
abbreviation (input) LF :: char where "LF \<equiv> CHR 0x0A"
abbreviation (input) CRLF :: string where "CRLF \<equiv> [CHR 0x0D, CHR 0x0A]"
abbreviation (input) SP :: char where "SP \<equiv> CHR '' ''"

section \<open>Exceptions\<close>

text \<open>
  The classes of \<open>std::exception\<close> that the sources throw or let through, each with the
  text of its \<open>what()\<close>; \<open>fmt::SystemError\<close> has an error code too. A computation that may throw returns \<open>exn + 'a\<close>.
\<close>

datatype exn =
    Runtime_error string
  | Invalid_argument string
  | Out_of_range string
  | Spdlog_ex string
  | Format_error string
  | System_error int string

fun what :: "exn \<Rightarrow> string" where
  "what (Runtime_error s) = s"
| "what (Invalid_argument s) = s"
| "what (Out_of_range s) = s"
| "what (Spdlog_ex s) = s"
| "what (Format_error s) = s"
| "what (System_error code s) = s"

text \<open>Sequencing: an exception skips what follows.\<close>

fun bind_exn :: "exn + 'a \<Rightarrow> ('a \<Rightarrow> exn + 'b) \<Rightarrow> exn + 'b" where
  "bind_exn (Inl e) f = Inl e"
| "bind_exn (Inr x) f = f x"

text \<open>
  A call that reads and writes a state \<open>'d\<close>: \<open>None\<close> when it never returns (it blocks
  forever, or its behaviour is undefined), otherwise an exception or a value with the new
  state. \<open>bind_call\<close> is sequencing: an exception skips what follows.
\<close>

type_synonym ('d, 'a) call = "((exn + 'a) \<times> 'd) option"

definition bind_call :: "('d, 'a) call \<Rightarrow> ('a \<Rightarrow> 'd \<Rightarrow> ('d, 'b) call) \<Rightarrow> ('d, 'b) call" where
  "bind_call m f = (case m of
       None \<Rightarrow> None
     | Some (Inl e, d) \<Rightarrow> Some (Inl e, d)
     | Some (Inr a, d) \<Rightarrow> f a d)"

lemma bind_call_simps [simp]:
  "bind_call None f = None"
  "bind_call (Some (Inl e, d)) f = Some (Inl e, d)"
  "bind_call (Some (Inr a, d)) f = f a d"
  by (simp_all add: bind_call_def)

lemma bind_call_SomeE:
  assumes "bind_call m f = Some (x, d')"
  obtains e where "m = Some (Inl e, d')" "x = Inl e"
  | a d where "m = Some (Inr a, d)" "f a d = Some (x, d')"
  using assms by (auto simp: bind_call_def split: option.splits sum.splits)

section \<open>Characters\<close>

text \<open>\<open>isspace\<close> and \<open>isdigit\<close> in the C locale.\<close>

definition isspace :: "char \<Rightarrow> bool" where
  "isspace c \<longleftrightarrow> c \<in> {CHR '' '', CHR 0x09, CHR 0x0C, CHR 0x0D, CHR 0x0A, CHR 0x0B}"

definition isdigit :: "char \<Rightarrow> bool" where
  "isdigit c \<longleftrightarrow> 48 \<le> (of_char c :: nat) \<and> (of_char c :: nat) \<le> 57"

definition digit_char :: "nat \<Rightarrow> char" where
  "digit_char d = char_of (48 + d)"

definition digit_val :: "char \<Rightarrow> nat" where
  "digit_val c = of_char c - 48"

section \<open>Printing and parsing decimal numbers\<close>

text \<open>\<open>ostream << n\<close> for an unsigned and for a signed integer.\<close>

fun show_nat :: "nat \<Rightarrow> string" where
  "show_nat n = (if n < 10 then [digit_char n] else show_nat (n div 10) @ [digit_char (n mod 10)])"

definition show_int :: "int \<Rightarrow> string" where
  "show_int i = (if i < 0 then CHR ''-'' # show_nat (nat (- i)) else show_nat (nat i))"

text \<open>
  \<open>strtol\<close>/\<open>strtoll\<close> in base 10 before the range check: leading white space, an
  optional sign, then the longest run of digits; the rest of the text is ignored. No digit
  is \<open>None\<close>.
\<close>

fun digits_val :: "nat \<Rightarrow> string \<Rightarrow> nat" where
  "digits_val acc [] = acc"
| "digits_val acc (c # cs) = digits_val (10 * acc + digit_val c) cs"

fun strto_sign :: "string \<Rightarrow> bool \<times> string" where
  "strto_sign [] = (False, [])"
| "strto_sign (c # cs) =
     (if c = CHR ''-'' then (True, cs) else if c = CHR ''+'' then (False, cs) else (False, c # cs))"

definition strto :: "string \<Rightarrow> int option" where
  "strto s =
     (case strto_sign (dropWhile isspace s) of (neg, u) \<Rightarrow>
        let ds = takeWhile isdigit u in
        if ds = [] then None
        else Some (if neg then - int (digits_val 0 ds) else int (digits_val 0 ds)))"

text \<open>
  \<open>std::stoi\<close> and \<open>std::stoll\<close>: \<open>invalid_argument\<close> when nothing converts,
  \<open>out_of_range\<close> when the value does not fit \<open>int\<close>, respectively \<open>long long\<close>.
  libstdc++ gives both exceptions the function's name as their text.
\<close>

definition int_min :: int where "int_min = - (2 ^ 31)"
definition int_max :: int where "int_max = 2 ^ 31 - 1"
definition llong_min :: int where "llong_min = - (2 ^ 63)"
definition llong_max :: int where "llong_max = 2 ^ 63 - 1"

definition stoi :: "string \<Rightarrow> exn + int" where
  "stoi s = (case strto s of
       None \<Rightarrow> Inl (Invalid_argument ''stoi'')
     | Some v \<Rightarrow> if int_min \<le> v \<and> v \<le> int_max then Inr v else Inl (Out_of_range ''stoi''))"

definition stoll :: "string \<Rightarrow> exn + int" where
  "stoll s = (case strto s of
       None \<Rightarrow> Inl (Invalid_argument ''stoll'')
     | Some v \<Rightarrow> if llong_min \<le> v \<and> v \<le> llong_max then Inr v else Inl (Out_of_range ''stoll''))"

text \<open>\<open>std::string::at\<close>: bounds-checked access, with libstdc++'s message.\<close>

definition string_at :: "string \<Rightarrow> nat \<Rightarrow> exn + char" where
  "string_at s i =
     (if i < length s then Inr (s ! i)
      else Inl (Out_of_range (''basic_string::at: __n (which is '' @ show_nat i @
             '') >= this->size() (which is '' @ show_nat (length s) @ '')'')))"

section \<open>Ordered maps\<close>

text \<open>
  \<open>std::map\<close> as the list of its entries in key order, which is the order in which the
  sources iterate over it. \<open>omap_put\<close> is \<open>m[k] = v\<close>, \<open>omap_erase\<close> is \<open>m.erase(k)\<close>,
  and \<open>map_of\<close> is \<open>m.find(k)\<close>.
\<close>

type_synonym ('k, 'v) omap = "('k \<times> 'v) list"

fun omap_put :: "'k::linorder \<Rightarrow> 'v \<Rightarrow> ('k, 'v) omap \<Rightarrow> ('k, 'v) omap" where
  "omap_put k v [] = [(k, v)]"
| "omap_put k v ((k', v') # m) =
     (if k < k' then (k, v) # (k', v') # m
      else if k = k' then (k, v) # m
      else (k', v') # omap_put k v m)"

definition omap_erase :: "'k \<Rightarrow> ('k, 'v) omap \<Rightarrow> ('k, 'v) omap" where
  "omap_erase k m = filter (\<lambda>e. fst e \<noteq> k) m"

definition omap_wf :: "('k::linorder, 'v) omap \<Rightarrow> bool" where
  "omap_wf m \<longleftrightarrow> sorted_wrt (<) (map fst m)"

section \<open>Lemmas: characters and numbers\<close>

lemma isdigit_digit_char [simp]: "d < 10 \<Longrightarrow> isdigit (digit_char d)"
  by (simp add: isdigit_def digit_char_def)

lemma digit_val_digit_char [simp]: "d < 10 \<Longrightarrow> digit_val (digit_char d) = d"
  by (simp add: digit_val_def digit_char_def)

lemma isdigit_not_isspace: "isdigit c \<Longrightarrow> \<not> isspace c"
  by (auto simp: isdigit_def isspace_def)

lemma isdigit_not_sign: "isdigit c \<Longrightarrow> c \<noteq> CHR ''-'' \<and> c \<noteq> CHR ''+''"
  by (auto simp: isdigit_def)

declare show_nat.simps [simp del]

lemma show_nat_nonempty [simp]: "show_nat n \<noteq> []"
  by (subst show_nat.simps) simp

lemma show_nat_digits: "c \<in> set (show_nat n) \<Longrightarrow> isdigit c"
proof (induction n rule: show_nat.induct)
  case (1 n)
  show ?case
  proof (cases "n < 10")
    case True
    with "1.prems" show ?thesis by (simp add: show_nat.simps [of n])
  next
    case False
    with "1.prems" have "c \<in> set (show_nat (n div 10)) \<or> c = digit_char (n mod 10)"
      by (auto simp: show_nat.simps [of n])
    with "1.IH" [OF False] show ?thesis by auto
  qed
qed

lemma digits_val_append: "digits_val acc (xs @ ys) = digits_val (digits_val acc xs) ys"
  by (induction acc xs rule: digits_val.induct) auto

lemma digits_val_show_nat [show_simps]: "digits_val 0 (show_nat n) = n"
proof (induction n rule: show_nat.induct)
  case (1 n)
  show ?case
  proof (cases "n < 10")
    case True
    then show ?thesis by (simp add: show_nat.simps [of n])
  next
    case False
    with "1.IH" show ?thesis by (simp add: show_nat.simps [of n] digits_val_append)
  qed
qed

lemma takeWhile_show_nat [show_simps]: "takeWhile isdigit (show_nat n) = show_nat n"
  by (rule takeWhile_eq_all_conv [THEN iffD2]) (simp add: show_nat_digits)

lemma hd_show_nat: "\<exists>c cs. show_nat n = c # cs \<and> isdigit c"
  by (cases "show_nat n") (auto intro: show_nat_digits [of _ n])

lemma strto_show_nat [show_simps]: "strto (show_nat n) = Some (int n)"
proof -
  obtain c cs where c: "show_nat n = c # cs" "isdigit c" using hd_show_nat by blast
  then have d: "dropWhile isspace (show_nat n) = show_nat n"
    by (simp add: isdigit_not_isspace)
  have s: "strto_sign (show_nat n) = (False, show_nat n)"
    using c isdigit_not_sign by simp
  show ?thesis by (simp add: strto_def d s show_simps Let_def)
qed

lemma strto_show_int [show_simps]: "strto (show_int i) = Some i"
proof (cases "i < 0")
  case True
  then have "strto (show_int i) = Some (- int (nat (- i)))"
    by (simp add: strto_def show_int_def isspace_def show_simps Let_def)
  with True show ?thesis by simp
qed (simp add: show_int_def show_simps)

lemma stoi_show_int: "int_min \<le> i \<Longrightarrow> i \<le> int_max \<Longrightarrow> stoi (show_int i) = Inr i"
  by (simp add: stoi_def show_simps)

lemma stoi_show_nat: "int n \<le> int_max \<Longrightarrow> stoi (show_nat n) = Inr (int n)"
  by (simp add: stoi_def show_simps int_min_def)

lemma stoll_show_int: "llong_min \<le> i \<Longrightarrow> i \<le> llong_max \<Longrightarrow> stoll (show_int i) = Inr i"
  by (simp add: stoll_def show_simps)

lemma stoi_range: "stoi s = Inr v \<Longrightarrow> int_min \<le> v \<and> v \<le> int_max"
  by (auto simp: stoi_def split: option.splits if_splits)

lemma show_nat_not_space: "c \<in> set (show_nat n) \<Longrightarrow> \<not> isspace c"
  by (simp add: show_nat_digits isdigit_not_isspace)

lemma show_int_not_space: "c \<in> set (show_int i) \<Longrightarrow> \<not> isspace c"
  by (auto simp: show_int_def split: if_splits dest: show_nat_not_space) (simp add: isspace_def)

lemma show_int_nonempty [simp]: "show_int i \<noteq> []"
  by (simp add: show_int_def)

lemma show_nat_inj [simp]: "show_nat m = show_nat n \<longleftrightarrow> m = n"
  by (metis digits_val_show_nat)

section \<open>Lemmas: ordered maps\<close>

lemma map_of_omap_put [omap_simps]: "map_of (omap_put k v m) = (map_of m)(k \<mapsto> v)"
  by (induction k v m rule: omap_put.induct) (auto simp: fun_eq_iff)

lemma map_of_omap_erase [omap_simps]: "map_of (omap_erase k m) = (map_of m)(k := None)"
  by (induction m) (auto simp: omap_erase_def fun_eq_iff)

lemma set_omap_put_keys: "set (map fst (omap_put k v m)) = insert k (set (map fst m))"
  by (induction k v m rule: omap_put.induct) auto

lemma omap_wf_Nil [simp]: "omap_wf []"
  by (simp add: omap_wf_def)

lemma omap_wf_put [simp]: "omap_wf m \<Longrightarrow> omap_wf (omap_put k v m)"
proof (induction k v m rule: omap_put.induct)
  case (2 k v k' v' m)
  have keys: "fst ` set (omap_put k v m) = insert k (fst ` set m)"
    using set_omap_put_keys [of k v m] by simp
  have gt: "\<forall>x \<in> fst ` set m. k' < x" and wf: "omap_wf m"
    using "2.prems" by (auto simp: omap_wf_def)
  consider "k < k'" | "k = k'" | "k' < k" by (rule linorder_cases)
  then show ?case
  proof cases
    case 1
    then have "\<forall>x \<in> fst ` set m. k < x" using gt by (meson less_trans)
    with 1 gt wf show ?thesis by (simp add: omap_wf_def)
  next
    case 2
    with gt wf show ?thesis by (simp add: omap_wf_def)
  next
    case 3
    then have "\<forall>x \<in> fst ` set (omap_put k v m). k' < x" using gt keys by simp
    moreover have "omap_wf (omap_put k v m)" using 3 "2.IH" wf by simp
    ultimately show ?thesis using 3 by (auto simp: omap_wf_def)
  qed
qed (simp add: omap_wf_def)

lemma omap_wf_erase [simp]: "omap_wf m \<Longrightarrow> omap_wf (omap_erase k m)"
  by (induction m) (auto simp: omap_wf_def omap_erase_def)

lemma omap_wf_distinct: "omap_wf m \<Longrightarrow> distinct (map fst m)"
  using strict_sorted_iff [of "map fst m"] by (simp add: omap_wf_def)

section \<open>Lemmas: words\<close>

lemma size_t_of_nat_less:
  "a < 2 ^ 64 \<Longrightarrow> (word_of_nat a :: size_t) < w \<longleftrightarrow> a < unat w"
  by (simp add: word_less_nat_alt take_bit_nat_eq_self unsigned_of_nat)

lemma unat_size_t_of_nat: "a < 2 ^ 64 \<Longrightarrow> unat (word_of_nat a :: size_t) = a"
  by (simp add: take_bit_nat_eq_self unsigned_of_nat)

lemma balance_trans:
  fixes a b c d e f g :: "'a::ab_semigroup_add"
  shows "a + b = c + d \<Longrightarrow> d + e = f + g \<Longrightarrow> a + (b + e) = c + f + g"
  by (metis (no_types, opaque_lifting) add.assoc add.commute)

end
