(* ===== verification/Stats.thy ===== *)
theory Stats
  imports Prelude
begin

text \<open>
  The metrics part (\<open>stats/\<close>): the statsd client, which prints one datagram per metric,
  the aggregator, which collects metrics in four maps and flushes them once per epoch from
  a background thread, and the null aggregator. Boost.Asio's \<open>send_to\<close> is the parameter
  of that name: it throws or returns the number of bytes it sent.
\<close>

section \<open>The statsd client\<close>

text \<open>
  \<open>snprintf\<close> for the conversions the masks use. A variadic argument of integer type
  occupies a 64-bit slot: \<open>%d\<close> reads its low 32 bits as a signed number, \<open>%lu\<close>
  (which \<open>PRIuMAX\<close> expands to) all 64 bits as an unsigned one. \<open>None\<close> stands for a
  format or an argument list outside this set.
\<close>

datatype printf_arg = PStr string | PNum "64 word"

definition c_str :: "string \<Rightarrow> string" where
  "c_str s = takeWhile (\<lambda>c. c \<noteq> CHR 0x00) s"

definition show_d :: "64 word \<Rightarrow> string" where
  "show_d w = show_int (sint (ucast w :: 32 word))"

definition show_lu :: "64 word \<Rightarrow> string" where
  "show_lu w = show_nat (unat w)"

fun printf_format :: "string \<Rightarrow> printf_arg list \<Rightarrow> string option" where
  "printf_format [] args = Some []"
| "printf_format (c # cs) args =
     (if c \<noteq> CHR ''%'' then map_option (Cons c) (printf_format cs args)
      else case cs of
          CHR ''%'' # r \<Rightarrow> map_option (Cons (CHR ''%'')) (printf_format r args)
        | CHR ''s'' # r \<Rightarrow>
            (case args of PStr s # as \<Rightarrow> map_option ((@) (c_str s)) (printf_format r as) | _ \<Rightarrow> None)
        | CHR ''d'' # r \<Rightarrow>
            (case args of PNum w # as \<Rightarrow> map_option ((@) (show_d w)) (printf_format r as) | _ \<Rightarrow> None)
        | CHR ''l'' # CHR ''u'' # r \<Rightarrow>
            (case args of PNum w # as \<Rightarrow> map_option ((@) (show_lu w)) (printf_format r as) | _ \<Rightarrow> None)
        | _ \<Rightarrow> None)"

definition type_counter :: string where "type_counter = ''%s:%d|c''"
definition type_timer :: string where "type_timer = ''%s:%lu|ms''"
definition type_gauge :: string where "type_gauge = ''%s:%lu|g''"
definition type_set :: string where "type_set = ''%s:%d|s''"

definition max_buffer_size :: nat where "max_buffer_size = 256"

text \<open>\<open>sd_sent\<close> is the list of the datagrams handed to the socket so far.\<close>

record statsd =
  sd_prefix :: string
  sd_sent :: "string list"

definition statsd_new :: "string \<Rightarrow> statsd" where
  "statsd_new prefix = \<lparr>sd_prefix = prefix @ ''.'', sd_sent = []\<rparr>"

definition send_stat ::
    "(string \<Rightarrow> exn + nat) \<Rightarrow> statsd \<Rightarrow> string \<Rightarrow> printf_arg list \<Rightarrow> (exn + bool \<times> statsd) option" where
  "send_stat send_to c fmt args =
     (case printf_format (c_str (sd_prefix c @ fmt)) args of
        None \<Rightarrow> None
      | Some msg \<Rightarrow>
          if length msg = 0 \<or> max_buffer_size \<le> length msg
          then Some (Inl (Runtime_error ''stat message larger than max buffer size''))
          else (case send_to msg of
              Inl e \<Rightarrow> Some (Inl e)
            | Inr n \<Rightarrow> Some (Inr (n = length msg, c\<lparr>sd_sent := sd_sent c @ [msg]\<rparr>))))"

datatype statsd_call =
    SCounter string intmax_t
  | STimer string uintmax_t
  | SGauge string uintmax_t
  | SSet string intmax_t

fun statsd_do ::
    "(string \<Rightarrow> exn + nat) \<Rightarrow> statsd \<Rightarrow> statsd_call \<Rightarrow> (exn + bool \<times> statsd) option" where
  "statsd_do send_to c (SCounter name v) = send_stat send_to c type_counter [PStr name, PNum v]"
| "statsd_do send_to c (STimer name v) = send_stat send_to c type_timer [PStr name, PNum v]"
| "statsd_do send_to c (SGauge name v) = send_stat send_to c type_gauge [PStr name, PNum v]"
| "statsd_do send_to c (SSet name v) = send_stat send_to c type_set [PStr name, PNum v]"

text \<open>The body of a \<open>for\<close> loop over a swapped-out map: the first exception leaves it.\<close>

fun statsd_calls ::
    "(string \<Rightarrow> exn + nat) \<Rightarrow> statsd \<Rightarrow> statsd_call list \<Rightarrow> (exn + statsd) option" where
  "statsd_calls send_to c [] = Some (Inr c)"
| "statsd_calls send_to c (x # xs) =
     (case statsd_do send_to c x of
        None \<Rightarrow> None
      | Some (Inl e) \<Rightarrow> Some (Inl e)
      | Some (Inr (_, c')) \<Rightarrow> statsd_calls send_to c' xs)"

section \<open>The aggregators\<close>

text \<open>
  The closures that are registered with \<open>on_epoch\<close>. The program registers one, in
  \<open>rocks::open\<close>; what it does is the parameter \<open>call\<close> of the background loop here and
  is defined with the store.
\<close>

datatype epoch_call = Rocks_epoch

record statsd_aggregator =
  ag_sets :: "(string, intmax_t) omap"
  ag_timers :: "(string, uintmax_t) omap"
  ag_gauges :: "(string, uintmax_t) omap"
  ag_counters :: "(string, intmax_t) omap"
  ag_client :: statsd
  ag_period_s :: int
  ag_running :: bool
  ag_epoch_calls :: "epoch_call list"

definition statsd_aggregator_new :: "string \<Rightarrow> int \<Rightarrow> statsd_aggregator" where
  "statsd_aggregator_new prefix period_s =
     \<lparr>ag_sets = [], ag_timers = [], ag_gauges = [], ag_counters = [],
      ag_client = statsd_new prefix, ag_period_s = period_s, ag_running = True,
      ag_epoch_calls = []\<rparr>"

definition sa_counter :: "statsd_aggregator \<Rightarrow> string \<Rightarrow> intmax_t \<Rightarrow> statsd_aggregator" where
  "sa_counter a name v =
     (case map_of (ag_counters a) name of
        Some old \<Rightarrow> a\<lparr>ag_counters := omap_put name (old + v) (ag_counters a)\<rparr>
      | None \<Rightarrow> a\<lparr>ag_counters := omap_put name v (ag_counters a)\<rparr>)"

definition sa_timer :: "statsd_aggregator \<Rightarrow> string \<Rightarrow> uintmax_t \<Rightarrow> statsd_aggregator" where
  "sa_timer a name v = a\<lparr>ag_timers := omap_put name v (ag_timers a)\<rparr>"

definition sa_gauge :: "statsd_aggregator \<Rightarrow> string \<Rightarrow> uintmax_t \<Rightarrow> statsd_aggregator" where
  "sa_gauge a name v = a\<lparr>ag_gauges := omap_put name v (ag_gauges a)\<rparr>"

definition sa_set :: "statsd_aggregator \<Rightarrow> string \<Rightarrow> intmax_t \<Rightarrow> statsd_aggregator" where
  "sa_set a name v = a\<lparr>ag_sets := omap_put name v (ag_sets a)\<rparr>"

definition sa_on_epoch :: "statsd_aggregator \<Rightarrow> epoch_call \<Rightarrow> statsd_aggregator" where
  "sa_on_epoch a f = a\<lparr>ag_epoch_calls := ag_epoch_calls a @ [f]\<rparr>"

definition statsd_aggregator_stop :: "statsd_aggregator \<Rightarrow> statsd_aggregator" where
  "statsd_aggregator_stop a = a\<lparr>ag_running := False\<rparr>"

text \<open>
  The virtual interface: a shared pointer to one of the two implementations. The null
  aggregator ignores every call.
\<close>

datatype aggregator = Null_aggregator | Statsd_aggregator statsd_aggregator

fun agg_counter :: "aggregator \<Rightarrow> string \<Rightarrow> intmax_t \<Rightarrow> aggregator" where
  "agg_counter Null_aggregator name v = Null_aggregator"
| "agg_counter (Statsd_aggregator a) name v = Statsd_aggregator (sa_counter a name v)"

fun agg_timer :: "aggregator \<Rightarrow> string \<Rightarrow> uintmax_t \<Rightarrow> aggregator" where
  "agg_timer Null_aggregator name v = Null_aggregator"
| "agg_timer (Statsd_aggregator a) name v = Statsd_aggregator (sa_timer a name v)"

fun agg_gauge :: "aggregator \<Rightarrow> string \<Rightarrow> uintmax_t \<Rightarrow> aggregator" where
  "agg_gauge Null_aggregator name v = Null_aggregator"
| "agg_gauge (Statsd_aggregator a) name v = Statsd_aggregator (sa_gauge a name v)"

fun agg_set :: "aggregator \<Rightarrow> string \<Rightarrow> intmax_t \<Rightarrow> aggregator" where
  "agg_set Null_aggregator name v = Null_aggregator"
| "agg_set (Statsd_aggregator a) name v = Statsd_aggregator (sa_set a name v)"

fun agg_on_epoch :: "aggregator \<Rightarrow> epoch_call \<Rightarrow> aggregator" where
  "agg_on_epoch Null_aggregator f = Null_aggregator"
| "agg_on_epoch (Statsd_aggregator a) f = Statsd_aggregator (sa_on_epoch a f)"

section \<open>The background loop\<close>

text \<open>
  The mutex-protected sections of \<open>background_loop\<close>: each one swaps a map with an empty
  one under that map's mutex and returns the client calls its \<open>for\<close> loop then makes, in
  key order. Other threads run between the sections.
\<close>

definition take_sets :: "statsd_aggregator \<Rightarrow> statsd_call list \<times> statsd_aggregator" where
  "take_sets a = (map (\<lambda>(n, v). SSet n v) (ag_sets a), a\<lparr>ag_sets := []\<rparr>)"

definition take_timers :: "statsd_aggregator \<Rightarrow> statsd_call list \<times> statsd_aggregator" where
  "take_timers a = (map (\<lambda>(n, v). STimer n v) (ag_timers a), a\<lparr>ag_timers := []\<rparr>)"

definition take_gauges :: "statsd_aggregator \<Rightarrow> statsd_call list \<times> statsd_aggregator" where
  "take_gauges a = (map (\<lambda>(n, v). SGauge n v) (ag_gauges a), a\<lparr>ag_gauges := []\<rparr>)"

definition take_counters :: "statsd_aggregator \<Rightarrow> statsd_call list \<times> statsd_aggregator" where
  "take_counters a = (map (\<lambda>(n, v). SCounter n v) (ag_counters a), a\<lparr>ag_counters := []\<rparr>)"

definition run_epoch_calls ::
    "(epoch_call \<Rightarrow> statsd_aggregator \<Rightarrow> statsd_aggregator) \<Rightarrow> statsd_aggregator \<Rightarrow> statsd_aggregator" where
  "run_epoch_calls call a = fold call (ag_epoch_calls a) a"

text \<open>
  One section: the swap, then the calls on the client. An exception leaves the thread's
  function, which ends the process (\<open>Inl\<close>).
\<close>

definition flush_section ::
    "(string \<Rightarrow> exn + nat) \<Rightarrow> (statsd_aggregator \<Rightarrow> statsd_call list \<times> statsd_aggregator) \<Rightarrow>
     statsd_aggregator \<Rightarrow> (exn + statsd_aggregator) option" where
  "flush_section send_to tk a =
     (case tk a of (calls, a') \<Rightarrow>
        (case statsd_calls send_to (ag_client a') calls of
           None \<Rightarrow> None
         | Some (Inl e) \<Rightarrow> Some (Inl e)
         | Some (Inr c) \<Rightarrow> Some (Inr (a'\<lparr>ag_client := c\<rparr>))))"

text \<open>
  The actions on the aggregator that interleave: calls of other threads and the sections of
  the background thread. One turn of the loop body is \<open>background_body\<close>.
\<close>

datatype agg_event =
    ECounter string intmax_t
  | ETimer string uintmax_t
  | EGauge string uintmax_t
  | ESet string intmax_t
  | EOn_epoch epoch_call
  | ERun_epochs
  | EFlush_sets
  | EFlush_timers
  | EFlush_gauges
  | EFlush_counters

definition background_body :: "agg_event list" where
  "background_body = [ERun_epochs, EFlush_sets, EFlush_timers, EFlush_gauges, EFlush_counters]"

fun agg_step ::
    "(string \<Rightarrow> exn + nat) \<Rightarrow> (epoch_call \<Rightarrow> statsd_aggregator \<Rightarrow> statsd_aggregator) \<Rightarrow>
     statsd_aggregator \<Rightarrow> agg_event \<Rightarrow> (exn + statsd_aggregator) option" where
  "agg_step send_to call a (ECounter n v) = Some (Inr (sa_counter a n v))"
| "agg_step send_to call a (ETimer n v) = Some (Inr (sa_timer a n v))"
| "agg_step send_to call a (EGauge n v) = Some (Inr (sa_gauge a n v))"
| "agg_step send_to call a (ESet n v) = Some (Inr (sa_set a n v))"
| "agg_step send_to call a (EOn_epoch f) = Some (Inr (sa_on_epoch a f))"
| "agg_step send_to call a ERun_epochs = Some (Inr (run_epoch_calls call a))"
| "agg_step send_to call a EFlush_sets = flush_section send_to take_sets a"
| "agg_step send_to call a EFlush_timers = flush_section send_to take_timers a"
| "agg_step send_to call a EFlush_gauges = flush_section send_to take_gauges a"
| "agg_step send_to call a EFlush_counters = flush_section send_to take_counters a"

fun agg_run ::
    "(string \<Rightarrow> exn + nat) \<Rightarrow> (epoch_call \<Rightarrow> statsd_aggregator \<Rightarrow> statsd_aggregator) \<Rightarrow>
     statsd_aggregator \<Rightarrow> agg_event list \<Rightarrow> (exn + statsd_aggregator) option" where
  "agg_run send_to call a [] = Some (Inr a)"
| "agg_run send_to call a (e # es) =
     (case agg_step send_to call a e of
        None \<Rightarrow> None
      | Some (Inl x) \<Rightarrow> Some (Inl x)
      | Some (Inr a') \<Rightarrow> agg_run send_to call a' es)"

text \<open>The client calls a run makes, in order, up to the point where it stops.\<close>

definition event_calls :: "statsd_aggregator \<Rightarrow> agg_event \<Rightarrow> statsd_call list" where
  "event_calls a e = (case e of
       EFlush_sets \<Rightarrow> fst (take_sets a)
     | EFlush_timers \<Rightarrow> fst (take_timers a)
     | EFlush_gauges \<Rightarrow> fst (take_gauges a)
     | EFlush_counters \<Rightarrow> fst (take_counters a)
     | _ \<Rightarrow> [])"

fun run_calls ::
    "(string \<Rightarrow> exn + nat) \<Rightarrow> (epoch_call \<Rightarrow> statsd_aggregator \<Rightarrow> statsd_aggregator) \<Rightarrow>
     statsd_aggregator \<Rightarrow> agg_event list \<Rightarrow> statsd_call list" where
  "run_calls send_to call a [] = []"
| "run_calls send_to call a (e # es) =
     (case agg_step send_to call a e of
        Some (Inr a') \<Rightarrow> event_calls a e @ run_calls send_to call a' es
      | _ \<Rightarrow> event_calls a e)"

text \<open>Specification side: what was recorded under a counter's name, what was sent, what waits.\<close>

fun event_count :: "string \<Rightarrow> agg_event \<Rightarrow> intmax_t" where
  "event_count n (ECounter k v) = (if k = n then v else 0)"
| "event_count n _ = 0"

fun call_count :: "string \<Rightarrow> statsd_call \<Rightarrow> intmax_t" where
  "call_count n (SCounter k v) = (if k = n then v else 0)"
| "call_count n _ = 0"

definition pending_count :: "string \<Rightarrow> statsd_aggregator \<Rightarrow> intmax_t" where
  "pending_count n a = (case map_of (ag_counters a) n of None \<Rightarrow> 0 | Some v \<Rightarrow> v)"

definition agg_wf :: "statsd_aggregator \<Rightarrow> bool" where
  "agg_wf a \<longleftrightarrow> omap_wf (ag_sets a) \<and> omap_wf (ag_timers a) \<and> omap_wf (ag_gauges a) \<and> omap_wf (ag_counters a)"

section \<open>Lemmas: datagrams\<close>

lemma c_str_id [simp]: "CHR 0x00 \<notin> set s \<Longrightarrow> c_str s = s"
  unfolding c_str_def by (rule takeWhile_eq_all_conv [THEN iffD2]) auto

lemma printf_format_literal:
  "CHR ''%'' \<notin> set p \<Longrightarrow> printf_format (p @ r) args = map_option ((@) p) (printf_format r args)"
  by (induction p; cases "printf_format r args") auto

lemmas stat_masks = type_counter_def type_timer_def type_gauge_def type_set_def

text \<open>The text of the datagram a client call sends.\<close>

fun datagram :: "string \<Rightarrow> statsd_call \<Rightarrow> string" where
  "datagram p (SCounter n v) = p @ n @ '':'' @ show_d v @ ''|c''"
| "datagram p (STimer n v) = p @ n @ '':'' @ show_lu v @ ''|ms''"
| "datagram p (SGauge n v) = p @ n @ '':'' @ show_lu v @ ''|g''"
| "datagram p (SSet n v) = p @ n @ '':'' @ show_d v @ ''|s''"

fun call_name :: "statsd_call \<Rightarrow> string" where
  "call_name (SCounter n v) = n"
| "call_name (STimer n v) = n"
| "call_name (SGauge n v) = n"
| "call_name (SSet n v) = n"

definition plain :: "string \<Rightarrow> bool" where
  "plain s \<longleftrightarrow> CHR ''%'' \<notin> set s \<and> CHR 0x00 \<notin> set s"

lemma statsd_do_datagram:
  assumes "plain (sd_prefix c)" and "CHR 0x00 \<notin> set (call_name x)"
  shows "statsd_do send_to c x =
    (let msg = datagram (sd_prefix c) x in
     if max_buffer_size \<le> length msg
     then Some (Inl (Runtime_error ''stat message larger than max buffer size''))
     else (case send_to msg of
         Inl e \<Rightarrow> Some (Inl e)
       | Inr n \<Rightarrow> Some (Inr (n = length msg, c\<lparr>sd_sent := sd_sent c @ [msg]\<rparr>))))"
  using assms
  by (cases x) (auto simp: send_stat_def stat_masks plain_def printf_format_literal Let_def)

text \<open>
  All calls of a section succeed when every message fits the buffer and the socket accepts
  it: the client then has sent exactly their datagrams, in order.
\<close>

lemma statsd_calls_all_sent:
  assumes "plain (sd_prefix c)"
    and "\<forall>x \<in> set xs. CHR 0x00 \<notin> set (call_name x) \<and> length (datagram (sd_prefix c) x) < max_buffer_size"
    and "\<forall>m. \<exists>n. send_to m = Inr n"
  shows "statsd_calls send_to c xs =
    Some (Inr (c\<lparr>sd_sent := sd_sent c @ map (datagram (sd_prefix c)) xs\<rparr>))"
  using assms
proof (induction xs arbitrary: c)
  case Nil
  then show ?case by simp
next
  case (Cons x xs)
  let ?m = "datagram (sd_prefix c) x"
  let ?c = "c\<lparr>sd_sent := sd_sent c @ [?m]\<rparr>"
  obtain n where n: "send_to ?m = Inr n" using Cons.prems(3) by blast
  have "statsd_do send_to c x = Some (Inr (n = length ?m, ?c))"
    using Cons.prems n by (simp add: statsd_do_datagram Let_def)
  moreover have "statsd_calls send_to ?c xs =
      Some (Inr (?c\<lparr>sd_sent := sd_sent ?c @ map (datagram (sd_prefix ?c)) xs\<rparr>))"
    using Cons.prems by (intro Cons.IH) auto
  ultimately show ?case by simp
qed

lemma stoi_show_d: "stoi (show_d w) = Inr (sint (ucast w :: 32 word))"
proof -
  have "int_min \<le> sint (ucast w :: 32 word)" "sint (ucast w :: 32 word) \<le> int_max"
    using sint_lt [of "ucast w :: 32 word"] sint_ge [of "ucast w :: 32 word"]
    by (simp_all add: int_min_def int_max_def)
  then show ?thesis by (simp add: show_d_def stoi_show_int)
qed

section \<open>Lemmas: conservation of counters\<close>

lemma pending_count_sa_counter:
  "pending_count n (sa_counter a k v) = pending_count n a + (if k = n then v else 0)"
  by (auto simp: sa_counter_def pending_count_def omap_simps split: option.splits)

lemma flush_section_result:
  "flush_section send_to tk a = Some (Inr a') \<Longrightarrow> \<exists>c. a' = (snd (tk a))\<lparr>ag_client := c\<rparr>"
  by (auto simp: flush_section_def split: prod.splits option.splits sum.splits)

lemma sum_call_count_absent:
  "n \<notin> fst ` set m \<Longrightarrow> sum_list (map (\<lambda>x. call_count n (case x of (k, v) \<Rightarrow> SCounter k v)) m) = 0"
  by (induction m) auto

lemma sum_call_count_counters:
  "distinct (map fst m) \<Longrightarrow>
   sum_list (map (\<lambda>x. call_count n (case x of (k, v) \<Rightarrow> SCounter k v)) m)
     = (case map_of m n of None \<Rightarrow> 0 | Some v \<Rightarrow> v)"
proof (induction m)
  case (Cons kv m)
  obtain k v where kv: "kv = (k, v)" by (cases kv)
  show ?case
  proof (cases "k = n")
    case True
    with Cons.prems kv show ?thesis by (auto simp: sum_call_count_absent)
  next
    case False
    with Cons kv show ?thesis by auto
  qed
qed simp

lemma sum_event_calls:
  assumes "omap_wf (ag_counters a)"
  shows "sum_list (map (call_count n) (event_calls a e))
     = (if e = EFlush_counters then pending_count n a else 0)"
  using sum_call_count_counters [OF omap_wf_distinct [OF assms], of n]
  by (cases e)
    (auto simp: event_calls_def take_sets_def take_timers_def take_gauges_def take_counters_def
      pending_count_def comp_def case_prod_unfold intro!: sum_list_0)

lemma fold_calls_counters:
  "\<forall>f x. ag_counters (call f x) = ag_counters x \<Longrightarrow> ag_counters (fold call fs a) = ag_counters a"
  by (induction fs arbitrary: a) auto

lemma agg_step_counters:
  assumes "omap_wf (ag_counters a)" and "\<forall>f x. ag_counters (call f x) = ag_counters x"
    and "agg_step send_to call a e = Some (Inr a')"
  shows "omap_wf (ag_counters a') \<and>
    pending_count n a + event_count n e
      = sum_list (map (call_count n) (event_calls a e)) + pending_count n a'"
  using assms
  by (cases e)
    (auto simp: sum_event_calls pending_count_sa_counter sa_counter_def sa_timer_def sa_gauge_def
      sa_set_def sa_on_epoch_def run_epoch_calls_def take_sets_def take_timers_def
      take_gauges_def take_counters_def fold_calls_counters pending_count_def omap_simps
      split: option.splits if_splits dest!: flush_section_result)

section \<open>Properties\<close>



text \<open>
  A flush sends everything it took: with a prefix free of \<open>%\<close>, names free of NUL,
  messages below the 256-byte buffer and a socket that accepts them, the counters section
  empties the counter map and sends one datagram \<open>prefix.name:value|c\<close> per counter, in
  key order.
\<close>

theorem flush_counters_sends_all:
  assumes "plain (sd_prefix (ag_client a))"
    and "\<forall>(n, v) \<in> set (ag_counters a). CHR 0x00 \<notin> set n \<and>
          length (datagram (sd_prefix (ag_client a)) (SCounter n v)) < max_buffer_size"
    and "\<forall>m. \<exists>n. send_to m = Inr n"
  shows "flush_section send_to take_counters a =
    Some (Inr (a\<lparr>ag_counters := [],
      ag_client := (ag_client a)\<lparr>sd_sent := sd_sent (ag_client a) @
        map (\<lambda>(n, v). sd_prefix (ag_client a) @ n @ '':'' @ show_d v @ ''|c'') (ag_counters a)\<rparr>\<rparr>))"
proof -
  let ?c = "ag_client a"
  let ?xs = "map (\<lambda>(n, v). SCounter n v) (ag_counters a)"
  have "statsd_calls send_to ?c ?xs =
      Some (Inr (?c\<lparr>sd_sent := sd_sent ?c @ map (datagram (sd_prefix ?c)) ?xs\<rparr>))"
    using assms by (intro statsd_calls_all_sent) auto
  then show ?thesis
    by (simp add: flush_section_def take_counters_def comp_def case_prod_unfold)
qed

theorem flush_counters_sends_all_witness:
  "flush_section (\<lambda>m. Inr (length m)) take_counters
     (sa_counter (sa_counter (statsd_aggregator_new ''q'' 1) ''b'' 2) ''a'' 7) \<noteq> None"
proof -
  let ?a = "sa_counter (sa_counter (statsd_aggregator_new ''q'' 1) ''b'' 2) ''a'' 7"
  have 1: "plain (sd_prefix (ag_client ?a))" by code_simp
  have 2: "\<forall>(n, v) \<in> set (ag_counters ?a). CHR 0x00 \<notin> set n \<and>
          length (datagram (sd_prefix (ag_client ?a)) (SCounter n v)) < max_buffer_size"
    by code_simp
  show ?thesis using flush_counters_sends_all [OF 1 2, of "\<lambda>m. Inr (length m)"] by simp
qed

text \<open>
  The value in a counter or set datagram is the low 32 bits of the 64-bit value, read
  as a signed number: it is the recorded value exactly when that fits an \<open>int\<close>.
\<close>

theorem counter_datagram_value:
  "stoi (show_d w) = Inr (sint w) \<longleftrightarrow> int_min \<le> sint w \<and> sint w \<le> int_max"
proof -
  let ?u = "ucast w :: 32 word"
  have eq: "sint ?u = signed_take_bit 31 (sint w)"
    by (simp add: sint_uint signed_take_bit_signed_take_bit unsigned_ucast_eq signed_take_bit_take_bit)
  have "signed_take_bit 31 (sint w) = sint w \<longleftrightarrow> int_min \<le> sint w \<and> sint w \<le> int_max"
    by (simp add: signed_take_bit_int_eq_self_iff int_min_def int_max_def) linarith
  with eq show ?thesis by (simp add: stoi_show_d)
qed

end
