(* ===== verification/Log_Level.thy ===== *)
theory Log_Level
  imports Prelude
begin

text \<open>
  Log levels and the overflow policy (\<open>spdlog/common.h\<close>), with the numeric order of the
  enumeration as a linear order, and the events a component hands to its logger.
\<close>

datatype level_enum = trace | debug | info | warn | err | critical | off

primrec level_num :: "level_enum \<Rightarrow> nat" where
  "level_num trace = 0"
| "level_num debug = 1"
| "level_num info = 2"
| "level_num warn = 3"
| "level_num err = 4"
| "level_num critical = 5"
| "level_num off = 6"

instantiation level_enum :: linorder
begin

definition less_eq_level_enum :: "level_enum \<Rightarrow> level_enum \<Rightarrow> bool" where
  "less_eq_level_enum a b \<longleftrightarrow> level_num a \<le> level_num b"

definition less_level_enum :: "level_enum \<Rightarrow> level_enum \<Rightarrow> bool" where
  "less_level_enum a b \<longleftrightarrow> level_num a < level_num b"

instance
proof
  fix a b :: level_enum
  show "a \<le> b \<Longrightarrow> b \<le> a \<Longrightarrow> a = b"
    by (cases a; cases b) (simp_all add: less_eq_level_enum_def)
qed (auto simp: less_eq_level_enum_def less_level_enum_def)

end

definition level_names :: "string list" where
  "level_names = [''trace'', ''debug'', ''info'', ''warning'', ''error'', ''critical'', ''off'']"

definition short_level_names :: "string list" where
  "short_level_names = [''T'', ''D'', ''I'', ''W'', ''E'', ''C'', ''O'']"

definition to_str :: "level_enum \<Rightarrow> string" where
  "to_str l = level_names ! level_num l"

definition to_short_str :: "level_enum \<Rightarrow> string" where
  "to_short_str l = short_level_names ! level_num l"

datatype async_overflow_policy = block_retry | discard_log_msg

text \<open>A call such as \<open>_log->error(fmt, a, b)\<close>: the level, the format and the arguments.\<close>

type_synonym log_event = "level_enum \<times> string \<times> string list"

lemma level_num_less: "level_num l < 7"
  by (cases l) simp_all

lemma level_trace_least [simp]: "trace \<le> l"
  by (simp add: less_eq_level_enum_def)

lemma level_off_greatest [simp]: "l \<le> off"
  using level_num_less [of l] by (simp add: less_eq_level_enum_def)

lemma to_str_inj: "to_str a = to_str b \<longleftrightarrow> a = b"
  by (cases a; cases b) (simp_all add: to_str_def level_names_def)


text \<open>The level a logger is given by \<open>quitsies::log::create\<close>, from the text of the option.\<close>

definition create_level :: "string \<Rightarrow> exn + level_enum" where
  "create_level level =
     (if level = ''trace'' then Inr trace
      else if level = ''debug'' then Inr debug
      else if level = ''info'' then Inr info
      else if level = ''warn'' then Inr warn
      else if level = ''err'' then Inr err
      else if level = ''critical'' then Inr critical
      else if level = ''off'' then Inr off
      else Inl (Runtime_error (''Unrecognised log level: '' @ level)))"

end
