(* ===== verification/Store.thy ===== *)
theory Store
  imports Stats Log_Level
begin

text \<open>
  The store interface (\<open>db/store.hpp\<close>): the status value, the virtual methods as a record
  of operations over the state \<open>'d\<close> of the implementation, and the contract that the
  request handler relies on, as a locale.
\<close>

record status =
  st_ok :: bool
  st_is_not_found :: bool
  st_msg :: string

definition status_of :: "bool \<Rightarrow> bool \<Rightarrow> string \<Rightarrow> status" where
  "status_of ok nf msg = \<lparr>st_ok = ok, st_is_not_found = nf, st_msg = msg\<rparr>"

text \<open>
  \<open>get\<close> returns the status and the string its out-parameter holds afterwards. \<open>lock\<close>
  is \<open>None\<close> when the mutex is held, so that the caller waits.
\<close>

record 'd store =
  store_get :: "'d \<Rightarrow> string \<Rightarrow> ('d, status \<times> string) call"
  store_del :: "'d \<Rightarrow> string \<Rightarrow> ('d, status) call"
  store_put :: "'d \<Rightarrow> string \<Rightarrow> string \<Rightarrow> ('d, status) call"
  store_lock :: "'d \<Rightarrow> 'd option"
  store_unlock :: "'d \<Rightarrow> 'd"

text \<open>
  The contract. \<open>contents\<close> is the key/value map a state stands for, \<open>held\<close> the mutex,
  \<open>inv\<close> the implementation's invariant. The operations return without an exception; a
  status that is \<open>ok\<close> tells what happened to the map, \<open>is_not_found\<close> that the key is
  absent. Nothing is said about the map after a failed write.
\<close>

locale store_contract =
  fixes s :: "'d store"
    and contents :: "'d \<Rightarrow> string \<rightharpoonup> string"
    and held :: "'d \<Rightarrow> bool"
    and inv :: "'d \<Rightarrow> bool"
  assumes get_returns: "inv d \<Longrightarrow> \<exists>st v d'. store_get s d k = Some (Inr (st, v), d')"
    and get_frame: "inv d \<Longrightarrow> store_get s d k = Some (Inr (st, v), d') \<Longrightarrow>
      inv d' \<and> contents d' = contents d \<and> held d' = held d"
    and get_ok: "inv d \<Longrightarrow> store_get s d k = Some (Inr (st, v), d') \<Longrightarrow> st_ok st \<Longrightarrow>
      contents d k = Some v"
    and get_not_found: "inv d \<Longrightarrow> store_get s d k = Some (Inr (st, v), d') \<Longrightarrow> st_is_not_found st \<Longrightarrow>
      \<not> st_ok st \<and> contents d k = None"
    and del_returns: "inv d \<Longrightarrow> \<exists>st d'. store_del s d k = Some (Inr st, d')"
    and del_frame: "inv d \<Longrightarrow> store_del s d k = Some (Inr st, d') \<Longrightarrow> inv d' \<and> held d' = held d"
    and del_ok: "inv d \<Longrightarrow> store_del s d k = Some (Inr st, d') \<Longrightarrow> st_ok st \<Longrightarrow>
      contents d' = (contents d)(k := None)"
    and put_returns: "inv d \<Longrightarrow> \<exists>st d'. store_put s d k w = Some (Inr st, d')"
    and put_frame: "inv d \<Longrightarrow> store_put s d k w = Some (Inr st, d') \<Longrightarrow> inv d' \<and> held d' = held d"
    and put_ok: "inv d \<Longrightarrow> store_put s d k w = Some (Inr st, d') \<Longrightarrow> st_ok st \<Longrightarrow>
      contents d' = (contents d)(k \<mapsto> w)"
    and lock_free: "inv d \<Longrightarrow> \<not> held d \<Longrightarrow>
      \<exists>d'. store_lock s d = Some d' \<and> inv d' \<and> held d' \<and> contents d' = contents d"
    and lock_held: "held d \<Longrightarrow> store_lock s d = None"
    and unlock: "inv d \<Longrightarrow>
      inv (store_unlock s d) \<and> \<not> held (store_unlock s d) \<and> contents (store_unlock s d) = contents d"

end
