(* ===== verification/Request.thy ===== *)
theory Request
  imports Store
begin

text \<open>
  The memcached request parser and responder (\<open>tcp/request.hpp\<close>, \<open>tcp/request.cpp\<close>):
  a byte-driven state machine that collects a command from any number of chunks and then
  answers it from the store.
\<close>

section \<open>State\<close>

datatype status_type =
    COMMAND | DELETE_KEY | STORAGE_KEY | FLAGS | EXPTIME | NBYTES | NOREP | DATA
  | RETRIEVAL_KEY | RETRIEVAL_KEYS | FINISHED | QUITTING

datatype command_type = NONE | SET | ADD | GET | GETS | DELETE | QUIT | PING

text \<open>
  The string stream \<open>_buffer\<close> is only ever appended to, read whole and cleared, so it is
  the string it holds, and \<open>tellp()\<close> is its length.
\<close>

record request =
  rq_max_bytes :: size_t
  rq_status :: status_type
  rq_buffer :: string
  rq_response :: string
  rq_command :: command_type
  rq_keys :: "string list"
  rq_flags :: int
  rq_exp_time :: int
  rq_remaining :: size_t
  rq_no_reply :: bool

text \<open>
  The constructor. It does not initialise \<open>_command\<close>: the value that member happens to
  have is the argument \<open>garbage\<close>.
\<close>

definition request_new :: "command_type \<Rightarrow> size_t \<Rightarrow> request" where
  "request_new garbage max_bytes =
     \<lparr>rq_max_bytes = max_bytes, rq_status = COMMAND, rq_buffer = [], rq_response = [],
      rq_command = garbage, rq_keys = [], rq_flags = 0, rq_exp_time = 0, rq_remaining = 0,
      rq_no_reply = False\<rparr>"

definition request_reset :: "request \<Rightarrow> request" where
  "request_reset r =
     r\<lparr>rq_status := COMMAND, rq_command := NONE, rq_keys := [], rq_flags := 0, rq_exp_time := 0,
       rq_remaining := 0, rq_no_reply := False, rq_buffer := [], rq_response := []\<rparr>"

section \<open>Helpers\<close>

definition is_white_space :: "char \<Rightarrow> bool" where
  "is_white_space c \<longleftrightarrow>
     c = CHR '' '' \<or> c = CHR 0x09 \<or> c = CHR 0x0C \<or> c = CHR 0x0D \<or> c = CHR 0x0A \<or> c = CHR 0x0B"

definition command_from_str :: "string \<Rightarrow> command_type" where
  "command_from_str cmd =
     (if cmd = ''set'' then SET
      else if cmd = ''add'' then ADD
      else if cmd = ''get'' then GET
      else if cmd = ''gets'' then GETS
      else if cmd = ''delete'' then DELETE
      else if cmd = ''quit'' then QUIT
      else if cmd = ''ping'' then PING
      else NONE)"

fun status_from_command :: "command_type \<Rightarrow> exn + status_type" where
  "status_from_command SET = Inr STORAGE_KEY"
| "status_from_command ADD = Inr STORAGE_KEY"
| "status_from_command GET = Inr RETRIEVAL_KEY"
| "status_from_command GETS = Inr RETRIEVAL_KEY"
| "status_from_command DELETE = Inr DELETE_KEY"
| "status_from_command QUIT = Inr QUITTING"
| "status_from_command PING = Inr FINISHED"
| "status_from_command NONE = Inl (Runtime_error ''unsupported command'')"

text \<open>
  \<open>is_returned\<close> moves the read position to the end of the stream and reads there, which
  is the end-of-file value \<open>-1\<close> (nothing in the program calls it).
\<close>

definition get_at_end :: "string \<Rightarrow> int" where
  "get_at_end buffer = (case drop (length buffer) buffer of [] \<Rightarrow> -1 | c # _ \<Rightarrow> int (of_char c))"

definition is_returned :: "string \<Rightarrow> bool" where
  "is_returned buffer \<longleftrightarrow> get_at_end buffer = 13"

section \<open>Responses\<close>

definition error_line :: "string \<Rightarrow> string" where
  "error_line msg = ''ERROR '' @ msg @ CRLF"

text \<open>The lines a storage or a deletion attempt answers with.\<close>

definition put_line :: "status \<Rightarrow> string" where
  "put_line st = (if st_ok st then ''STORED'' @ CRLF else error_line (st_msg st))"

definition value_block :: "string \<Rightarrow> string \<Rightarrow> string" where
  "value_block key v = ''VALUE '' @ key @ '' 0 '' @ show_nat (length v) @ CRLF @ v @ CRLF"

text \<open>The loop over the keys of a retrieval command, with the stream \<open>ss\<close> so far.\<close>

fun get_keys_loop :: "'d store \<Rightarrow> 'd \<Rightarrow> string \<Rightarrow> string list \<Rightarrow> ('d, string) call" where
  "get_keys_loop s d ss [] = Some (Inr (ss @ ''END'' @ CRLF), d)"
| "get_keys_loop s d ss (k # ks) =
     bind_call (store_get s d k) (\<lambda>(st, v) d'.
       get_keys_loop s d' (if st_ok st then ss @ value_block k v else ss) ks)"

text \<open>
  The body of the \<open>try\<close> block of \<open>prepare_response\<close>. An exception between \<open>lock\<close> and
  \<open>unlock\<close> leaves the mutex held.
\<close>

definition respond :: "'d store \<Rightarrow> 'd \<Rightarrow> request \<Rightarrow> ('d, string) call" where
  "respond s d r = (case rq_command r of
       DELETE \<Rightarrow>
         bind_call (store_get s d (hd (rq_keys r))) (\<lambda>(st, v) d1.
           if \<not> st_ok st then Some (Inr (''NOT_FOUND'' @ CRLF), d1)
           else bind_call (store_del s d1 (hd (rq_keys r))) (\<lambda>st d2.
             Some (Inr (if st_ok st then ''DELETED'' @ CRLF else error_line (st_msg st)), d2)))
     | ADD \<Rightarrow>
         (case store_lock s d of
            None \<Rightarrow> None
          | Some d1 \<Rightarrow>
              bind_call (store_get s d1 (hd (rq_keys r))) (\<lambda>(st, v) d2.
                if \<not> st_ok st then
                  if st_is_not_found st then
                    bind_call (store_put s d2 (hd (rq_keys r)) (rq_buffer r)) (\<lambda>st d3.
                      Some (Inr (put_line st), store_unlock s d3))
                  else Some (Inr (error_line (st_msg st)), store_unlock s d2)
                else Some (Inr (''NOT_STORED'' @ CRLF), store_unlock s d2)))
     | SET \<Rightarrow>
         bind_call (store_put s d (hd (rq_keys r)) (rq_buffer r)) (\<lambda>st d1. Some (Inr (put_line st), d1))
     | GET \<Rightarrow> get_keys_loop s d [] (rq_keys r)
     | GETS \<Rightarrow> get_keys_loop s d [] (rq_keys r)
     | _ \<Rightarrow> Some (Inl (Runtime_error ''unsupported command''), d))"

definition finish :: "string \<Rightarrow> request \<Rightarrow> request" where
  "finish resp r = r\<lparr>rq_response := resp, rq_status := FINISHED\<rparr>"

text \<open>\<open>db = None\<close> is the null store pointer.\<close>

definition prepare_response :: "'d store option \<Rightarrow> 'd \<Rightarrow> request \<Rightarrow> (request \<times> 'd) option" where
  "prepare_response db d r =
     (if rq_command r = PING then Some (finish (''PONG'' @ CRLF) r, d)
      else case db of
          None \<Rightarrow> Some (finish (''ERROR The server isn'' @ [CHR 0x27] @ ''t configured with a database'' @ CRLF) r, d)
        | Some s \<Rightarrow>
            if rq_keys r = [] then Some (finish (''ERROR No key was found in request'' @ CRLF) r, d)
            else (case respond s d r of
                None \<Rightarrow> None
              | Some (Inl e, d') \<Rightarrow> Some (finish (error_line (what e)) r, d')
              | Some (Inr resp, d') \<Rightarrow> Some (finish resp r, d')))"

section \<open>Parsing\<close>

text \<open>
  One turn of the loop of \<open>process\<close>: go on with the next byte, call \<open>prepare_response\<close>
  and return, or throw. The request of \<open>Throw\<close> is what the members hold at the throw.
\<close>

datatype char_step = Continue request | Prepare request | Throw exn request

definition take_key :: "request \<Rightarrow> status_type \<Rightarrow> char_step" where
  "take_key r next =
     (if length (rq_buffer r) = 0 then Throw (Runtime_error ''invalid key'') r
      else Continue (r\<lparr>rq_keys := rq_keys r @ [rq_buffer r], rq_buffer := [], rq_status := next\<rparr>))"

definition white_space_step :: "request \<Rightarrow> char_step" where
  "white_space_step r = (case rq_status r of
       COMMAND \<Rightarrow>
         (let r1 = r\<lparr>rq_command := command_from_str (rq_buffer r), rq_buffer := []\<rparr> in
          case status_from_command (rq_command r1) of
            Inl e \<Rightarrow> Throw e r1
          | Inr st \<Rightarrow>
              (let r2 = r1\<lparr>rq_status := st\<rparr> in
               if st = FINISHED then Prepare r2 else Continue r2))
     | DELETE_KEY \<Rightarrow> take_key r NOREP
     | STORAGE_KEY \<Rightarrow> take_key r FLAGS
     | FLAGS \<Rightarrow>
         (case stoi (rq_buffer r) of
            Inl e \<Rightarrow> Throw e r
          | Inr v \<Rightarrow> Continue (r\<lparr>rq_flags := v, rq_buffer := [], rq_status := EXPTIME\<rparr>))
     | EXPTIME \<Rightarrow>
         (case stoi (rq_buffer r) of
            Inl e \<Rightarrow> Throw e r
          | Inr v \<Rightarrow> Continue (r\<lparr>rq_exp_time := v, rq_buffer := [], rq_status := NBYTES\<rparr>))
     | NBYTES \<Rightarrow>
         (case stoi (rq_buffer r) of
            Inl e \<Rightarrow> Throw e r
          | Inr v \<Rightarrow> Continue (r\<lparr>rq_remaining := word_of_int v, rq_buffer := [], rq_status := NOREP\<rparr>))
     | NOREP \<Rightarrow>
         (if rq_buffer r = ''noreply''
          then Continue (r\<lparr>rq_buffer := [], rq_no_reply := True, rq_status := NOREP\<rparr>)
          else if rq_remaining r > 0 then Continue (r\<lparr>rq_status := DATA\<rparr>)
          else Prepare r)
     | RETRIEVAL_KEY \<Rightarrow>
         (if length (rq_buffer r) = 0 then Prepare r else take_key r RETRIEVAL_KEY)
     | RETRIEVAL_KEYS \<Rightarrow>
         (if length (rq_buffer r) = 0 then Prepare r else take_key r RETRIEVAL_KEYS)
     | _ \<Rightarrow> Continue r)"

definition process_char :: "request \<Rightarrow> char \<Rightarrow> char_step" where
  "process_char r c =
     (if rq_status r = DATA then
        if rq_remaining r > 0
        then Continue (r\<lparr>rq_remaining := rq_remaining r - 1, rq_buffer := rq_buffer r @ [c]\<rparr>)
        else Prepare r
      else if is_white_space c then white_space_step r
      else Continue (r\<lparr>rq_buffer := rq_buffer r @ [c]\<rparr>))"

definition client_error :: "exn \<Rightarrow> request \<Rightarrow> request" where
  "client_error e r = finish (''CLIENT_ERROR '' @ what e @ CRLF) r"

fun process_loop :: "'d store option \<Rightarrow> 'd \<Rightarrow> request \<Rightarrow> string \<Rightarrow> (request \<times> 'd) option" where
  "process_loop db d r [] = Some (r, d)"
| "process_loop db d r (c # cs) = (case process_char r c of
       Continue r' \<Rightarrow> process_loop db d r' cs
     | Prepare r' \<Rightarrow> prepare_response db d r'
     | Throw e r' \<Rightarrow> Some (client_error e r', d))"

text \<open>\<open>length + _buffer.tellp()\<close> is computed in \<open>size_t\<close>, modulo \<open>2 ^ 64\<close>.\<close>

definition process :: "'d store option \<Rightarrow> 'd \<Rightarrow> request \<Rightarrow> string \<Rightarrow> (request \<times> 'd) option" where
  "process db d r data =
     (if rq_max_bytes r > 0 \<and>
         word_of_nat (length data) + word_of_nat (length (rq_buffer r)) \<ge> rq_max_bytes r
      then Some (client_error (Runtime_error ''request size exceeded max bytes'') r, d)
      else process_loop db d r data)"

definition get_response :: "request \<Rightarrow> exn + string" where
  "get_response r =
     (if rq_status r \<noteq> FINISHED then Inl (Runtime_error ''request not fully parsed'')
      else Inr (rq_response r))"

text \<open>A connection feeds the chunks it reads one after the other until the request is finished.\<close>

fun process_chunks :: "'d store option \<Rightarrow> 'd \<Rightarrow> request \<Rightarrow> string list \<Rightarrow> (request \<times> 'd) option" where
  "process_chunks db d r [] = Some (r, d)"
| "process_chunks db d r (xs # xss) = (case process db d r xs of
       None \<Rightarrow> None
     | Some (r', d') \<Rightarrow>
         if rq_status r' = FINISHED then Some (r', d') else process_chunks db d' r' xss)"

section \<open>Lemmas: single steps\<close>

lemma finish_simps [simp]:
  "rq_status (finish x r) = FINISHED" "rq_response (finish x r) = x"
  "rq_max_bytes (finish x r) = rq_max_bytes r" "rq_command (finish x r) = rq_command r"
  "rq_keys (finish x r) = rq_keys r" "rq_buffer (finish x r) = rq_buffer r"
  "rq_no_reply (finish x r) = rq_no_reply r" "rq_flags (finish x r) = rq_flags r"
  "rq_exp_time (finish x r) = rq_exp_time r" "rq_remaining (finish x r) = rq_remaining r"
  by (simp_all add: finish_def)

lemma client_error_simps [simp]:
  "rq_status (client_error e r) = FINISHED"
  "rq_response (client_error e r) = ''CLIENT_ERROR '' @ what e @ CRLF"
  "rq_max_bytes (client_error e r) = rq_max_bytes r"
  by (simp_all add: client_error_def)

lemma is_white_space_isspace: "is_white_space c \<longleftrightarrow> isspace c"
  by (auto simp: is_white_space_def isspace_def)

lemma prepare_response_finish:
  "prepare_response db d r = Some (r', d') \<Longrightarrow> \<exists>x. r' = finish x r"
  by (auto simp: prepare_response_def split: if_splits option.splits sum.splits)

lemmas step_defs = process_char_def white_space_step_def take_key_def

text \<open>
  A byte that does not end the request leaves an unfinished request unfinished, and no byte
  touches the size limit or the response.
\<close>

lemma process_char_Continue:
  assumes "process_char r c = Continue r'" and "rq_status r \<noteq> FINISHED"
  shows "rq_status r' \<noteq> FINISHED"
  using assms
  by (cases "rq_status r")
    (auto simp: step_defs Let_def split: if_splits sum.splits)

lemma process_char_frame:
  assumes "process_char r c \<in> {Continue r', Prepare r', Throw e r'}"
  shows "rq_max_bytes r' = rq_max_bytes r \<and> rq_response r' = rq_response r"
  using assms
  by (cases "rq_status r")
    (auto simp: step_defs Let_def split: if_splits sum.splits)

lemma process_loop_append:
  assumes "rq_status r \<noteq> FINISHED"
  shows "process_loop db d r (xs @ ys) = (case process_loop db d r xs of
      None \<Rightarrow> None
    | Some (r', d') \<Rightarrow> if rq_status r' = FINISHED then Some (r', d') else process_loop db d' r' ys)"
  using assms
proof (induction xs arbitrary: r)
  case Nil
  then show ?case by simp
next
  case (Cons c xs)
  show ?case
  proof (cases "process_char r c")
    case (Continue r')
    with Cons process_char_Continue [OF Continue] show ?thesis by simp
  next
    case (Prepare r')
    then show ?thesis
      by (auto split: option.splits dest: prepare_response_finish)
  next
    case (Throw e r')
    then show ?thesis by simp
  qed
qed

lemma process_loop_max_bytes:
  "process_loop db d r xs = Some (r', d') \<Longrightarrow> rq_max_bytes r' = rq_max_bytes r"
proof (induction xs arbitrary: r)
  case (Cons c xs)
  show ?case
  proof (cases "process_char r c")
    case (Continue r1)
    then have "rq_max_bytes r1 = rq_max_bytes r" using process_char_frame [of r c r1] by auto
    moreover have "rq_max_bytes r' = rq_max_bytes r1" using Cons Continue by auto
    ultimately show ?thesis by simp
  next
    case (Prepare r1)
    then have "rq_max_bytes r1 = rq_max_bytes r" using process_char_frame [of r c r1] by auto
    with Cons.prems Prepare show ?thesis by (auto dest: prepare_response_finish)
  next
    case (Throw e r1)
    then have "rq_max_bytes r1 = rq_max_bytes r" using process_char_frame [of r c r1] by auto
    with Cons.prems Throw show ?thesis by auto
  qed
qed simp

lemma process_unlimited: "rq_max_bytes r = 0 \<Longrightarrow> process db d r xs = process_loop db d r xs"
  by (simp add: process_def)

end
