(* ===== verification/Request_Parse.thy ===== *)
theory Request_Parse
  imports Request
begin

text \<open>
  What the request parser accepts: independence of chunk boundaries, the wire format of the
  memcached commands and the state they lead to, the parser's invariant, the shape of every
  response and the size limit.
\<close>

section \<open>The wire format\<close>

text \<open>A word is a non-empty string without white space.\<close>

definition is_word :: "string \<Rightarrow> bool" where
  "is_word w \<longleftrightarrow> w \<noteq> [] \<and> (\<forall>c \<in> set w. \<not> is_white_space c)"

definition storage_line :: "string \<Rightarrow> string \<Rightarrow> int \<Rightarrow> int \<Rightarrow> nat \<Rightarrow> bool \<Rightarrow> string" where
  "storage_line cmd k f e n noreply =
     cmd @ '' '' @ k @ '' '' @ show_int f @ '' '' @ show_int e @ '' '' @ show_nat n @
     (if noreply then '' noreply'' else []) @ CRLF"

definition retrieval_line :: "string \<Rightarrow> string list \<Rightarrow> string" where
  "retrieval_line cmd ks = cmd @ concat (map (\<lambda>k. '' '' @ k) ks) @ CRLF"

definition delete_line :: "string \<Rightarrow> bool \<Rightarrow> string" where
  "delete_line k noreply = ''delete '' @ k @ (if noreply then '' noreply'' else []) @ CRLF"

text \<open>A request at the start of a command.\<close>

definition fresh :: "request \<Rightarrow> bool" where
  "fresh r \<longleftrightarrow> rq_status r = COMMAND \<and> rq_buffer r = [] \<and> rq_keys r = [] \<and>
     rq_flags r = 0 \<and> rq_exp_time r = 0 \<and> rq_remaining r = 0 \<and> \<not> rq_no_reply r"

section \<open>Lemmas: words and white space\<close>

lemma fresh_new: "fresh (request_new g m)"
  by (simp add: fresh_def request_new_def)

lemma fresh_reset: "fresh (request_reset r)"
  by (simp add: fresh_def request_reset_def)

lemma ws_chars [simp]:
  "is_white_space (CHR '' '')" "is_white_space CR" "is_white_space LF"
  by (simp_all add: is_white_space_def)

lemma is_word_show_int: "is_word (show_int i)"
  by (auto simp: is_word_def is_white_space_isspace show_int_not_space)

lemma is_word_show_nat: "is_word (show_nat n)"
  by (auto simp: is_word_def is_white_space_isspace show_nat_not_space)

lemma process_loop_word:
  assumes "\<forall>c \<in> set w. \<not> is_white_space c" and "rq_status r \<noteq> DATA"
  shows "process_loop db d r (w @ xs) = process_loop db d (r\<lparr>rq_buffer := rq_buffer r @ w\<rparr>) xs"
  using assms by (induction w arbitrary: r) (auto simp: process_char_def)

lemma process_loop_data:
  assumes "rq_status r = DATA" and "length v \<le> unat (rq_remaining r)"
  shows "process_loop db d r (v @ xs) = process_loop db d
    (r\<lparr>rq_remaining := rq_remaining r - word_of_nat (length v), rq_buffer := rq_buffer r @ v\<rparr>) xs"
  using assms
proof (induction v arbitrary: r)
  case Nil
  then show ?case by simp
next
  case (Cons c v)
  let ?r = "r\<lparr>rq_remaining := rq_remaining r - 1, rq_buffer := rq_buffer r @ [c]\<rparr>"
  have pos: "rq_remaining r > 0" using Cons.prems(2) by (auto simp: word_greater_zero_iff)
  have "unat (rq_remaining r - 1) = unat (rq_remaining r) - 1"
    using pos by (simp add: unat_minus_one word_greater_zero_iff)
  then have "process_loop db d ?r (v @ xs) = process_loop db d
    (?r\<lparr>rq_remaining := rq_remaining ?r - word_of_nat (length v), rq_buffer := rq_buffer ?r @ v\<rparr>) xs"
    using Cons.prems by (intro Cons.IH) auto
  with Cons.prems(1) pos show ?case by (simp add: process_char_def algebra_simps)
qed

lemma process_loop_space:
  assumes "is_white_space c" and "rq_status r \<noteq> DATA"
  shows "process_loop db d r (c # xs) = (case white_space_step r of
       Continue r' \<Rightarrow> process_loop db d r' xs
     | Prepare r' \<Rightarrow> prepare_response db d r'
     | Throw e r' \<Rightarrow> Some (client_error e r', d))"
  using assms by (simp add: process_char_def)

lemma word_then_space:
  assumes "\<forall>c \<in> set w. \<not> is_white_space c" and "is_white_space c"
    and "rq_status r \<noteq> DATA" and "rq_buffer r = []"
    and "white_space_step (r\<lparr>rq_buffer := w\<rparr>) = Continue r'"
  shows "process_loop db d r (w @ c # xs) = process_loop db d r' xs"
  using assms by (simp add: process_loop_word process_loop_space del: process_loop.simps)

lemma remaining_word: "int n \<le> int_max \<Longrightarrow> unat (word_of_nat n :: size_t) = n"
  by (rule unat_size_t_of_nat) (simp add: int_max_def)

lemma remaining_positive: "0 < n \<Longrightarrow> int n \<le> int_max \<Longrightarrow> (word_of_nat n :: size_t) > 0"
  using remaining_word [of n] by (simp add: word_greater_zero_iff) (metis unat_0 less_irrefl)

section \<open>Lemmas: the commands\<close>

text \<open>
  The header of a storage command, up to and including its line feed, leads to \<open>DATA\<close>
  with every field set, whatever follows.
\<close>

lemma storage_header:
  assumes r: "fresh r" and cmd: "cmd = ''set'' \<or> cmd = ''add''" and k: "is_word k"
    and f: "int_min \<le> f" "f \<le> int_max" and e: "int_min \<le> e" "e \<le> int_max"
    and n: "0 < n" "int n \<le> int_max"
  shows "process_loop db d r (storage_line cmd k f e n nr @ xs) = process_loop db d
    (r\<lparr>rq_status := DATA, rq_command := command_from_str cmd, rq_keys := [k], rq_flags := f,
       rq_exp_time := e, rq_remaining := word_of_nat n, rq_no_reply := nr\<rparr>) xs"
proof -
  define r1 where "r1 = r\<lparr>rq_command := command_from_str cmd, rq_status := STORAGE_KEY\<rparr>"
  define r2 where "r2 = r1\<lparr>rq_keys := [k], rq_status := FLAGS\<rparr>"
  define r3 where "r3 = r2\<lparr>rq_flags := f, rq_status := EXPTIME\<rparr>"
  define r4 where "r4 = r3\<lparr>rq_exp_time := e, rq_status := NBYTES\<rparr>"
  define r5 where "r5 = r4\<lparr>rq_remaining := word_of_nat n, rq_status := NOREP\<rparr>"
  note defs = r5_def r4_def r3_def r2_def r1_def
  note st = r [unfolded fresh_def]
  have cw: "\<forall>c \<in> set cmd. \<not> is_white_space c" using cmd by (auto simp: is_white_space_def)
  have kw: "k \<noteq> []" "\<forall>c \<in> set k. \<not> is_white_space c" using k by (auto simp: is_word_def)
  have words: "\<forall>c \<in> set (show_int f). \<not> is_white_space c" "\<forall>c \<in> set (show_int e). \<not> is_white_space c"
    "\<forall>c \<in> set (show_nat n). \<not> is_white_space c"
    using is_word_show_int is_word_show_nat by (auto simp: is_word_def)
  have s1: "process_loop db d r (cmd @ CHR '' '' # ys) = process_loop db d r1 ys" for ys
    using cmd st by (intro word_then_space [OF cw])
      (auto simp: white_space_step_def command_from_str_def r1_def Let_def)
  have s2: "process_loop db d r1 (k @ CHR '' '' # ys) = process_loop db d r2 ys" for ys
    using kw st by (intro word_then_space [OF kw(2)])
      (auto simp: white_space_step_def take_key_def r2_def r1_def)
  have s3: "process_loop db d r2 (show_int f @ CHR '' '' # ys) = process_loop db d r3 ys" for ys
    using st f by (intro word_then_space [OF words(1)])
      (auto simp: white_space_step_def stoi_show_int r3_def r2_def r1_def)
  have s4: "process_loop db d r3 (show_int e @ CHR '' '' # ys) = process_loop db d r4 ys" for ys
    using st e by (intro word_then_space [OF words(2)])
      (auto simp: white_space_step_def stoi_show_int r4_def r3_def r2_def r1_def)
  have s5: "process_loop db d r4 (show_nat n @ c # ys) = process_loop db d r5 ys"
    if "is_white_space c" for c ys
    using st n that by (intro word_then_space [OF words(3)])
      (auto simp: white_space_step_def stoi_show_nat defs)
  have pos: "(word_of_nat n :: size_t) > 0" using n by (rule remaining_positive)
  have s6: "process_loop db d (r5\<lparr>rq_no_reply := b\<rparr>) (LF # ys) =
      process_loop db d (r5\<lparr>rq_no_reply := b, rq_status := DATA\<rparr>) ys" for b ys
    using st pos by (simp add: process_loop_space white_space_step_def defs del: process_loop.simps)
  have s7: "process_loop db d r5 (''noreply'' @ CR # ys) = process_loop db d (r5\<lparr>rq_no_reply := True\<rparr>) ys" for ys
    using st by (intro word_then_space) (auto simp: white_space_step_def defs is_white_space_def)
  have nr_false: "r5\<lparr>rq_no_reply := False\<rparr> = r5" using st by (simp add: defs)
  show ?thesis
  proof (cases nr)
    case True
    then show ?thesis
      using s7 [of "LF # xs"] s6 [of True xs] st
      by (simp add: storage_line_def s1 s2 s3 s4 s5 del: process_loop.simps)
        (cases r, simp add: defs)
  next
    case False
    then show ?thesis
      using s6 [of False xs] st nr_false
      by (simp add: storage_line_def s1 s2 s3 s4 s5 del: process_loop.simps)
        (cases r, simp add: defs)
  qed
qed

lemma storage_parsed:
  assumes "fresh r" and "cmd = ''set'' \<or> cmd = ''add''" and "is_word k"
    and "int_min \<le> f" "f \<le> int_max" and "int_min \<le> e" "e \<le> int_max"
    and v: "0 < length v" "int (length v) \<le> int_max"
  shows "process_loop db d r (storage_line cmd k f e (length v) nr @ v @ c # xs) = prepare_response db d
    (r\<lparr>rq_status := DATA, rq_command := command_from_str cmd, rq_keys := [k], rq_flags := f,
       rq_exp_time := e, rq_remaining := 0, rq_buffer := v, rq_no_reply := nr\<rparr>)"
proof -
  let ?q = "r\<lparr>rq_status := DATA, rq_command := command_from_str cmd, rq_keys := [k], rq_flags := f,
       rq_exp_time := e, rq_remaining := word_of_nat (length v), rq_no_reply := nr\<rparr>"
  have "process_loop db d r (storage_line cmd k f e (length v) nr @ v @ c # xs)
      = process_loop db d ?q (v @ c # xs)"
    by (rule storage_header [OF assms])
  also have "\<dots> = process_loop db d
      (?q\<lparr>rq_remaining := rq_remaining ?q - word_of_nat (length v), rq_buffer := rq_buffer ?q @ v\<rparr>) (c # xs)"
    using v by (intro process_loop_data) (simp_all add: remaining_word)
  also have "\<dots> = prepare_response db d
    (r\<lparr>rq_status := DATA, rq_command := command_from_str cmd, rq_keys := [k], rq_flags := f,
       rq_exp_time := e, rq_remaining := 0, rq_buffer := v, rq_no_reply := nr\<rparr>)"
    using assms(1) by (cases r) (simp add: process_char_def fresh_def)
  finally show ?thesis .
qed

lemma keys_loop:
  assumes "rq_status r = RETRIEVAL_KEY" "rq_buffer r = []" "is_word k" "\<forall>k \<in> set ks. is_word k"
  shows "process_loop db d r (k @ concat (map (\<lambda>k. '' '' @ k) ks) @ CRLF @ xs) =
    prepare_response db d (r\<lparr>rq_keys := rq_keys r @ k # ks\<rparr>)"
  using assms
proof (induction ks arbitrary: r k)
  case Nil
  let ?r = "r\<lparr>rq_keys := rq_keys r @ [k]\<rparr>"
  have "process_loop db d r (k @ CR # LF # xs) = process_loop db d ?r (LF # xs)"
    using Nil by (intro word_then_space)
      (auto simp: is_word_def white_space_step_def take_key_def)
  also have "\<dots> = prepare_response db d ?r"
    using Nil by (simp add: process_loop_space white_space_step_def del: process_loop.simps)
  finally show ?case by simp
next
  case (Cons k' ks)
  let ?r = "r\<lparr>rq_keys := rq_keys r @ [k]\<rparr>"
  let ?rest = "k' @ concat (map (\<lambda>k. '' '' @ k) ks) @ CRLF @ xs"
  have "process_loop db d r (k @ CHR '' '' # ?rest) = process_loop db d ?r ?rest"
    using Cons.prems by (intro word_then_space)
      (auto simp: is_word_def white_space_step_def take_key_def)
  also have "\<dots> = prepare_response db d (?r\<lparr>rq_keys := rq_keys ?r @ k' # ks\<rparr>)"
    using Cons.prems by (intro Cons.IH) auto
  finally show ?case by simp
qed

lemma retrieval_parsed:
  assumes "fresh r" and cmd: "cmd = ''get'' \<or> cmd = ''gets''"
    and ks: "ks \<noteq> []" "\<forall>k \<in> set ks. is_word k"
  shows "process_loop db d r (retrieval_line cmd ks @ xs) = prepare_response db d
    (r\<lparr>rq_status := RETRIEVAL_KEY, rq_command := command_from_str cmd, rq_keys := ks\<rparr>)"
proof -
  obtain k ks' where kk: "ks = k # ks'" using ks(1) by (cases ks) auto
  let ?r = "r\<lparr>rq_command := command_from_str cmd, rq_status := RETRIEVAL_KEY\<rparr>"
  have "process_loop db d r (cmd @ CHR '' '' # ys) = process_loop db d ?r ys" for ys
    using assms by (intro word_then_space)
      (auto simp: white_space_step_def command_from_str_def Let_def fresh_def is_white_space_def)
  then show ?thesis
    using keys_loop [of ?r k ks' db d xs] ks kk assms(1)
    by (cases r) (simp add: retrieval_line_def fresh_def)
qed

lemma delete_parsed:
  assumes "fresh r" and k: "is_word k"
  shows "process_loop db d r (delete_line k nr @ xs) = prepare_response db d
    (r\<lparr>rq_status := NOREP, rq_command := DELETE, rq_keys := [k], rq_no_reply := nr\<rparr>)"
proof -
  let ?r1 = "r\<lparr>rq_command := DELETE, rq_status := DELETE_KEY\<rparr>"
  let ?r2 = "?r1\<lparr>rq_keys := [k], rq_status := NOREP\<rparr>"
  note st = assms(1) [unfolded fresh_def]
  have s1: "process_loop db d r (''delete'' @ CHR '' '' # ys) = process_loop db d ?r1 ys" for ys
    using st by (intro word_then_space)
      (auto simp: white_space_step_def command_from_str_def Let_def is_white_space_def)
  have s2: "process_loop db d ?r1 (k @ c # ys) = process_loop db d ?r2 ys" if "is_white_space c" for c ys
    using st k that by (intro word_then_space)
      (auto simp: white_space_step_def take_key_def is_word_def)
  have s3: "process_loop db d ?r2 (''noreply'' @ CR # ys) = process_loop db d (?r2\<lparr>rq_no_reply := True\<rparr>) ys" for ys
    using st by (intro word_then_space) (auto simp: white_space_step_def is_white_space_def)
  have s4: "process_loop db d (?r2\<lparr>rq_no_reply := b\<rparr>) (LF # ys) = prepare_response db d (?r2\<lparr>rq_no_reply := b\<rparr>)" for b ys
    using st by (simp add: process_loop_space white_space_step_def del: process_loop.simps)
  show ?thesis
  proof (cases nr)
    case True
    then show ?thesis
      using s1 [of "k @ CHR '' '' # ''noreply'' @ CR # LF # xs"] s2 [of "CHR '' ''" "''noreply'' @ CR # LF # xs"]
        s3 [of "LF # xs"] s4 [of True xs]
      by (simp add: delete_line_def del: process_loop.simps) (cases r, simp)
  next
    case False
    have eq: "?r2\<lparr>rq_no_reply := False\<rparr> = ?r2" using st by simp
    show ?thesis
      using s1 [of "k @ CR # LF # xs"] s2 [of CR "LF # xs"] s4 [of False xs, unfolded eq] False st
      by (simp add: delete_line_def del: process_loop.simps) (cases r, simp)
  qed
qed

lemma ping_parsed:
  assumes "fresh r" and "is_white_space c"
  shows "process_loop db d r (''ping'' @ c # xs) =
    Some (finish (''PONG'' @ CRLF) (r\<lparr>rq_status := FINISHED, rq_command := PING\<rparr>), d)"
  using assms
  by (subst process_loop_word)
    (auto simp: fresh_def process_char_def white_space_step_def command_from_str_def Let_def
      prepare_response_def is_white_space_def finish_def)

end
