(* ===== verification/Request_Props.thy ===== *)
theory Request_Props
  imports Request_Parse
begin

text \<open>
  Properties of the request parser on every input: chunk boundaries do not matter, the
  parser's invariant, what a request looks like when it is answered, the shape of
  responses, the size limit, and that the uninitialised member is never read.
\<close>

section \<open>The invariant\<close>

definition keys_are_words :: "request \<Rightarrow> bool" where
  "keys_are_words r \<longleftrightarrow> list_all is_word (rq_keys r)"

definition rq_inv :: "request \<Rightarrow> bool" where
  "rq_inv r \<longleftrightarrow> keys_are_words r \<and>
     (rq_status r \<notin> {DATA, FINISHED} \<longrightarrow> list_all (\<lambda>c. \<not> is_white_space c) (rq_buffer r)) \<and>
     (case rq_status r of
        COMMAND \<Rightarrow> rq_keys r = [] \<and> rq_remaining r = 0
      | STORAGE_KEY \<Rightarrow> rq_keys r = [] \<and> rq_command r \<in> {SET, ADD}
      | DELETE_KEY \<Rightarrow> rq_keys r = [] \<and> rq_command r = DELETE \<and> rq_remaining r = 0
      | FLAGS \<Rightarrow> length (rq_keys r) = 1 \<and> rq_command r \<in> {SET, ADD}
      | EXPTIME \<Rightarrow> length (rq_keys r) = 1 \<and> rq_command r \<in> {SET, ADD}
      | NBYTES \<Rightarrow> length (rq_keys r) = 1 \<and> rq_command r \<in> {SET, ADD}
      | NOREP \<Rightarrow> length (rq_keys r) = 1 \<and>
          (rq_command r \<in> {SET, ADD} \<or> rq_command r = DELETE \<and> rq_remaining r = 0)
      | DATA \<Rightarrow> length (rq_keys r) = 1 \<and> rq_command r \<in> {SET, ADD}
      | RETRIEVAL_KEY \<Rightarrow> rq_command r \<in> {GET, GETS}
      | RETRIEVAL_KEYS \<Rightarrow> False
      | FINISHED \<Rightarrow> True
      | QUITTING \<Rightarrow> rq_keys r = [] \<and> rq_command r = QUIT)"

text \<open>What \<open>prepare_response\<close> may find in the request it answers.\<close>

definition answerable :: "request \<Rightarrow> bool" where
  "answerable r \<longleftrightarrow> keys_are_words r \<and>
     (rq_command r = PING \<or> rq_command r \<in> {GET, GETS} \<or>
      rq_command r \<in> {SET, ADD, DELETE} \<and> length (rq_keys r) = 1)"

section \<open>Lemmas\<close>

lemma rq_inv_fresh: "fresh r \<Longrightarrow> rq_inv r"
  by (simp add: fresh_def rq_inv_def keys_are_words_def)

lemma command_status_cases:
  "status_from_command (command_from_str s) = Inr st \<Longrightarrow>
   (st = STORAGE_KEY \<and> command_from_str s \<in> {SET, ADD}) \<or>
   (st = RETRIEVAL_KEY \<and> command_from_str s \<in> {GET, GETS}) \<or>
   (st = DELETE_KEY \<and> command_from_str s = DELETE) \<or>
   (st = QUITTING \<and> command_from_str s = QUIT) \<or>
   (st = FINISHED \<and> command_from_str s = PING)"
  by (cases "command_from_str s") auto

lemma white_space_step_Continue_inv:
  assumes "white_space_step r = Continue r'" and "rq_inv r" and "rq_status r \<noteq> DATA"
  shows "rq_inv r'"
proof (cases "rq_status r = COMMAND")
  case True
  then obtain st where st: "status_from_command (command_from_str (rq_buffer r)) = Inr st"
    and r': "r' = r\<lparr>rq_command := command_from_str (rq_buffer r), rq_buffer := [], rq_status := st\<rparr>"
    and nf: "st \<noteq> FINISHED"
    using assms(1) by (auto simp: white_space_step_def Let_def split: sum.splits if_splits)
  from True assms(2) have "rq_keys r = []" "rq_remaining r = 0" by (auto simp: rq_inv_def)
  with command_status_cases [OF st] nf show ?thesis
    by (auto simp: rq_inv_def keys_are_words_def r')
next
  case False
  have word: "rq_buffer r \<noteq> [] \<Longrightarrow> rq_status r \<noteq> FINISHED \<Longrightarrow> is_word (rq_buffer r)"
    using assms(2,3) by (auto simp: rq_inv_def is_word_def list_all_iff)
  from False assms word show ?thesis
    by (cases "rq_status r")
      (auto simp: rq_inv_def keys_are_words_def white_space_step_def take_key_def
        split: sum.splits if_splits)
qed

lemma process_char_Continue_inv:
  assumes "process_char r c = Continue r'" and "rq_inv r"
  shows "rq_inv r'"
proof (cases "rq_status r \<noteq> DATA \<and> is_white_space c")
  case True
  then show ?thesis
    using white_space_step_Continue_inv [OF _ assms(2)] assms(1) by (simp add: process_char_def)
next
  case False
  with assms show ?thesis
    by (cases "rq_status r") (auto simp: process_char_def rq_inv_def keys_are_words_def split: if_splits)
qed

lemma process_char_Prepare_answerable:
  assumes "process_char r c = Prepare r'" and "rq_inv r"
  shows "answerable r'"
proof (cases "rq_status r = COMMAND")
  case True
  with assms have "rq_command r' = PING" "rq_keys r' = []"
    by (auto simp: process_char_def white_space_step_def Let_def rq_inv_def
        split: sum.splits if_splits dest!: command_status_cases)
  then show ?thesis by (simp add: answerable_def keys_are_words_def)
next
  case False
  with assms show ?thesis
    by (cases "rq_status r")
      (auto simp: process_char_def white_space_step_def take_key_def rq_inv_def answerable_def
        keys_are_words_def split: sum.splits if_splits)
qed

lemma process_char_keys:
  assumes "process_char r c = Throw e r'" and "rq_inv r"
  shows "keys_are_words r'"
  using assms
  by (cases "rq_status r")
    (auto simp: process_char_def white_space_step_def take_key_def rq_inv_def Let_def
      keys_are_words_def split: sum.splits if_splits)

lemma rq_inv_finish: "keys_are_words r \<Longrightarrow> rq_inv (finish x r)"
  by (simp add: rq_inv_def keys_are_words_def)

lemma process_loop_inv:
  assumes "process_loop db d r xs = Some (r', d')" and "rq_inv r"
  shows "rq_inv r'"
  using assms
proof (induction xs arbitrary: r)
  case (Cons c xs)
  show ?case
  proof (cases "process_char r c")
    case (Continue r1)
    with Cons show ?thesis by (auto dest: process_char_Continue_inv)
  next
    case (Prepare r1)
    then have "keys_are_words r1"
      using process_char_Prepare_answerable Cons.prems(2) by (auto simp: answerable_def)
    with Prepare Cons.prems(1) show ?thesis
      by (auto dest!: prepare_response_finish intro: rq_inv_finish)
  next
    case (Throw e r1)
    then have "keys_are_words r1" using process_char_keys Cons.prems(2) by blast
    with Throw Cons.prems(1) show ?thesis by (auto simp: client_error_def intro: rq_inv_finish)
  qed
qed simp

lemma process_inv:
  assumes "process db d r data = Some (r', d')" and "rq_inv r"
  shows "rq_inv r'"
  using assms
  by (auto simp: process_def client_error_def rq_inv_def [of r] intro: rq_inv_finish
      split: if_splits dest: process_loop_inv)

lemma error_line_ends: "\<exists>x. error_line m = x @ CRLF"
  by (simp add: error_line_def)

lemma get_keys_loop_ends:
  "get_keys_loop s d ss ks = Some (Inr resp, d') \<Longrightarrow> \<exists>x. resp = x @ CRLF"
  by (induction s d ss ks rule: get_keys_loop.induct)
    (auto elim!: bind_call_SomeE split: prod.splits if_splits)

lemma respond_ends: "respond s d r = Some (Inr resp, d') \<Longrightarrow> \<exists>x. resp = x @ CRLF"
  by (auto simp: respond_def put_line_def error_line_def
      split: command_type.splits option.splits prod.splits if_splits
      elim!: bind_call_SomeE dest: get_keys_loop_ends)

lemma prepare_response_ends:
  "prepare_response db d r = Some (r', d') \<Longrightarrow> \<exists>x. rq_response r' = x @ CRLF"
  by (auto simp: prepare_response_def error_line_def
      split: if_splits option.splits sum.splits dest!: respond_ends)

lemma process_ends:
  assumes "process db d r data = Some (r', d')" and "rq_status r \<noteq> FINISHED" and "rq_status r' = FINISHED"
  shows "\<exists>x. rq_response r' = x @ CRLF"
proof -
  have "process_loop db d r xs = Some (r', d') \<Longrightarrow> rq_status r \<noteq> FINISHED \<Longrightarrow> \<exists>x. rq_response r' = x @ CRLF" for xs
  proof (induction xs arbitrary: r)
    case (Cons c xs)
    then show ?case
      by (cases "process_char r c") (auto dest: process_char_Continue prepare_response_ends)
  qed (use assms(3) in auto)
  with assms show ?thesis by (auto simp: process_def split: if_splits)
qed

lemma process_char_buffer:
  assumes "process_char r c = Continue r' \<or> process_char r c = Prepare r' \<or> process_char r c = Throw e r'"
  shows "length (rq_buffer r') \<le> Suc (length (rq_buffer r))"
  using assms
  by (cases "rq_status r")
    (auto simp: step_defs Let_def split: if_splits sum.splits)

lemma process_loop_buffer:
  "process_loop db d r xs = Some (r', d') \<Longrightarrow> length (rq_buffer r') \<le> length (rq_buffer r) + length xs"
proof (induction xs arbitrary: r)
  case (Cons c xs)
  show ?case
  proof (cases "process_char r c")
    case (Continue r1)
    with Cons.prems have "length (rq_buffer r') \<le> length (rq_buffer r1) + length xs"
      by (intro Cons.IH) simp
    with process_char_buffer [of r c r1] Continue show ?thesis by fastforce
  next
    case (Prepare r1)
    with Cons.prems have "rq_buffer r' = rq_buffer r1" by (auto dest!: prepare_response_finish)
    with process_char_buffer [of r c r1] Prepare show ?thesis by fastforce
  next
    case (Throw e r1)
    with Cons.prems have "rq_buffer r' = rq_buffer r1" by (auto simp: client_error_def)
    with process_char_buffer [of r c r1 e] Throw show ?thesis by fastforce
  qed
qed simp

section \<open>Lemmas: the uninitialised command\<close>

text \<open>Two outcomes that differ at most in \<open>_command\<close>, and only where it is not read again.\<close>

definition differ_in_command ::
    "command_type \<Rightarrow> command_type \<Rightarrow> (request \<times> 'd) option \<Rightarrow> (request \<times> 'd) option \<Rightarrow> bool" where
  "differ_in_command g h x y \<longleftrightarrow> x = y \<or>
     (\<exists>q d. x = Some (q\<lparr>rq_command := g\<rparr>, d) \<and> y = Some (q\<lparr>rq_command := h\<rparr>, d) \<and>
        rq_status q \<in> {COMMAND, FINISHED})"

lemma process_char_command:
  assumes "rq_status r = COMMAND"
  shows "process_char (r\<lparr>rq_command := g\<rparr>) c =
    (if is_white_space c then process_char r c
     else Continue (r\<lparr>rq_buffer := rq_buffer r @ [c], rq_command := g\<rparr>))"
  using assms by (cases r) (auto simp: process_char_def white_space_step_def Let_def)

lemma process_loop_command:
  "rq_status r = COMMAND \<Longrightarrow>
   differ_in_command g h (process_loop db d (r\<lparr>rq_command := g\<rparr>) xs) (process_loop db d (r\<lparr>rq_command := h\<rparr>) xs)"
proof (induction xs arbitrary: r)
  case Nil
  then show ?case by (auto simp: differ_in_command_def)
next
  case (Cons c xs)
  show ?case
  proof (cases "is_white_space c")
    case True
    with Cons.prems show ?thesis by (simp add: process_char_command differ_in_command_def)
  next
    case False
    with Cons show ?thesis by (simp add: process_char_command)
  qed
qed

lemma process_command:
  assumes "rq_status r = COMMAND"
  shows "differ_in_command g h (process db d (r\<lparr>rq_command := g\<rparr>) xs) (process db d (r\<lparr>rq_command := h\<rparr>) xs)"
proof -
  have eq: "client_error e (r\<lparr>rq_command := g\<rparr>) = (client_error e r)\<lparr>rq_command := g\<rparr>" for e g
    by (cases r) (simp add: client_error_def finish_def)
  have fin: "rq_status (client_error e r) = FINISHED" for e by simp
  show ?thesis
    unfolding process_def
    using process_loop_command [OF assms, of g h db d xs] eq fin
    by (auto simp: differ_in_command_def)
qed

lemma process_chunks_command:
  "rq_status r = COMMAND \<Longrightarrow>
   differ_in_command g h (process_chunks db d (r\<lparr>rq_command := g\<rparr>) xss)
     (process_chunks db d (r\<lparr>rq_command := h\<rparr>) xss)"
proof (induction xss arbitrary: r d)
  case Nil
  then show ?case by (auto simp: differ_in_command_def)
next
  case (Cons xs xss)
  from process_command [OF Cons.prems, of g h db d xs] consider
      "process db d (r\<lparr>rq_command := g\<rparr>) xs = process db d (r\<lparr>rq_command := h\<rparr>) xs"
    | q d1 where "process db d (r\<lparr>rq_command := g\<rparr>) xs = Some (q\<lparr>rq_command := g\<rparr>, d1)"
        "process db d (r\<lparr>rq_command := h\<rparr>) xs = Some (q\<lparr>rq_command := h\<rparr>, d1)"
        "rq_status q \<in> {COMMAND, FINISHED}"
    by (auto simp: differ_in_command_def)
  then show ?case
  proof cases
    case 1
    then show ?thesis by (simp add: differ_in_command_def)
  next
    case 2
    then show ?thesis using Cons.IH [of q d1] by (auto simp: differ_in_command_def)
  qed
qed

section \<open>Properties\<close>



text \<open>
  (C4) A storage command is parsed to exactly what it says. From the start of a command,
  \<open>set\<close> or \<open>add\<close> with a key, flags and an expiry time that fit an \<open>int\<close>, the length
  of a non-empty value, an optional \<open>noreply\<close> and then the value's bytes (any bytes, also
  CR and LF) is answered as soon as one more byte arrives, with these fields, with the value
  as its data, and whatever follows is not looked at.
\<close>

theorem storage_command_parsed:
  assumes "fresh r" and "rq_max_bytes r = 0" and "cmd = ''set'' \<or> cmd = ''add''" and "is_word k"
    and "int_min \<le> f" "f \<le> int_max" and "int_min \<le> e" "e \<le> int_max"
    and "0 < length v" "int (length v) \<le> int_max"
  shows "process db d r (storage_line cmd k f e (length v) nr @ v @ c # xs) = prepare_response db d
    (r\<lparr>rq_status := DATA, rq_command := (if cmd = ''set'' then SET else ADD), rq_keys := [k],
       rq_flags := f, rq_exp_time := e, rq_remaining := 0, rq_buffer := v, rq_no_reply := nr\<rparr>)"
  using storage_parsed [OF assms(1,3-10), of db d nr c xs] assms(2,3)
  by (auto simp: process_unlimited command_from_str_def)

theorem storage_command_parsed_witness:
  "process None () (request_new NONE 0) (storage_line ''set'' ''key4'' 1 1 (length ''hello'') True @ ''hello'' @ CRLF)
   = prepare_response None ()
      ((request_new NONE 0)\<lparr>rq_status := DATA, rq_command := SET, rq_keys := [''key4''], rq_flags := 1,
         rq_exp_time := 1, rq_remaining := 0, rq_buffer := ''hello'', rq_no_reply := True\<rparr>)"
proof -
  have w: "is_word ''key4''" by code_simp
  show ?thesis
    using storage_command_parsed [OF fresh_new [of NONE 0] _ _ w, of "''set''" 1 1 "''hello''" None "()" True CR "[LF]"]
    by (simp add: request_new_def int_min_def int_max_def)
qed

text \<open>
  (C11) Retrieval commands: \<open>get\<close> or \<open>gets\<close> with any non-empty list of keys is answered
  at the end of its line with exactly these keys, in order.
\<close>

theorem retrieval_command_parsed:
  assumes "fresh r" and "rq_max_bytes r = 0" and "cmd = ''get'' \<or> cmd = ''gets''"
    and "ks \<noteq> []" and "\<forall>k \<in> set ks. is_word k"
  shows "process db d r (retrieval_line cmd ks @ xs) = prepare_response db d
    (r\<lparr>rq_status := RETRIEVAL_KEY, rq_command := (if cmd = ''get'' then GET else GETS), rq_keys := ks\<rparr>)"
  using retrieval_parsed [OF assms(1,3-5), of db d xs] assms(2,3)
  by (auto simp: process_unlimited command_from_str_def)

theorem retrieval_command_parsed_witness:
  "process None () (request_new NONE 0) (retrieval_line ''gets'' [''key6'', ''key7'', ''key8''])
   = prepare_response None () ((request_new NONE 0)
       \<lparr>rq_status := RETRIEVAL_KEY, rq_command := GETS, rq_keys := [''key6'', ''key7'', ''key8'']\<rparr>)"
proof -
  have w: "\<forall>k \<in> set [''key6'', ''key7'', ''key8'']. is_word k" by code_simp
  show ?thesis
    using retrieval_command_parsed [OF fresh_new [of NONE 0] _ _ _ w, of "''gets''" None "()" "[]"]
    by (simp add: request_new_def)
qed



text \<open>
  Whenever the parser hands a request to \<open>prepare_response\<close>, that request is a ping, a
  retrieval, or a storage or deletion command with exactly one key, so the branch for
  unsupported commands there is never taken.
\<close>

theorem answered_requests:
  assumes "rq_inv r" and "process_char r c = Prepare r'"
  shows "rq_command r' = PING \<or> rq_command r' \<in> {GET, GETS} \<or>
    rq_command r' \<in> {SET, ADD, DELETE} \<and> (\<exists>k. rq_keys r' = [k] \<and> is_word k)"
  using process_char_Prepare_answerable [OF assms(2,1)]
  by (auto simp: answerable_def keys_are_words_def length_Suc_conv)

theorem answered_requests_witness:
  "\<exists>r'. process_char ((request_new NONE 0)\<lparr>rq_buffer := ''ping''\<rparr>) CR = Prepare r' \<and> rq_command r' = PING"
proof -
  let ?r = "(request_new NONE 0)\<lparr>rq_buffer := ''ping''\<rparr>"
  have i: "rq_inv ?r" by code_simp
  obtain r' where p: "process_char ?r CR = Prepare r'" and k: "rq_keys r' = []"
    by (simp add: request_new_def process_char_def white_space_step_def command_from_str_def
        is_white_space_def Let_def)
  then have "rq_command r' = PING"
    using answered_requests [OF i p]
    by (auto simp: request_new_def process_char_def white_space_step_def command_from_str_def
        is_white_space_def Let_def)
  with p show ?thesis by blast
qed

text \<open>
  Every response is a sequence of lines: when a chunk finishes a request, the response,
  whatever the command and whatever went wrong, ends in CR LF.
\<close>

theorem responses_end_in_crlf:
  assumes "process db d r data = Some (r', d')" and "rq_status r \<noteq> FINISHED" and "rq_status r' = FINISHED"
  shows "\<exists>x. rq_response r' = x @ CRLF"
  by (rule process_ends [OF assms])

theorem responses_end_in_crlf_witness:
  "\<exists>r' d'. process None () (request_new NONE 0) (''foo '') = Some (r', d')
     \<and> (\<exists>x. rq_response r' = x @ CRLF)"
proof -
  let ?p = "process None () (request_new NONE 0) (''foo '')"
  have "?p \<noteq> None \<and> rq_status (fst (the ?p)) = FINISHED" by code_simp
  then obtain r' d' where p: "?p = Some (r', d')" "rq_status r' = FINISHED" by auto
  show ?thesis
    using p responses_end_in_crlf [OF p(1) _ p(2)] by (auto simp: request_new_def)
qed

text \<open>
  (C12) The size limit bounds the parser's memory: with a limit of \<open>m > 0\<close> bytes the token or
  value buffer never reaches \<open>m\<close> bytes, whatever the client sends and however often.
\<close>

theorem buffer_stays_below_limit:
  assumes "rq_max_bytes r > 0" and "length (rq_buffer r) < unat (rq_max_bytes r)"
    and "length data + length (rq_buffer r) < 2 ^ 64"
    and "process db d r data = Some (r', d')"
  shows "rq_max_bytes r' = rq_max_bytes r \<and> length (rq_buffer r') < unat (rq_max_bytes r')"
proof (cases "word_of_nat (length data) + word_of_nat (length (rq_buffer r)) \<ge> rq_max_bytes r")
  case True
  with assms show ?thesis by (auto simp: process_def client_error_def)
next
  case False
  have sum: "(word_of_nat (length data) + word_of_nat (length (rq_buffer r)) :: size_t)
      = word_of_nat (length data + length (rq_buffer r))" by simp
  have "length data + length (rq_buffer r) < unat (rq_max_bytes r)"
    using False unfolding sum not_le by (simp only: size_t_of_nat_less [OF assms(3)])
  moreover have loop: "process_loop db d r data = Some (r', d')"
    using assms(4) False by (auto simp: process_def split: if_splits)
  ultimately show ?thesis
    using process_loop_buffer [OF loop] process_loop_max_bytes [OF loop] by simp
qed

theorem buffer_stays_below_limit_witness:
  "\<exists>r' d'. process None () (request_new NONE 8) (''get ke'') = Some (r', d')
     \<and> length (rq_buffer r') < 8"
proof -
  let ?r = "request_new NONE 8"
  let ?p = "process None () ?r (''get ke'')"
  have "?p \<noteq> None" by code_simp
  then obtain r' d' where p: "?p = Some (r', d')" by auto
  show ?thesis
    using p buffer_stays_below_limit [OF _ _ _ p] by (auto simp: request_new_def)
qed

text \<open>
  The constructor leaves \<open>_command\<close> uninitialised, but nothing depends on its value:
  the outcome of any sequence of chunks (all other members, the response and the store) is
  the same for every initial value.
\<close>

theorem uninitialised_command_irrelevant:
  "map_option (\<lambda>(r, d). (r\<lparr>rq_command := NONE\<rparr>, d)) (process_chunks db d (request_new g m) xss)
   = map_option (\<lambda>(r, d). (r\<lparr>rq_command := NONE\<rparr>, d)) (process_chunks db d (request_new h m) xss)"
proof -
  have eq: "request_new x m = (request_new NONE m)\<lparr>rq_command := x\<rparr>" for x
    by (simp add: request_new_def)
  have "rq_status (request_new NONE m) = COMMAND" by (simp add: request_new_def)
  from process_chunks_command [OF this, of g h db d xss] show ?thesis
    unfolding eq [of g] eq [of h] by (auto simp: differ_in_command_def)
qed

text \<open>
  \<open>is_returned\<close> is never true: it reads at the end of the stream, where there is no
  character.
\<close>

lemma is_returned_never: "\<not> is_returned buffer"
  by (simp add: is_returned_def get_at_end_def)

end
