(* ===== verification/Memcached.thy ===== *)
theory Memcached
  imports Request_Props
begin

text \<open>
  The request handler against the store contract: the memcached semantics of the commands
  on a key/value map as the abstract specification, and the proof, inside the contract's
  locale, that \<open>prepare_response\<close> implements it on every store that meets the contract.
\<close>

section \<open>The abstract server\<close>

definition not_found_line :: string where "not_found_line = ''NOT_FOUND'' @ CRLF"
definition deleted_line :: string where "deleted_line = ''DELETED'' @ CRLF"
definition stored_line :: string where "stored_line = ''STORED'' @ CRLF"
definition not_stored_line :: string where "not_stored_line = ''NOT_STORED'' @ CRLF"

definition values_text :: "(string \<rightharpoonup> string) \<Rightarrow> string list \<Rightarrow> string" where
  "values_text m ks =
     concat (map (\<lambda>k. case m k of None \<Rightarrow> [] | Some v \<Rightarrow> value_block k v) ks) @ ''END'' @ CRLF"

fun memcached ::
    "command_type \<Rightarrow> string list \<Rightarrow> string \<Rightarrow> (string \<rightharpoonup> string) \<Rightarrow> string \<times> (string \<rightharpoonup> string)" where
  "memcached SET ks v m = (stored_line, m(hd ks \<mapsto> v))"
| "memcached ADD ks v m = (case m (hd ks) of
       None \<Rightarrow> (stored_line, m(hd ks \<mapsto> v)) | Some _ \<Rightarrow> (not_stored_line, m))"
| "memcached DELETE ks v m = (case m (hd ks) of
       None \<Rightarrow> (not_found_line, m) | Some _ \<Rightarrow> (deleted_line, m(hd ks := None)))"
| "memcached GET ks v m = (values_text m ks, m)"
| "memcached GETS ks v m = (values_text m ks, m)"
| "memcached c ks v m = (error_line ''unsupported command'', m)"

definition store_commands :: "command_type set" where
  "store_commands = {SET, ADD, DELETE, GET, GETS}"

lemmas line_defs = not_found_line_def deleted_line_def stored_line_def not_stored_line_def

section \<open>On any store that meets the contract\<close>

context store_contract
begin

lemma getE:
  assumes "inv d"
  obtains st v d' where "store_get s d k = Some (Inr (st, v), d')" "inv d'"
    "contents d' = contents d" "held d' = held d"
    "st_ok st \<Longrightarrow> contents d k = Some v" "st_is_not_found st \<Longrightarrow> \<not> st_ok st \<and> contents d k = None"
  using get_returns [OF assms, of k] get_frame [OF assms] get_ok [OF assms] get_not_found [OF assms]
  by metis

lemma delE:
  assumes "inv d"
  obtains st d' where "store_del s d k = Some (Inr st, d')" "inv d'" "held d' = held d"
    "st_ok st \<Longrightarrow> contents d' = (contents d)(k := None)"
  using del_returns [OF assms, of k] del_frame [OF assms] del_ok [OF assms] by metis

lemma putE:
  assumes "inv d"
  obtains st d' where "store_put s d k w = Some (Inr st, d')" "inv d'" "held d' = held d"
    "st_ok st \<Longrightarrow> contents d' = (contents d)(k \<mapsto> w)"
  using put_returns [OF assms, of k w] put_frame [OF assms] put_ok [OF assms] by metis

lemma lockE:
  assumes "inv d" "\<not> held d"
  obtains d' where "store_lock s d = Some d'" "inv d'" "held d'" "contents d' = contents d"
  using lock_free [OF assms] by metis

lemma get_keys_loop_returns:
  "inv d \<Longrightarrow> \<exists>resp d'. get_keys_loop s d ss ks = Some (Inr resp, d') \<and> inv d' \<and>
     contents d' = contents d \<and> held d' = held d"
proof (induction ks arbitrary: d ss)
  case (Cons k ks)
  obtain st v d1 where g: "store_get s d k = Some (Inr (st, v), d1)" "inv d1"
    "contents d1 = contents d" "held d1 = held d"
    using getE [OF Cons.prems] by metis
  with Cons.IH [OF g(2), of "if st_ok st then ss @ value_block k v else ss"] show ?case by simp
qed simp

text \<open>
  Every command returns with a response, the invariant and a free mutex: \<open>add\<close> releases the
  lock it takes on every branch.
\<close>

lemma respond_returns:
  assumes d: "inv d" "\<not> held d" and c: "rq_command r \<in> store_commands"
  shows "\<exists>resp d'. respond s d r = Some (Inr resp, d') \<and> inv d' \<and> \<not> held d'"
proof -
  let ?k = "hd (rq_keys r)"
  consider "rq_command r = SET" | "rq_command r = ADD" | "rq_command r = DELETE"
    | "rq_command r = GET \<or> rq_command r = GETS"
    using c by (auto simp: store_commands_def)
  then show ?thesis
  proof cases
    case 1
    obtain st d1 where "store_put s d ?k (rq_buffer r) = Some (Inr st, d1)" "inv d1" "held d1 = held d"
      using putE [OF d(1)] by metis
    with 1 d(2) show ?thesis by (simp add: respond_def)
  next
    case 2
    obtain d1 where l: "store_lock s d = Some d1" "inv d1" using lockE [OF d] by metis
    obtain st v d2 where g: "store_get s d1 ?k = Some (Inr (st, v), d2)" "inv d2"
      using getE [OF l(2)] by metis
    obtain st' d3 where p: "store_put s d2 ?k (rq_buffer r) = Some (Inr st', d3)" "inv d3"
      using putE [OF g(2)] by metis
    show ?thesis using 2 l g p unlock [OF g(2)] unlock [OF p(2)] by (simp add: respond_def)
  next
    case 3
    obtain st v d1 where g: "store_get s d ?k = Some (Inr (st, v), d1)" "inv d1" "held d1 = held d"
      using getE [OF d(1)] by metis
    obtain st' d2 where "store_del s d1 ?k = Some (Inr st', d2)" "inv d2" "held d2 = held d1"
      using delE [OF g(2)] by metis
    with g d show ?thesis by (simp add: respond_def 3)
  next
    case 4
    then show ?thesis
      using get_keys_loop_returns [OF d(1), of "[]" "rq_keys r"] d(2) by (auto simp: respond_def)
  qed
qed

lemma prepare_response_returns:
  assumes "inv d" "\<not> held d" "answerable r"
  shows "\<exists>r' d'. prepare_response (Some s) d r = Some (r', d') \<and> inv d' \<and> \<not> held d'"
  using respond_returns [OF assms(1,2), of r] assms
  by (auto simp: prepare_response_def answerable_def store_commands_def)

lemma process_loop_returns:
  "inv d \<Longrightarrow> \<not> held d \<Longrightarrow> rq_inv r \<Longrightarrow>
   \<exists>r' d'. process_loop (Some s) d r xs = Some (r', d') \<and> inv d' \<and> \<not> held d'"
proof (induction xs arbitrary: r)
  case (Cons c xs)
  show ?case
  proof (cases "process_char r c")
    case (Continue r1)
    then have "rq_inv r1" using process_char_Continue_inv Cons.prems(3) by blast
    with Cons Continue show ?thesis by simp
  next
    case (Prepare r1)
    then have "answerable r1" using process_char_Prepare_answerable Cons.prems(3) by blast
    with prepare_response_returns Cons.prems Prepare show ?thesis by simp
  next
    case (Throw e r1)
    with Cons.prems show ?thesis by simp
  qed
qed simp

lemma process_returns:
  assumes "inv d" "\<not> held d" "rq_inv r"
  shows "\<exists>r' d'. process (Some s) d r xs = Some (r', d') \<and> inv d' \<and> \<not> held d'"
  using process_loop_returns [OF assms, of xs] assms by (auto simp: process_def)

text \<open>What a client may conclude from a positive answer, even when the store can fail.\<close>

lemma set_stored:
  assumes "inv d" "rq_command r = SET" "respond s d r = Some (Inr resp, d')" "resp = stored_line"
  shows "contents d' = (contents d)(hd (rq_keys r) \<mapsto> rq_buffer r)"
proof -
  obtain st d1 where "store_put s d (hd (rq_keys r)) (rq_buffer r) = Some (Inr st, d1)"
      "st_ok st \<Longrightarrow> contents d1 = (contents d)(hd (rq_keys r) \<mapsto> rq_buffer r)"
    using putE [OF assms(1)] by metis
  with assms show ?thesis
    by (auto simp: respond_def put_line_def error_line_def line_defs split: if_splits)
qed

lemma add_stored:
  assumes "inv d" "\<not> held d" "rq_command r = ADD" "respond s d r = Some (Inr resp, d')" "resp = stored_line"
  shows "contents d (hd (rq_keys r)) = None \<and> contents d' = (contents d)(hd (rq_keys r) \<mapsto> rq_buffer r)"
proof -
  let ?k = "hd (rq_keys r)"
  obtain d1 where l: "store_lock s d = Some d1" "inv d1" "contents d1 = contents d"
    using lockE [OF assms(1,2)] by metis
  obtain st v d2 where g: "store_get s d1 ?k = Some (Inr (st, v), d2)" "inv d2" "contents d2 = contents d1"
      "st_is_not_found st \<Longrightarrow> \<not> st_ok st \<and> contents d1 ?k = None"
    using getE [OF l(2)] by metis
  obtain st' d3 where p: "store_put s d2 ?k (rq_buffer r) = Some (Inr st', d3)" "inv d3"
      "st_ok st' \<Longrightarrow> contents d3 = (contents d2)(?k \<mapsto> rq_buffer r)"
    using putE [OF g(2)] by metis
  show ?thesis
    using assms l g p unlock [OF p(2)]
    by (auto simp: respond_def put_line_def error_line_def line_defs split: if_splits)
qed

lemma delete_deleted:
  assumes "inv d" "rq_command r = DELETE" "respond s d r = Some (Inr resp, d')" "resp = deleted_line"
  shows "hd (rq_keys r) \<in> dom (contents d) \<and> contents d' = (contents d)(hd (rq_keys r) := None)"
proof -
  let ?k = "hd (rq_keys r)"
  obtain st v d1 where g: "store_get s d ?k = Some (Inr (st, v), d1)" "inv d1" "contents d1 = contents d"
      "st_ok st \<Longrightarrow> contents d ?k = Some v"
    using getE [OF assms(1)] by metis
  obtain st' d2 where "store_del s d1 ?k = Some (Inr st', d2)"
      "st_ok st' \<Longrightarrow> contents d2 = (contents d1)(?k := None)"
    using delE [OF g(2)] by metis
  with g assms show ?thesis
    by (auto simp: respond_def error_line_def line_defs split: if_splits)
qed

end

section \<open>On a store that does not fail\<close>

text \<open>A store whose reads tell found from not found and whose writes succeed.\<close>

locale reliable_store = store_contract +
  assumes get_reliable: "inv d \<Longrightarrow> store_get s d k = Some (Inr (st, v), d') \<Longrightarrow> st_ok st \<or> st_is_not_found st"
    and del_reliable: "inv d \<Longrightarrow> store_del s d k = Some (Inr st, d') \<Longrightarrow> st_ok st"
    and put_reliable: "inv d \<Longrightarrow> store_put s d k w = Some (Inr st, d') \<Longrightarrow> st_ok st"
begin

lemma get_reliableE:
  assumes "inv d"
  obtains st v d' where "store_get s d k = Some (Inr (st, v), d')" "inv d'"
    "contents d' = contents d" "held d' = held d"
    "st_ok st \<longleftrightarrow> contents d k \<noteq> None" "st_is_not_found st \<longleftrightarrow> contents d k = None"
    "st_ok st \<Longrightarrow> contents d k = Some v"
  using getE [OF assms, of k] get_reliable [OF assms] by (metis option.distinct(1))

lemma get_keys_loop_spec:
  "inv d \<Longrightarrow> \<exists>d'. get_keys_loop s d ss ks = Some (Inr (ss @ values_text (contents d) ks), d') \<and>
     inv d' \<and> contents d' = contents d \<and> held d' = held d"
proof (induction ks arbitrary: d ss)
  case Nil
  then show ?case by (simp add: values_text_def)
next
  case (Cons k ks)
  obtain st v d1 where g: "store_get s d k = Some (Inr (st, v), d1)" "inv d1"
    "contents d1 = contents d" "held d1 = held d" "st_ok st \<longleftrightarrow> contents d k \<noteq> None"
    "st_ok st \<Longrightarrow> contents d k = Some v"
    using get_reliableE [OF Cons.prems] by metis
  let ?ss = "if st_ok st then ss @ value_block k v else ss"
  have "?ss @ values_text (contents d) ks = ss @ values_text (contents d) (k # ks)"
    using g(5,6) by (auto simp: values_text_def split: option.splits)
  with Cons.IH [OF g(2), of ?ss] g show ?case by simp
qed

text \<open>The refinement: response and new contents are those of the abstract server.\<close>

lemma respond_refines:
  assumes d: "inv d" "\<not> held d" and c: "rq_command r \<in> store_commands"
  shows "\<exists>d'. respond s d r = Some (Inr (fst (memcached (rq_command r) (rq_keys r) (rq_buffer r) (contents d))), d')
    \<and> contents d' = snd (memcached (rq_command r) (rq_keys r) (rq_buffer r) (contents d))
    \<and> inv d' \<and> \<not> held d'"
proof -
  let ?k = "hd (rq_keys r)"
  consider "rq_command r = SET" | "rq_command r = ADD" | "rq_command r = DELETE"
    | "rq_command r = GET \<or> rq_command r = GETS"
    using c by (auto simp: store_commands_def)
  then show ?thesis
  proof cases
    case 1
    obtain st d1 where "store_put s d ?k (rq_buffer r) = Some (Inr st, d1)" "inv d1" "held d1 = held d"
        "contents d1 = (contents d)(?k \<mapsto> rq_buffer r)" "st_ok st"
      using putE [OF d(1)] put_reliable [OF d(1)] by metis
    with 1 d(2) show ?thesis by (simp add: respond_def put_line_def line_defs)
  next
    case 2
    obtain d1 where l: "store_lock s d = Some d1" "inv d1" "contents d1 = contents d"
      using lockE [OF d] by metis
    obtain st v d2 where g: "store_get s d1 ?k = Some (Inr (st, v), d2)" "inv d2"
        "contents d2 = contents d1" "st_ok st \<longleftrightarrow> contents d1 ?k \<noteq> None"
        "st_is_not_found st \<longleftrightarrow> contents d1 ?k = None"
      using get_reliableE [OF l(2)] by metis
    obtain st' d3 where p: "store_put s d2 ?k (rq_buffer r) = Some (Inr st', d3)" "inv d3"
        "contents d3 = (contents d2)(?k \<mapsto> rq_buffer r)" "st_ok st'"
      using putE [OF g(2)] put_reliable [OF g(2)] by metis
    show ?thesis
      using 2 l g p unlock [OF g(2)] unlock [OF p(2)]
      by (auto simp: respond_def put_line_def line_defs split: option.splits)
  next
    case 3
    obtain st v d1 where g: "store_get s d ?k = Some (Inr (st, v), d1)" "inv d1" "held d1 = held d"
        "contents d1 = contents d" "st_ok st \<longleftrightarrow> contents d ?k \<noteq> None"
      using get_reliableE [OF d(1)] by metis
    obtain st' d2 where "store_del s d1 ?k = Some (Inr st', d2)" "inv d2" "held d2 = held d1"
        "contents d2 = (contents d1)(?k := None)" "st_ok st'"
      using delE [OF g(2)] del_reliable [OF g(2)] by metis
    with g d 3 show ?thesis by (auto simp: respond_def line_defs split: option.splits)
  next
    case 4
    then show ?thesis
      using get_keys_loop_spec [OF d(1), of "[]" "rq_keys r"] d(2) by (auto simp: respond_def)
  qed
qed

lemma prepare_response_refines:
  assumes "inv d" "\<not> held d" "rq_command r \<in> store_commands" "rq_keys r \<noteq> []"
  shows "\<exists>d'. prepare_response (Some s) d r =
      Some (finish (fst (memcached (rq_command r) (rq_keys r) (rq_buffer r) (contents d))) r, d')
    \<and> contents d' = snd (memcached (rq_command r) (rq_keys r) (rq_buffer r) (contents d))
    \<and> inv d' \<and> \<not> held d'"
  using respond_refines [OF assms(1-3)] assms(3,4)
  by (auto simp: prepare_response_def store_commands_def)

end

end
