(* ===== verification/Rocks.thy ===== *)
theory Rocks
  imports Memcached
begin

text \<open>
  The store on RocksDB (\<open>db/rocks.hpp\<close>, \<open>db/rocks.cpp\<close>): opening, the three data
  operations with their metrics, the HTTP endpoints and the folder size metric. RocksDB
  itself is a parameter: records of functions over a database state \<open>'db\<close> and a backup
  directory state \<open>'bk\<close>. What the code relies on is \<open>rocksdb_laws\<close>.
\<close>

section \<open>RocksDB as a parameter\<close>

datatype rcode = ROk | RNotFound | ROther

text \<open>\<open>rocksdb::Status\<close>: its code and the text of \<open>ToString()\<close>.\<close>

record rstatus =
  rs_code :: rcode
  rs_text :: string

record 'db rocksdb =
  rdb_Get :: "'db \<Rightarrow> string \<Rightarrow> rstatus \<times> string"
  rdb_Put :: "'db \<Rightarrow> string \<Rightarrow> string \<Rightarrow> rstatus \<times> 'db"
  rdb_Delete :: "'db \<Rightarrow> string \<Rightarrow> rstatus \<times> 'db"
  rdb_estimate_num_keys :: "'db \<Rightarrow> uintmax_t"

text \<open>The documented behaviour of the data operations that the store relies on.\<close>

definition rocksdb_laws :: "'db rocksdb \<Rightarrow> ('db \<Rightarrow> string \<rightharpoonup> string) \<Rightarrow> bool" where
  "rocksdb_laws api c \<longleftrightarrow>
     (\<forall>db k st v. rdb_Get api db k = (st, v) \<longrightarrow>
        (rs_code st = ROk \<longrightarrow> c db k = Some v) \<and> (rs_code st = RNotFound \<longrightarrow> c db k = None)) \<and>
     (\<forall>db k v st db'. rdb_Put api db k v = (st, db') \<longrightarrow> rs_code st = ROk \<longrightarrow> c db' = (c db)(k \<mapsto> v)) \<and>
     (\<forall>db k st db'. rdb_Delete api db k = (st, db') \<longrightarrow> rs_code st = ROk \<longrightarrow> c db' = (c db)(k := None))"

text \<open>No I/O error, corruption or other failure.\<close>

definition rocksdb_reliable :: "'db rocksdb \<Rightarrow> bool" where
  "rocksdb_reliable api \<longleftrightarrow>
     (\<forall>db k. rs_code (fst (rdb_Get api db k)) \<noteq> ROther) \<and>
     (\<forall>db k v. rs_code (fst (rdb_Put api db k v)) = ROk) \<and>
     (\<forall>db k. rs_code (fst (rdb_Delete api db k)) = ROk)"

text \<open>The options the code sets before it opens the database.\<close>

record db_options =
  do_universal :: bool
  do_memtable :: "64 word"
  do_block_cap :: "64 word"
  do_shard_bits :: int
  do_create_if_missing :: bool
  do_max_open_files :: int
  do_statistics :: bool

record backup_info =
  bi_backup_id :: nat
  bi_timestamp :: int
  bi_size :: nat

record ('db, 'bk) rocksdb_env =
  env_open :: "db_options \<Rightarrow> string \<Rightarrow> int \<Rightarrow> rstatus \<times> 'db"
  env_backup_open :: "'bk \<Rightarrow> string \<Rightarrow> rstatus"
  env_backup_create :: "'bk \<Rightarrow> string \<Rightarrow> 'db \<Rightarrow> rstatus \<times> 'bk"
  env_backup_purge :: "'bk \<Rightarrow> string \<Rightarrow> nat \<Rightarrow> rstatus \<times> 'bk"
  env_backup_info :: "'bk \<Rightarrow> string \<Rightarrow> backup_info list"
  env_backup_open_ro :: "'bk \<Rightarrow> string \<Rightarrow> rstatus"
  env_backup_restore :: "'bk \<Rightarrow> string \<Rightarrow> string \<Rightarrow> rstatus \<times> 'bk"
  env_tickers :: "(string \<times> uintmax_t) list"
  env_stats_text :: string

section \<open>State\<close>

text \<open>
  The pointer \<open>_db\<close>: the constructor does not initialise it. \<open>rk_rocks_stats\<close> says
  whether the statistics object exists, \<open>rk_db_mutex\<close> whether the mutex is held,
  \<open>rk_log\<close> is what was handed to the logger.
\<close>

datatype 'db db_ptr = Uninit | Nullptr | Ptr 'db

record 'db rocks =
  rk_path :: string
  rk_ttl :: int
  rk_memtable :: int
  rk_shard_bits :: int
  rk_block_cap :: int
  rk_max_files :: int
  rk_debug :: bool
  rk_write_mode :: bool
  rk_restore :: bool
  rk_db :: "'db db_ptr"
  rk_local_stats :: aggregator
  rk_rocks_stats :: bool
  rk_log :: "log_event list"
  rk_db_mutex :: bool

definition rocks_new :: "'db rocks" where
  "rocks_new =
     \<lparr>rk_path = ''/tmp/quitsies'', rk_ttl = 0, rk_memtable = 128 * 2 ^ 20, rk_shard_bits = 4,
      rk_block_cap = 8 * 2 ^ 20, rk_max_files = -1, rk_debug = False, rk_write_mode = False,
      rk_restore = False, rk_db = Uninit, rk_local_stats = Null_aggregator,
      rk_rocks_stats = False, rk_log = [], rk_db_mutex = False\<rparr>"

text \<open>The destructor: deleting an indeterminate pointer has no defined behaviour (\<open>None\<close>).\<close>

definition rocks_destroy :: "'db rocks \<Rightarrow> 'db rocks option" where
  "rocks_destroy r =
     (let r1 = r\<lparr>rk_rocks_stats := False\<rparr> in
      case rk_db r1 of
        Uninit \<Rightarrow> None
      | Nullptr \<Rightarrow> Some r1
      | Ptr _ \<Rightarrow> Some (r1\<lparr>rk_db := Nullptr\<rparr>))"

definition rk_note :: "'db rocks \<Rightarrow> level_enum \<Rightarrow> string \<Rightarrow> string list \<Rightarrow> 'db rocks" where
  "rk_note r l fmt args = r\<lparr>rk_log := rk_log r @ [(l, fmt, args)]\<rparr>"

definition rk_count :: "'db rocks \<Rightarrow> string \<Rightarrow> 'db rocks" where
  "rk_count r name = r\<lparr>rk_local_stats := agg_counter (rk_local_stats r) name 1\<rparr>"

section \<open>Data operations\<close>

definition rocks_del :: "'db rocksdb \<Rightarrow> 'db rocks \<Rightarrow> string \<Rightarrow> ('db rocks, status) call" where
  "rocks_del api r key = (case rk_db r of
       Ptr db \<Rightarrow>
         (case rdb_Delete api db key of (s, db') \<Rightarrow>
            let r1 = r\<lparr>rk_db := Ptr db'\<rparr>;
                isNotFound = (rs_code s = RNotFound);
                r2 = (if isNotFound then rk_count r1 ''rocksdb.delete.not_found''
                      else if rs_code s = ROk then rk_count r1 ''rocksdb.delete.success''
                      else rk_count r1 ''rocksdb.delete.error'')
            in Some (Inr (status_of (rs_code s = ROk) isNotFound []), r2))
     | _ \<Rightarrow> None)"

definition rocks_get :: "'db rocksdb \<Rightarrow> 'db rocks \<Rightarrow> string \<Rightarrow> ('db rocks, status \<times> string) call" where
  "rocks_get api r key = (case rk_db r of
       Ptr db \<Rightarrow>
         (case rdb_Get api db key of (s, v) \<Rightarrow>
            if rs_code s = ROk
            then Some (Inr (status_of True False [], v), rk_count r ''rocksdb.get.success'')
            else let isNotFound = (rs_code s = RNotFound);
                     r1 = (if isNotFound then rk_count r ''rocksdb.get.not_found''
                           else rk_count r ''rocksdb.get.error'')
                 in Some (Inr (status_of (rs_code s = ROk) isNotFound [], v), r1))
     | _ \<Rightarrow> None)"

definition rocks_put :: "'db rocksdb \<Rightarrow> 'db rocks \<Rightarrow> string \<Rightarrow> string \<Rightarrow> ('db rocks, status) call" where
  "rocks_put api r key v = (case rk_db r of
       Ptr db \<Rightarrow>
         (case rdb_Put api db key v of (s, db') \<Rightarrow>
            let r1 = r\<lparr>rk_db := Ptr db'\<rparr> in
            if rs_code s = ROk
            then Some (Inr (status_of True False []), rk_count r1 ''rocksdb.put.success'')
            else Some (Inr (status_of False False (rs_text s)), rk_count r1 ''rocksdb.put.error''))
     | _ \<Rightarrow> None)"

definition rocks_lock :: "'db rocks \<Rightarrow> 'db rocks option" where
  "rocks_lock r = (if rk_db_mutex r then None else Some (r\<lparr>rk_db_mutex := True\<rparr>))"

definition rocks_unlock :: "'db rocks \<Rightarrow> 'db rocks" where
  "rocks_unlock r = r\<lparr>rk_db_mutex := False\<rparr>"

definition rocks_store :: "'db rocksdb \<Rightarrow> 'db rocks store" where
  "rocks_store api =
     \<lparr>store_get = rocks_get api, store_del = rocks_del api, store_put = rocks_put api,
      store_lock = rocks_lock, store_unlock = rocks_unlock\<rparr>"

section \<open>Opening\<close>

text \<open>Assigning a \<open>long long\<close> to a 32-bit parameter keeps its low 32 bits.\<close>

definition to_int32 :: "int \<Rightarrow> int" where
  "to_int32 x = signed_take_bit 31 x"

definition open_options :: "'db rocks \<Rightarrow> db_options" where
  "open_options r =
     \<lparr>do_universal = rk_write_mode r, do_memtable = word_of_int (rk_memtable r),
      do_block_cap = word_of_int (rk_block_cap r), do_shard_bits = to_int32 (rk_shard_bits r),
      do_create_if_missing = True, do_max_open_files = to_int32 (rk_max_files r),
      do_statistics = rk_debug r\<rparr>"

text \<open>
  The restore step of \<open>open\<close>. \<open>peek\<close> is the code of the next character of the standard
  input, -1 at its end.
\<close>

definition rocks_restore ::
    "('db, 'bk) rocksdb_env \<Rightarrow> int \<Rightarrow> 'bk \<Rightarrow> 'db rocks \<Rightarrow> (exn + unit) \<times> 'db rocks \<times> 'bk" where
  "rocks_restore env peek bk r =
     (if peek \<noteq> 121 \<and> peek \<noteq> 89 then (Inl (Runtime_error ''Aborting backup restore''), r, bk)
      else
        let st0 = env_backup_open_ro env bk (rk_path r @ ''_backup'');
            (st, bk') = (if rs_code st0 = ROk then env_backup_restore env bk (rk_path r @ ''_backup'') (rk_path r)
                         else (st0, bk))
        in if rs_code st \<noteq> ROk
           then (Inl (Runtime_error ''failed to restore backup''),
                 rk_note r err ''failed to restore backup: {}'' [rs_text st], bk')
           else (Inr (), rk_note r info ''successfully restored backup.'' [], bk'))"

definition rocks_open_db ::
    "('db, 'bk) rocksdb_env \<Rightarrow> 'db rocks \<Rightarrow> (exn + unit) \<times> 'db rocks" where
  "rocks_open_db env r =
     (let r1 = (if rk_ttl r = 0 then r\<lparr>rk_ttl := -1\<rparr> else r);
          r2 = (if rk_debug r1
                then (rk_note r1 info ''DEBUG MODE: Collecting granular rocksdb metrics. This will have a small impact on performance.'' [])
                       \<lparr>rk_rocks_stats := True\<rparr>
                else r1);
          (st, db) = env_open env (open_options r2) (rk_path r2) (to_int32 (rk_ttl r2))
      in if rs_code st \<noteq> ROk
         then (Inl (Runtime_error (''Database failed to open at '' @ rk_path r2 @ '': '' @ rs_text st)),
               r2\<lparr>rk_db := Nullptr\<rparr>)
         else (Inr (), r2\<lparr>rk_db := Ptr db, rk_local_stats := agg_on_epoch (rk_local_stats r2) Rocks_epoch\<rparr>))"

definition rocks_open ::
    "('db, 'bk) rocksdb_env \<Rightarrow> int \<Rightarrow> 'bk \<Rightarrow> 'db rocks \<Rightarrow> aggregator \<Rightarrow> (exn + unit) \<times> 'db rocks \<times> 'bk" where
  "rocks_open env peek bk r stats =
     (let r1 = rk_note (r\<lparr>rk_local_stats := stats\<rparr>) info ''setting up DB at {}'' [rk_path r];
          (res, r2, bk') = (if rk_restore r1 then rocks_restore env peek bk r1 else (Inr (), r1, bk))
      in case res of
           Inl e \<Rightarrow> (Inl e, r2, bk')
         | Inr _ \<Rightarrow> (case rocks_open_db env r2 of (res', r3) \<Rightarrow> (res', r3, bk')))"

section \<open>Folder size and the per-epoch metrics\<close>

text \<open>
  A directory tree as \<open>boost::filesystem\<close> shows it: an entry is a file with its size, an
  entry whose status or size cannot be read, or a directory; a directory may be missing or
  unreadable. The strings are the texts of the exceptions.
\<close>

datatype fs_entry = Entry_file uintmax_t | Entry_error string | Entry_dir fs_dir
and fs_dir = Dir_missing | Dir_error string | Dir "fs_entry list"

text \<open>The result: an exception that leaves the function, the sum so far, the debug messages.\<close>

fun get_folder_size :: "fs_dir \<Rightarrow> uintmax_t \<Rightarrow> exn option \<times> uintmax_t \<times> log_event list"
and entries_size :: "fs_entry list \<Rightarrow> uintmax_t \<Rightarrow> uintmax_t \<times> log_event list" where
  "get_folder_size Dir_missing sz = (None, sz, [])"
| "get_folder_size (Dir_error m) sz = (Some (Runtime_error m), sz, [])"
| "get_folder_size (Dir es) sz = (case entries_size es sz of (sz', l) \<Rightarrow> (None, sz', l))"
| "entries_size [] sz = (sz, [])"
| "entries_size (Entry_file n # es) sz = entries_size es (sz + n)"
| "entries_size (Entry_error m # es) sz =
     (case entries_size es sz of (sz', l) \<Rightarrow>
        (sz', (debug, ''Failed to evaluate folder size for metrics: {}'', [m]) # l))"
| "entries_size (Entry_dir x # es) sz =
     (case get_folder_size x sz of (ex, sz1, l1) \<Rightarrow>
        case entries_size es sz1 of (sz2, l2) \<Rightarrow>
          (sz2, l1 @ (case ex of None \<Rightarrow> []
                      | Some e \<Rightarrow> [(debug, ''Failed to evaluate folder size for metrics: {}'', [what e])]) @ l2))"

text \<open>The closure that \<open>open\<close> registers with \<open>on_epoch\<close>, on the aggregator it reports to.\<close>

definition rocks_epoch ::
    "('db, 'bk) rocksdb_env \<Rightarrow> 'db rocksdb \<Rightarrow> 'db \<Rightarrow> bool \<Rightarrow> fs_dir \<Rightarrow> statsd_aggregator \<Rightarrow> exn + statsd_aggregator" where
  "rocks_epoch env api db has_stats dir a =
     (let a1 = sa_gauge a ''rocksdb.estimate-num-keys'' (rdb_estimate_num_keys api db);
          a2 = (if has_stats then fold (\<lambda>(name, v) b. sa_gauge b name v) (env_tickers env) a1 else a1)
      in case get_folder_size dir 0 of
           (Some e, _, _) \<Rightarrow> Inl e
         | (None, sz, _) \<Rightarrow>
             Inr (sa_gauge (sa_gauge a2 ''rocksdb.db-size'' sz) ''rocksdb.db-size-mb'' (sz div 1000000)))"

section \<open>HTTP endpoints\<close>

record http_response =
  hr_status :: nat
  hr_body :: string

definition http_ok :: "string \<Rightarrow> http_response" where
  "http_ok body = \<lparr>hr_status = 200, hr_body = body\<rparr>"

definition http_error :: "nat \<Rightarrow> string \<Rightarrow> http_response" where
  "http_error code body = \<lparr>hr_status = code, hr_body = body\<rparr>"

definition http_stats ::
    "('db, 'bk) rocksdb_env \<Rightarrow> 'db rocksdb \<Rightarrow> 'db rocks \<Rightarrow> http_response option" where
  "http_stats env api r = (case rk_db r of
       Ptr db \<Rightarrow> Some (http_ok (''rocksdb.estimate-num-keys COUNT : '' @
                    show_nat (unat (rdb_estimate_num_keys api db)) @ [LF] @
                    (if rk_rocks_stats r then env_stats_text env else [])))
     | _ \<Rightarrow> None)"

definition http_get_key ::
    "'db rocksdb \<Rightarrow> 'db rocks \<Rightarrow> string \<Rightarrow> ('db rocks, http_response) call" where
  "http_get_key api r key =
     bind_call (rocks_get api r key) (\<lambda>(st, v) r1.
       if st_ok st then Some (Inr (http_ok v), r1)
       else if st_is_not_found st then Some (Inr (http_error 404 []), r1)
       else Some (Inr (http_error 500 (st_msg st)),
                  rk_note r1 err ''failed to obtain key {}: {}'' [key, st_msg st]))"

definition http_put_key ::
    "'db rocksdb \<Rightarrow> 'db rocks \<Rightarrow> string \<Rightarrow> string \<Rightarrow> ('db rocks, http_response) call" where
  "http_put_key api r key body =
     bind_call (rocks_put api r key body) (\<lambda>st r1.
       if \<not> st_ok st
       then Some (Inr (http_error 500 (st_msg st)),
                  rk_note r1 err ''failed to set key {}: {}'' [key, st_msg st])
       else Some (Inr (http_ok []), r1))"

definition backup_path :: "'db rocks \<Rightarrow> string" where
  "backup_path r = rk_path r @ ''_backup''"

definition http_backup_create ::
    "('db, 'bk) rocksdb_env \<Rightarrow> 'bk \<Rightarrow> 'db rocks \<Rightarrow> (http_response \<times> 'db rocks \<times> 'bk) option" where
  "http_backup_create env bk r = (case rk_db r of
       Ptr db \<Rightarrow>
         (let r1 = rk_note r info ''attempting to create new backup at: {}'' [backup_path r];
              st0 = env_backup_open env bk (backup_path r);
              (st, bk') = (if rs_code st0 = ROk then env_backup_create env bk (backup_path r) db else (st0, bk))
          in if rs_code st \<noteq> ROk
             then Some (http_error 500 (rs_text st),
                        rk_note (rk_count r1 ''rocksdb.backup.create.error'') err
                          ''failed to create new backup: {}'' [rs_text st], bk')
             else Some (http_ok ''Success'',
                        rk_note (rk_count r1 ''rocksdb.backup.create.success'') info
                          ''created new backup at: {}'' [backup_path r], bk'))
     | _ \<Rightarrow> None)"

definition http_backup_clean ::
    "('db, 'bk) rocksdb_env \<Rightarrow> 'bk \<Rightarrow> 'db rocks \<Rightarrow> http_response \<times> 'db rocks \<times> 'bk" where
  "http_backup_clean env bk r =
     (let r1 = rk_note r info ''attempting to purge old backups at: {}'' [backup_path r];
          st0 = env_backup_open env bk (backup_path r);
          (st, bk') = (if rs_code st0 = ROk then env_backup_purge env bk (backup_path r) 1 else (st0, bk))
      in if rs_code st \<noteq> ROk
         then (http_error 500 (rs_text st),
               rk_note (rk_count r1 ''rocksdb.backup.clean.error'') err
                 ''failed to purge backups: {}'' [rs_text st], bk')
         else (http_ok ''Success'',
               rk_note (rk_count r1 ''rocksdb.backup.clean.success'') info
                 ''purged old backups at: {}'' [backup_path r], bk'))"

text \<open>
  The JSON text of \<open>/backup_info\<close>: every entry is written with a trailing comma, then the
  write position is moved one character back from the end, so that the closing bracket
  overwrites the last comma.
\<close>

definition backup_entry :: "backup_info \<Rightarrow> string" where
  "backup_entry i =
     [CHR ''{'', CHR 0x22] @ ''id'' @ [CHR 0x22, CHR '':'', CHR 0x22] @ show_nat (bi_backup_id i) @ [CHR 0x22] @
     '', '' @ [CHR 0x22] @ ''timestamp'' @ [CHR 0x22, CHR '':''] @ show_int (bi_timestamp i) @
     '', '' @ [CHR 0x22] @ ''size'' @ [CHR 0x22, CHR '':''] @ show_nat (bi_size i) @ ''},''"

definition backup_json :: "backup_info list \<Rightarrow> string" where
  "backup_json infos =
     (let ss = ''['' @ concat (map backup_entry infos) in
      if length infos > 0 then butlast ss @ '']'' else ss @ '']'')"

definition http_backup_info ::
    "('db, 'bk) rocksdb_env \<Rightarrow> 'bk \<Rightarrow> 'db rocks \<Rightarrow> http_response \<times> 'db rocks" where
  "http_backup_info env bk r =
     (let st = env_backup_open env bk (backup_path r) in
      if rs_code st \<noteq> ROk
      then (http_error 500 (rs_text st), rk_note r err ''failed to read backup: {}'' [rs_text st])
      else (http_ok (backup_json (env_backup_info env bk (backup_path r))), r))"

text \<open>\<open>endpoints\<close> is what the multiplexer lists: the paths with their methods.\<close>

definition http_endpoints :: "(string \<times> string list) list \<Rightarrow> http_response" where
  "http_endpoints endpoints =
     http_ok (concat (map (\<lambda>(path, methods). concat (map (\<lambda>m. m @ '' '' @ path @ [LF]) methods)) endpoints))"

definition registered_endpoints :: "(string \<times> string list) list" where
  "registered_endpoints =
     [(''/stats'', [''GET'']), (''/key/{key}'', [''GET'', ''PUT'', ''POST'']),
      (''/backup_create'', [''POST'']), (''/backup_clean'', [''POST'']),
      (''/backup_info'', [''GET'']), (''/endpoints'', [''GET''])]"

end
