(* ===== verification/Rocks_Props.thy ===== *)
theory Rocks_Props
  imports Rocks
begin

text \<open>
  The RocksDB store meets the store contract, so the request handler's refinement holds on
  it; the wire-level round trip; the HTTP endpoints; opening and destroying; the folder size.
\<close>

section \<open>The store contract\<close>

definition rocks_contents :: "('db \<Rightarrow> string \<rightharpoonup> string) \<Rightarrow> 'db rocks \<Rightarrow> string \<rightharpoonup> string" where
  "rocks_contents c r = (case rk_db r of Ptr db \<Rightarrow> c db | _ \<Rightarrow> Map.empty)"

definition rocks_opened :: "'db rocks \<Rightarrow> bool" where
  "rocks_opened r = (case rk_db r of Ptr _ \<Rightarrow> True | _ \<Rightarrow> False)"

lemma rk_count_simps [simp]:
  "rk_db (rk_count r n) = rk_db r" "rk_db_mutex (rk_count r n) = rk_db_mutex r"
  by (simp_all add: rk_count_def)

lemma rk_note_simps [simp]:
  "rk_db (rk_note r l f a) = rk_db r" "rk_db_mutex (rk_note r l f a) = rk_db_mutex r"
  by (simp_all add: rk_note_def)

lemma rocks_opened_iff: "rocks_opened r \<longleftrightarrow> (\<exists>db. rk_db r = Ptr db)"
  by (simp add: rocks_opened_def split: db_ptr.splits)

lemmas rocks_op_defs = rocks_store_def rocks_get_def rocks_put_def rocks_del_def
  rocks_lock_def rocks_unlock_def status_of_def Let_def

lemma rocks_store_contract:
  assumes laws: "rocksdb_laws api c"
  shows "store_contract (rocks_store api) (rocks_contents c) rk_db_mutex rocks_opened"
proof
  fix d :: "'a rocks" and k w st d' v
  assume d: "rocks_opened d"
  then obtain db where db: "rk_db d = Ptr db" by (auto simp: rocks_opened_iff)
  note defs = rocks_op_defs rocks_opened_iff rocks_contents_def db
  show "\<exists>st v d'. store_get (rocks_store api) d k = Some (Inr (st, v), d')"
    by (auto simp: defs split: prod.splits)
  show "\<exists>st d'. store_del (rocks_store api) d k = Some (Inr st, d')"
    by (auto simp: defs split: prod.splits)
  show "\<exists>st d'. store_put (rocks_store api) d k w = Some (Inr st, d')"
    by (auto simp: defs split: prod.splits)
  show "rocks_opened (store_unlock (rocks_store api) d) \<and> \<not> rk_db_mutex (store_unlock (rocks_store api) d) \<and>
      rocks_contents c (store_unlock (rocks_store api) d) = rocks_contents c d"
    by (simp add: defs)
  show "\<not> rk_db_mutex d \<Longrightarrow> \<exists>d'. store_lock (rocks_store api) d = Some d' \<and> rocks_opened d' \<and>
      rk_db_mutex d' \<and> rocks_contents c d' = rocks_contents c d"
    by (simp add: defs)
  {
    assume g: "store_get (rocks_store api) d k = Some (Inr (st, v), d')"
    show "rocks_opened d' \<and> rocks_contents c d' = rocks_contents c d \<and> rk_db_mutex d' = rk_db_mutex d"
      using g by (auto simp: defs split: prod.splits if_splits)
    show "st_ok st \<Longrightarrow> rocks_contents c d k = Some v"
      and "st_is_not_found st \<Longrightarrow> \<not> st_ok st \<and> rocks_contents c d k = None"
      using g laws by (auto simp: defs rocksdb_laws_def split: prod.splits if_splits)
  }
  {
    assume g: "store_del (rocks_store api) d k = Some (Inr st, d')"
    show "rocks_opened d' \<and> rk_db_mutex d' = rk_db_mutex d"
      using g by (auto simp: defs split: prod.splits if_splits)
    show "st_ok st \<Longrightarrow> rocks_contents c d' = (rocks_contents c d)(k := None)"
      using g laws by (auto simp: defs rocksdb_laws_def split: prod.splits if_splits)
  }
  {
    assume g: "store_put (rocks_store api) d k w = Some (Inr st, d')"
    show "rocks_opened d' \<and> rk_db_mutex d' = rk_db_mutex d"
      using g by (auto simp: defs split: prod.splits if_splits)
    show "st_ok st \<Longrightarrow> rocks_contents c d' = (rocks_contents c d)(k \<mapsto> w)"
      using g laws by (auto simp: defs rocksdb_laws_def split: prod.splits if_splits)
  }
next
  fix d :: "'a rocks"
  show "rk_db_mutex d \<Longrightarrow> store_lock (rocks_store api) d = None"
    by (simp add: rocks_op_defs)
qed

lemma rocks_reliable_store:
  assumes "rocksdb_laws api c" and "rocksdb_reliable api"
  shows "reliable_store (rocks_store api) (rocks_contents c) rk_db_mutex rocks_opened"
proof (rule reliable_store.intro [OF rocks_store_contract [OF assms(1)]])
  have get: "rs_code x \<noteq> ROther" if "rdb_Get api db k = (x, v)" for db k x v
    using assms(2) that by (metis fst_conv rocksdb_reliable_def)
  have put: "rs_code x = ROk" if "rdb_Put api db k w = (x, db')" for db k w x db'
    using assms(2) that by (metis fst_conv rocksdb_reliable_def)
  have del: "rs_code x = ROk" if "rdb_Delete api db k = (x, db')" for db k x db'
    using assms(2) that by (metis fst_conv rocksdb_reliable_def)
  show "reliable_store_axioms (rocks_store api) rocks_opened"
  proof
    fix d :: "'a rocks" and k w st d' v
    assume "rocks_opened d"
    then obtain db where db: "rk_db d = Ptr db" by (auto simp: rocks_opened_iff)
    show "store_get (rocks_store api) d k = Some (Inr (st, v), d') \<Longrightarrow> st_ok st \<or> st_is_not_found st"
      using get by (auto simp: rocks_op_defs db split: prod.splits if_splits) (metis rcode.exhaust)
    show "store_del (rocks_store api) d k = Some (Inr st, d') \<Longrightarrow> st_ok st"
      using del by (auto simp: rocks_op_defs db split: prod.splits if_splits)
    show "store_put (rocks_store api) d k w = Some (Inr st, d') \<Longrightarrow> st_ok st"
      using put by (auto simp: rocks_op_defs db split: prod.splits if_splits)
  qed
qed

section \<open>An in-memory database\<close>

text \<open>
  A database that satisfies the assumed laws, the entries in key order: it shows that the
  hypotheses about RocksDB can be met and instantiates the contract on \<open>rocks_store\<close>.
\<close>

definition mem_ok :: rstatus where "mem_ok = \<lparr>rs_code = ROk, rs_text = ''OK''\<rparr>"
definition mem_not_found :: rstatus where "mem_not_found = \<lparr>rs_code = RNotFound, rs_text = ''NotFound: ''\<rparr>"

definition mem_rocksdb :: "(string, string) omap rocksdb" where
  "mem_rocksdb =
     \<lparr>rdb_Get = (\<lambda>db k. case map_of db k of None \<Rightarrow> (mem_not_found, []) | Some v \<Rightarrow> (mem_ok, v)),
      rdb_Put = (\<lambda>db k v. (mem_ok, omap_put k v db)),
      rdb_Delete = (\<lambda>db k. (mem_ok, omap_erase k db)),
      rdb_estimate_num_keys = (\<lambda>db. word_of_nat (length db))\<rparr>"

definition mem_rocks :: "(string, string) omap \<Rightarrow> (string, string) omap rocks" where
  "mem_rocks db = rocks_new\<lparr>rk_db := Ptr db\<rparr>"

definition mem_env :: "((string, string) omap, backup_info list) rocksdb_env" where
  "mem_env =
     \<lparr>env_open = (\<lambda>opts path ttl. (mem_ok, [])),
      env_backup_open = (\<lambda>bk path. mem_ok),
      env_backup_create = (\<lambda>bk path db. (mem_ok,
        bk @ [\<lparr>bi_backup_id = length bk + 1, bi_timestamp = 0, bi_size = length db\<rparr>])),
      env_backup_purge = (\<lambda>bk path n. (mem_ok, drop (length bk - n) bk)),
      env_backup_info = (\<lambda>bk path. bk),
      env_backup_open_ro = (\<lambda>bk path. mem_ok),
      env_backup_restore = (\<lambda>bk path dir. (mem_ok, bk)),
      env_tickers = [], env_stats_text = []\<rparr>"

lemma mem_rocksdb_laws: "rocksdb_laws mem_rocksdb map_of"
  by (auto simp: rocksdb_laws_def mem_rocksdb_def mem_ok_def mem_not_found_def omap_simps split: option.splits)

lemma mem_rocksdb_reliable: "rocksdb_reliable mem_rocksdb"
  by (auto simp: rocksdb_reliable_def mem_rocksdb_def mem_ok_def mem_not_found_def split: option.splits)

interpretation mem_store: reliable_store "rocks_store mem_rocksdb" "rocks_contents map_of" rk_db_mutex rocks_opened
  by (rule rocks_reliable_store [OF mem_rocksdb_laws mem_rocksdb_reliable])

lemma mem_rocks_simps [simp]:
  "rocks_opened (mem_rocks db)" "\<not> rk_db_mutex (mem_rocks db)" "rocks_contents map_of (mem_rocks db) = map_of db"
  by (simp_all add: mem_rocks_def rocks_opened_def rocks_new_def rocks_contents_def)

section \<open>Lemmas\<close>

text \<open>\<open>join\<close> is the usual comma-separated list.\<close>

fun join_commas :: "string list \<Rightarrow> string" where
  "join_commas [] = []"
| "join_commas [x] = x"
| "join_commas (x # xs) = x @ '','' @ join_commas xs"

definition backup_object :: "backup_info \<Rightarrow> string" where
  "backup_object i = butlast (backup_entry i)"

lemma backup_entry_object: "backup_entry i = backup_object i @ '',''"
  by (simp add: backup_object_def backup_entry_def butlast_append)

lemma concat_entries:
  "infos \<noteq> [] \<Longrightarrow> concat (map backup_entry infos) = join_commas (map backup_object infos) @ '',''"
  by (induction infos rule: induct_list012) (auto simp: backup_entry_object)

text \<open>The files of a tree that can be reached and read.\<close>

fun readable_dir :: "fs_dir \<Rightarrow> uintmax_t list"
and readable_entries :: "fs_entry list \<Rightarrow> uintmax_t list" where
  "readable_dir (Dir es) = readable_entries es"
| "readable_dir _ = []"
| "readable_entries [] = []"
| "readable_entries (Entry_file n # es) = n # readable_entries es"
| "readable_entries (Entry_error m # es) = readable_entries es"
| "readable_entries (Entry_dir x # es) = readable_dir x @ readable_entries es"

lemma folder_size_sum:
  "fst (snd (get_folder_size x sz)) = sz + sum_list (readable_dir x)"
  "fst (entries_size es sz) = sz + sum_list (readable_entries es)"
proof (induction x sz and es sz rule: get_folder_size_entries_size.induct)
  case (7 x es sz)
  obtain ex sz1 l1 where g: "get_folder_size x sz = (ex, sz1, l1)" by (cases "get_folder_size x sz") auto
  have "fst (entries_size es sz1) = sz1 + sum_list (readable_entries es)" using 7 g by simp
  moreover have "sz1 = sz + sum_list (readable_dir x)" using 7 g by simp
  ultimately show ?case using g by (simp add: case_prod_unfold)
qed (simp_all add: case_prod_unfold)

section \<open>Properties\<close>

text \<open>
  (C3) The memcached commands, end to end on RocksDB. If the database does what it documents
  and does not fail, then for every retrieval, storage and deletion request with a key the
  handler returns, its response and the new contents are those of the abstract memcached
  server on the key/value map, and the mutex is free again.
\<close>

theorem rocks_requests_refine_memcached:
  assumes "rocksdb_laws api c" and "rocksdb_reliable api"
    and "rocks_opened d" and "\<not> rk_db_mutex d"
    and "rq_command r \<in> store_commands" and "rq_keys r \<noteq> []"
  shows "\<exists>d'. prepare_response (Some (rocks_store api)) d r =
      Some (finish (fst (memcached (rq_command r) (rq_keys r) (rq_buffer r) (rocks_contents c d))) r, d')
    \<and> rocks_contents c d' = snd (memcached (rq_command r) (rq_keys r) (rq_buffer r) (rocks_contents c d))
    \<and> rocks_opened d' \<and> \<not> rk_db_mutex d'"
  by (rule reliable_store.prepare_response_refines
      [OF rocks_reliable_store [OF assms(1,2)] assms(3-6)])

theorem rocks_requests_refine_memcached_witness:
  "\<exists>d'. prepare_response (Some (rocks_store mem_rocksdb)) (mem_rocks [(''k'', ''old'')])
      ((request_new NONE 0)\<lparr>rq_command := ADD, rq_keys := [''k''], rq_buffer := ''new''\<rparr>)
     = Some (finish not_stored_line
        ((request_new NONE 0)\<lparr>rq_command := ADD, rq_keys := [''k''], rq_buffer := ''new''\<rparr>), d')
    \<and> rocks_contents map_of d' ''k'' = Some ''old''"
  using rocks_requests_refine_memcached [OF mem_rocksdb_laws mem_rocksdb_reliable,
      of "mem_rocks [(''k'', ''old'')]"
         "(request_new NONE 0)\<lparr>rq_command := ADD, rq_keys := [''k''], rq_buffer := ''new''\<rparr>"]
  by (auto simp: store_commands_def)

text \<open>
  (C6) What was stored is what is read, on the wire: the bytes of a \<open>set\<close> command and, after
  the connection's reset, the bytes of a \<open>get\<close> for the same key give \<open>STORED\<close> and then
  exactly the stored bytes.
\<close>

theorem set_get_roundtrip:
  assumes "rocksdb_laws api c" and "rocksdb_reliable api"
    and "rocks_opened d" and "\<not> rk_db_mutex d"
    and "fresh q" and "rq_max_bytes q = 0" and "is_word k"
    and "int_min \<le> f" "f \<le> int_max" and "int_min \<le> e" "e \<le> int_max"
    and "0 < length v" "int (length v) \<le> int_max"
  shows "\<exists>q1 d1 q2 d2.
    process (Some (rocks_store api)) d q (storage_line ''set'' k f e (length v) False @ v @ CRLF) = Some (q1, d1)
    \<and> rq_response q1 = ''STORED'' @ CRLF
    \<and> process (Some (rocks_store api)) d1 (request_reset q1) (retrieval_line ''get'' [k]) = Some (q2, d2)
    \<and> rq_response q2 = ''VALUE '' @ k @ '' 0 '' @ show_nat (length v) @ CRLF @ v @ CRLF @ ''END'' @ CRLF"
proof -
  let ?s = "Some (rocks_store api)"
  let ?r = "q\<lparr>rq_status := DATA, rq_command := SET, rq_keys := [k], rq_flags := f,
       rq_exp_time := e, rq_remaining := 0, rq_buffer := v, rq_no_reply := False\<rparr>"
  note refine = reliable_store.prepare_response_refines [OF rocks_reliable_store [OF assms(1,2)]]
  have p1: "process ?s d q (storage_line ''set'' k f e (length v) False @ v @ CRLF) = prepare_response ?s d ?r"
    using storage_parsed [OF assms(5) _ assms(7-13), of "''set''" ?s d False CR "[LF]"] assms(6)
    by (simp add: process_unlimited command_from_str_def)
  obtain d1 where d1: "prepare_response ?s d ?r = Some (finish stored_line ?r, d1)"
      "rocks_contents c d1 = (rocks_contents c d)(k \<mapsto> v)" "rocks_opened d1" "\<not> rk_db_mutex d1"
    using refine [OF assms(3,4), of ?r] by (auto simp: store_commands_def)
  let ?q1 = "request_reset (finish stored_line ?r)"
  let ?r2 = "?q1\<lparr>rq_status := RETRIEVAL_KEY, rq_command := GET, rq_keys := [k]\<rparr>"
  have p2: "process ?s d1 ?q1 (retrieval_line ''get'' [k]) = prepare_response ?s d1 ?r2"
    using retrieval_parsed [OF fresh_reset, of "''get''" "[k]" ?s d1 "finish stored_line ?r" "[]"] assms(6,7)
    by (simp add: process_unlimited command_from_str_def request_reset_def)
  obtain d2 where "prepare_response ?s d1 ?r2 = Some (finish (values_text (rocks_contents c d1) [k]) ?r2, d2)"
    using refine [OF d1(3,4), of ?r2] by (auto simp: store_commands_def)
  then show ?thesis
    using p1 d1 p2 by (auto simp: stored_line_def values_text_def value_block_def)
qed

theorem set_get_roundtrip_witness:
  "\<exists>q1 d1 q2 d2.
    process (Some (rocks_store mem_rocksdb)) (mem_rocks []) (request_new NONE 0)
      (storage_line ''set'' ''a'' 0 0 (length [CHR ''x'', CR, LF]) False @ [CHR ''x'', CR, LF] @ CRLF) = Some (q1, d1)
    \<and> process (Some (rocks_store mem_rocksdb)) d1 (request_reset q1) (retrieval_line ''get'' [''a'']) = Some (q2, d2)
    \<and> rq_response q2 = ''VALUE a 0 '' @ show_nat 3 @ CRLF @ [CHR ''x'', CR, LF] @ CRLF @ ''END'' @ CRLF"
proof -
  have w: "is_word ''a''" by code_simp
  show ?thesis
    using set_get_roundtrip [OF mem_rocksdb_laws mem_rocksdb_reliable mem_rocks_simps(1,2) fresh_new [of NONE 0] _ w,
        of 0 0 "[CHR ''x'', CR, LF]"]
    by (fastforce simp: request_new_def int_min_def int_max_def)
qed

text \<open>
  (C8) No request blocks or leaves the mutex locked. On an open store whose mutex is free,
  whatever bytes arrive at a request in a valid state and whatever errors the database
  reports, \<open>process\<close> returns, and afterwards the store is open and its mutex free.
\<close>

theorem requests_never_block:
  assumes "rocksdb_laws api c" and "rocks_opened d" and "\<not> rk_db_mutex d" and "rq_inv q"
  shows "\<exists>q' d'. process (Some (rocks_store api)) d q data = Some (q', d') \<and>
    rq_inv q' \<and> rocks_opened d' \<and> \<not> rk_db_mutex d'"
  using store_contract.process_returns [OF rocks_store_contract [OF assms(1)] assms(2-4), of data]
    process_inv [OF _ assms(4), of "Some (rocks_store api)" d data]
  by blast

theorem requests_never_block_witness:
  "\<exists>q' d'. process (Some (rocks_store mem_rocksdb)) (mem_rocks []) (request_new NONE 0) (''add k 0 0 1'' @ CRLF @ ''xy'')
     = Some (q', d') \<and> \<not> rk_db_mutex d'"
  using requests_never_block [OF mem_rocksdb_laws mem_rocks_simps(1,2) rq_inv_fresh [OF fresh_new], of "[]" NONE 0]
  by blast



text \<open>
  (C14) The HTTP key endpoints: after a \<open>PUT\<close> or \<open>POST\<close> answered 200, a \<open>GET\<close> of the key
  answers 200 with exactly the body that was put, on a database that does not fail.
\<close>

theorem http_put_get_roundtrip:
  assumes "rocksdb_laws api c" and "rocksdb_reliable api" and "rocks_opened d"
  shows "\<exists>d1 d2. http_put_key api d key body = Some (Inr \<lparr>hr_status = 200, hr_body = []\<rparr>, d1)
    \<and> http_get_key api d1 key = Some (Inr \<lparr>hr_status = 200, hr_body = body\<rparr>, d2)
    \<and> rocks_contents c d2 = (rocks_contents c d)(key \<mapsto> body)"
proof -
  note rel = rocks_reliable_store [OF assms(1,2)]
  note con = rocks_store_contract [OF assms(1)]
  obtain st d1 where p: "rocks_put api d key body = Some (Inr st, d1)" "rocks_opened d1" "st_ok st"
      "rocks_contents c d1 = (rocks_contents c d)(key \<mapsto> body)"
    using store_contract.putE [OF con assms(3), of key body] reliable_store.put_reliable [OF rel assms(3)]
    by (simp add: rocks_store_def) metis
  obtain st' v d2 where "rocks_get api d1 key = Some (Inr (st', v), d2)" "st_ok st'"
      "rocks_contents c d2 = rocks_contents c d1" "rocks_contents c d1 key = Some v"
    using reliable_store.get_reliableE [OF rel p(2), of key] p(4)
    by (simp add: rocks_store_def) metis
  with p show ?thesis by (auto simp: http_put_key_def http_get_key_def http_ok_def)
qed

theorem http_put_get_roundtrip_witness:
  "\<exists>d1 d2. http_put_key mem_rocksdb (mem_rocks []) ''k'' ''body'' = Some (Inr \<lparr>hr_status = 200, hr_body = []\<rparr>, d1)
    \<and> http_get_key mem_rocksdb d1 ''k'' = Some (Inr \<lparr>hr_status = 200, hr_body = ''body''\<rparr>, d2)"
  using http_put_get_roundtrip [OF mem_rocksdb_laws mem_rocksdb_reliable mem_rocks_simps(1), of "[]" "''k''" "''body''"]
  by blast

text \<open>
  The listing of backups is well-formed: overwriting the last comma with the closing
  bracket gives the comma-separated list of the entries in brackets, also for no backup.
\<close>

theorem backup_json_brackets:
  "backup_json infos = ''['' @ join_commas (map backup_object infos) @ '']''"
proof (cases "infos = []")
  case True
  then show ?thesis by (simp add: backup_json_def)
next
  case False
  then show ?thesis by (simp add: backup_json_def concat_entries butlast_append)
qed

text \<open>
  The folder size is the sum, modulo \<open>2 ^ 64\<close>, of the sizes of all files below the
  folder that can be read; entries and subfolders that cannot be read are skipped, and only
  an unreadable top folder makes the function throw.
\<close>

theorem folder_size_sums_readable_files:
  "get_folder_size x 0 = (ex, sz, l) \<Longrightarrow>
   sz = sum_list (readable_dir x) \<and> (ex \<noteq> None \<longleftrightarrow> (\<exists>m. x = Dir_error m))"
  using folder_size_sum(1) [of x 0] by (cases x) (auto split: prod.splits)

theorem folder_size_sums_readable_files_witness:
  "get_folder_size (Dir [Entry_file 3, Entry_dir (Dir_error ''denied''), Entry_dir (Dir [Entry_file 4])]) 0
     = (None, sum_list (readable_dir (Dir [Entry_file 3, Entry_dir (Dir_error ''denied''), Entry_dir (Dir [Entry_file 4])])),
        [(debug, ''Failed to evaluate folder size for metrics: {}'', [''denied''])])"
  using folder_size_sums_readable_files
    [of "Dir [Entry_file 3, Entry_dir (Dir_error ''denied''), Entry_dir (Dir [Entry_file 4])]"]
  by simp

text \<open>
  (C15) Destroying a store object is safe once \<open>open\<close> has got as far as RocksDB: after a
  successful or failed database open the destructor is defined. On an object that was never
  opened, or whose restore was refused or failed, \<open>_db\<close> is still uninitialised and the
  destructor deletes an indeterminate pointer.
\<close>

theorem rocks_destructor_defined:
  assumes "rk_db r = Uninit" and "rocks_open env peek bk r stats = (res, r', bk')"
  shows "rocks_destroy r = None \<and>
    (rocks_destroy r' = None \<longleftrightarrow>
       rk_restore r \<and> (res = Inl (Runtime_error ''Aborting backup restore'') \<or>
                       res = Inl (Runtime_error ''failed to restore backup'')))"
proof -
  have db: "rk_db x \<noteq> Uninit \<and> res' \<noteq> Inl (Runtime_error ''Aborting backup restore'')
      \<and> res' \<noteq> Inl (Runtime_error ''failed to restore backup'')"
    if "rocks_open_db env y = (res', x)" for x y :: "'a rocks" and res'
    using that by (auto simp: rocks_open_db_def Let_def split: prod.splits if_splits)
  have un: "rocks_destroy x = None \<longleftrightarrow> rk_db x = Uninit" for x :: "'a rocks"
    by (simp add: rocks_destroy_def Let_def split: db_ptr.splits)
  show ?thesis
    using assms
    by (auto simp: un rocks_open_def rocks_restore_def Let_def rk_note_def
        split: prod.splits if_splits sum.splits dest: db)
qed

theorem rocks_destructor_defined_witness:
  "\<exists>res r' bk'. rocks_open mem_env 110 [] (rocks_new\<lparr>rk_restore := True\<rparr>) Null_aggregator = (res, r', bk')
     \<and> rocks_destroy r' = None"
proof -
  let ?r = "rocks_new\<lparr>rk_restore := True\<rparr> :: (string, string) omap rocks"
  have u: "rk_db ?r = Uninit" by (simp add: rocks_new_def)
  obtain r' bk' where o: "rocks_open mem_env 110 [] ?r Null_aggregator
      = (Inl (Runtime_error ''Aborting backup restore''), r', bk')"
    by (simp add: rocks_open_def rocks_restore_def rk_note_def rocks_new_def Let_def)
  show ?thesis using rocks_destructor_defined [OF u o] o by (auto simp: rocks_new_def)
qed

end
