(* ===== verification/Add_Race.thy ===== *)
theory Add_Race
  imports Rocks_Props
begin

text \<open>
  Concurrent storage commands. The connections of the server run on a pool of threads, so
  the store calls of several requests interleave. A step of this model is one store call of
  one thread inside the \<open>ADD\<close> or \<open>SET\<close> branch of \<open>prepare_response\<close>.
\<close>

section \<open>Threads and steps\<close>

datatype add_pc =
    Idle
  | Add_start string string
  | Add_locked string string
  | Add_got string string status
  | Add_answered string string string
  | Set_start string string
  | Answered string string string

type_synonym 'd threads = "'d \<times> (nat \<Rightarrow> add_pc)"

inductive thread_step :: "'d store \<Rightarrow> 'd threads \<Rightarrow> 'd threads \<Rightarrow> bool" for s where
  add_lock: "p i = Add_start k v \<Longrightarrow> store_lock s d = Some d' \<Longrightarrow>
    thread_step s (d, p) (d', p(i := Add_locked k v))"
| add_get: "p i = Add_locked k v \<Longrightarrow> store_get s d k = Some (Inr (st, w), d') \<Longrightarrow>
    thread_step s (d, p) (d', p(i := Add_got k v st))"
| add_put: "p i = Add_got k v st \<Longrightarrow> \<not> st_ok st \<Longrightarrow> st_is_not_found st \<Longrightarrow>
    store_put s d k v = Some (Inr st', d') \<Longrightarrow>
    thread_step s (d, p) (d', p(i := Add_answered k v (put_line st')))"
| add_fail: "p i = Add_got k v st \<Longrightarrow> \<not> st_ok st \<Longrightarrow> \<not> st_is_not_found st \<Longrightarrow>
    thread_step s (d, p) (d, p(i := Add_answered k v (error_line (st_msg st))))"
| add_found: "p i = Add_got k v st \<Longrightarrow> st_ok st \<Longrightarrow>
    thread_step s (d, p) (d, p(i := Add_answered k v (''NOT_STORED'' @ CRLF)))"
| add_unlock: "p i = Add_answered k v resp \<Longrightarrow>
    thread_step s (d, p) (store_unlock s d, p(i := Answered k v resp))"
| set_put: "p i = Set_start k v \<Longrightarrow> store_put s d k v = Some (Inr st, d') \<Longrightarrow>
    thread_step s (d, p) (d', p(i := Answered k v (put_line st)))"

inductive_cases thread_stepE: "thread_step s (d, p) (d', p')"

inductive thread_run :: "'d store \<Rightarrow> 'd threads \<Rightarrow> 'd threads \<Rightarrow> bool" for s where
  run_refl: "thread_run s x x"
| run_step: "thread_run s x y \<Longrightarrow> thread_step s y z \<Longrightarrow> thread_run s x z"

definition in_critical :: "add_pc \<Rightarrow> bool" where
  "in_critical pc = (case pc of
       Add_locked _ _ \<Rightarrow> True | Add_got _ _ _ \<Rightarrow> True | Add_answered _ _ _ \<Rightarrow> True | _ \<Rightarrow> False)"

text \<open>A thread has stored when its answer is \<open>STORED\<close>, before or after the unlock.\<close>

definition has_stored :: "string \<Rightarrow> add_pc \<Rightarrow> bool" where
  "has_stored k pc = (case pc of
       Add_answered k' v resp \<Rightarrow> k' = k \<and> resp = stored_line
     | Answered k' v resp \<Rightarrow> k' = k \<and> resp = stored_line
     | _ \<Rightarrow> False)"

definition pc_value :: "add_pc \<Rightarrow> string" where
  "pc_value pc = (case pc of
       Idle \<Rightarrow> [] | Add_start _ v \<Rightarrow> v | Add_locked _ v \<Rightarrow> v | Add_got _ v _ \<Rightarrow> v
     | Add_answered _ v _ \<Rightarrow> v | Set_start _ v \<Rightarrow> v | Answered _ v _ \<Rightarrow> v)"

text \<open>All threads run \<open>add\<close> and nothing has been answered yet.\<close>

definition only_adds :: "(nat \<Rightarrow> add_pc) \<Rightarrow> bool" where
  "only_adds p \<longleftrightarrow> (\<forall>i. p i = Idle \<or> (\<exists>k v. p i = Add_start k v))"

section \<open>The invariant\<close>

definition race_inv ::
    "('d \<Rightarrow> string \<rightharpoonup> string) \<Rightarrow> ('d \<Rightarrow> bool) \<Rightarrow> ('d \<Rightarrow> bool) \<Rightarrow> 'd threads \<Rightarrow> bool" where
  "race_inv contents held good x \<longleftrightarrow> (case x of (d, p) \<Rightarrow>
     good d \<and>
     (\<forall>i j. in_critical (p i) \<longrightarrow> in_critical (p j) \<longrightarrow> i = j) \<and>
     (\<forall>i. in_critical (p i) \<longrightarrow> held d) \<and>
     (\<forall>i k v. p i \<noteq> Set_start k v) \<and>
     (\<forall>i k v st. p i = Add_got k v st \<longrightarrow> (st_is_not_found st \<longleftrightarrow> contents d k = None)) \<and>
     (\<forall>i k. has_stored k (p i) \<longrightarrow> contents d k = Some (pc_value (p i))) \<and>
     (\<forall>i j k. has_stored k (p i) \<longrightarrow> has_stored k (p j) \<longrightarrow> i = j))"

lemmas pc_defs = in_critical_def has_stored_def pc_value_def

lemma put_line_stored: "put_line st = stored_line \<longleftrightarrow> st_ok st"
  by (simp add: put_line_def error_line_def line_defs)

lemma error_line_not_stored: "error_line m \<noteq> stored_line"
  by (simp add: error_line_def line_defs)

lemma race_invI:
  assumes "good d"
    and "\<And>i j. in_critical (p i) \<Longrightarrow> in_critical (p j) \<Longrightarrow> i = j"
    and "\<And>i. in_critical (p i) \<Longrightarrow> held d"
    and "\<And>i k v. p i \<noteq> Set_start k v"
    and "\<And>i k v st. p i = Add_got k v st \<Longrightarrow> st_is_not_found st \<longleftrightarrow> contents d k = None"
    and "\<And>i k. has_stored k (p i) \<Longrightarrow> contents d k = Some (pc_value (p i))"
    and "\<And>i j k. has_stored k (p i) \<Longrightarrow> has_stored k (p j) \<Longrightarrow> i = j"
  shows "race_inv contents held good (d, p)"
  using assms unfolding race_inv_def prod.case by blast

lemma race_invD:
  assumes "race_inv contents held good (d, p)"
  shows "good d"
    and "in_critical (p i) \<Longrightarrow> in_critical (p j) \<Longrightarrow> i = j"
    and "in_critical (p i) \<Longrightarrow> held d"
    and "p i \<noteq> Set_start k v"
    and "p i = Add_got k v st \<Longrightarrow> st_is_not_found st \<longleftrightarrow> contents d k = None"
    and "has_stored k (p i) \<Longrightarrow> contents d k = Some (pc_value (p i))"
    and "has_stored k (p i) \<Longrightarrow> has_stored k (p j) \<Longrightarrow> i = j"
  using assms unfolding race_inv_def prod.case by blast+

text \<open>A step that leaves the contents alone and keeps its thread's role.\<close>

lemma race_inv_quiet:
  assumes I: "race_inv contents held good (d, p)"
    and d: "good d'" "contents d' = contents d" "held d' = held d"
    and c: "in_critical c = in_critical (p i)" "\<And>k. has_stored k c = has_stored k (p i)"
      "pc_value c = pc_value (p i)" "\<And>k v. c \<noteq> Set_start k v"
      "\<And>k v st. c = Add_got k v st \<Longrightarrow> st_is_not_found st \<longleftrightarrow> contents d k = None"
  shows "race_inv contents held good (d', p(i := c))"
proof -
  define q where "q = p(i := c)"
  have same: "in_critical (q j) = in_critical (p j)" "has_stored k (q j) = has_stored k (p j)"
    "pc_value (q j) = pc_value (p j)" for j k
    using c(1-3) by (auto simp: q_def)
  have "q j \<noteq> Set_start k v" for j k v
    using race_invD(4) [OF I] c(4) by (simp add: q_def)
  moreover have "q j = Add_got k v st \<Longrightarrow> st_is_not_found st \<longleftrightarrow> contents d k = None" for j k v st
    using race_invD(5) [OF I] c(5) by (simp add: q_def split: if_splits)
  ultimately show ?thesis
    unfolding q_def [symmetric] using d race_invD(2,3,6,7) [OF I] same
    by (intro race_invI) metis+
qed

context reliable_store
begin

lemma race_inv_step:
  assumes step: "thread_step s (d, p) (d', p')" and I: "race_inv contents held inv (d, p)"
  shows "race_inv contents held inv (d', p')"
proof -
  have d: "inv d" using I by (simp add: race_inv_def)
  from step show ?thesis
  proof (cases rule: thread_step.cases)
    case (add_lock i k v)
    have nh: "\<not> held d" using lock_held [of d] add_lock(3) by auto
    have l: "inv d'" "held d'" "contents d' = contents d"
      using lock_free [OF d nh] add_lock(3) by auto
    have nc: "\<not> in_critical (p j)" for j using race_invD(3) [OF I] nh by blast
    have other: "j \<noteq> i \<Longrightarrow> p' j = p j" "p' i = Add_locked k v" for j
      using add_lock(1) by simp_all
    have st: "has_stored k' (p' j) \<longleftrightarrow> has_stored k' (p j)" "pc_value (p' j) = pc_value (p j)" for j k'
      using add_lock(2) other by (cases "j = i"; simp add: has_stored_def pc_value_def)+
    have cr: "in_critical (p' j) \<Longrightarrow> j = i" for j using nc other by metis
    have "p' j \<noteq> Set_start k' v'" "p' j \<noteq> Add_got k' v' x" for j k' v' x
      using race_invD(4) [OF I] nc [of j] other by (cases "j = i"; force simp: in_critical_def)+
    with l cr st race_invD(6,7) [OF I] show ?thesis by (intro race_invI) metis+
  next
    case (add_get i k v st w)
    have g: "inv d'" "contents d' = contents d" "held d' = held d"
      using get_frame [OF d] add_get by blast+
    have "st_is_not_found st \<longleftrightarrow> contents d k = None"
      using get_ok [OF d] get_not_found [OF d] get_reliable [OF d] add_get by fastforce
    then show ?thesis
      unfolding add_get(1) using g add_get(2) by (intro race_inv_quiet [OF I]) (auto simp: pc_defs)
  next
    case (add_put i k v st st')
    have q: "inv d'" "held d' = held d" "contents d' = (contents d)(k \<mapsto> v)" "st_ok st'"
      using put_frame [OF d] put_ok [OF d] put_reliable [OF d] add_put by blast+
    have crit: "in_critical (p i)" using add_put by (simp add: in_critical_def)
    have none: "contents d k = None" using race_invD(5) [OF I] add_put by blast
    have no: "\<not> has_stored k (p j)" for j using race_invD(6) [OF I] none by force
    have noc: "in_critical (p j) \<Longrightarrow> j = i" for j using race_invD(2) [OF I crit] by blast
    have st: "has_stored k' (p' j) \<longleftrightarrow> (if j = i then k' = k else has_stored k' (p j))" for j k'
      using add_put(1) q(4) by (auto simp: has_stored_def put_line_stored)
    have v: "pc_value (p' j) = (if j = i then v else pc_value (p j))" for j
      using add_put(1) by (simp add: pc_value_def)
    have other: "j \<noteq> i \<Longrightarrow> p' j = p j" "in_critical (p' i)" "p' i \<noteq> Set_start k' v'" "p' i \<noteq> Add_got k' v' x" for j k' v' x
      using add_put(1) by (simp_all add: in_critical_def)
    have got: "p' j \<noteq> Add_got k' v' x" for j k' v' x
      using noc [of j] other by (cases "j = i") (auto simp: in_critical_def)
    show ?thesis
    proof (rule race_invI)
      show "has_stored k' (p' j) \<Longrightarrow> contents d' k' = Some (pc_value (p' j))" for j k'
        using race_invD(6) [OF I, of k' j] no [of j] by (auto simp: st v q(3) split: if_splits)
      show "has_stored k' (p' j) \<Longrightarrow> has_stored k' (p' j') \<Longrightarrow> j = j'" for j j' k'
        using race_invD(7) [OF I, of k' j j'] no by (auto simp: st split: if_splits)
      show "in_critical (p' j) \<Longrightarrow> in_critical (p' j') \<Longrightarrow> j = j'" for j j'
        using noc other(1) by metis
      show "p' j \<noteq> Set_start k' v'" for j k' v'
        using race_invD(4) [OF I] other by metis
    qed (use q got race_invD(3) [OF I crit] in auto)
  next
    case (add_fail i k v st)
    then show ?thesis
      using d error_line_not_stored by (auto intro!: race_inv_quiet [OF I] simp: pc_defs)
  next
    case (add_found i k v st)
    then show ?thesis
      using d by (auto intro!: race_inv_quiet [OF I] simp: pc_defs line_defs)
  next
    case (add_unlock i k v resp)
    have u: "inv d'" "contents d' = contents d" using unlock [OF d] add_unlock by auto
    have crit: "in_critical (p i)" using add_unlock by (simp add: in_critical_def)
    have noc: "in_critical (p j) \<Longrightarrow> j = i" for j using race_invD(2) [OF I crit] by blast
    have other: "j \<noteq> i \<Longrightarrow> p' j = p j" "p' i = Answered k v resp" for j
      using add_unlock(2) by simp_all
    have cr: "\<not> in_critical (p' j)" for j
      using noc other by (cases "j = i") (auto simp: in_critical_def)
    have st: "has_stored k' (p' j) \<longleftrightarrow> has_stored k' (p j)" "pc_value (p' j) = pc_value (p j)" for j k'
      using add_unlock(3) other by (cases "j = i"; simp add: has_stored_def pc_value_def)+
    have "p' j \<noteq> Set_start k' v'" "p' j \<noteq> Add_got k' v' x" for j k' v' x
      using race_invD(4) [OF I] cr [of j] other by (cases "j = i"; force simp: in_critical_def)+
    with u cr st race_invD(6,7) [OF I] show ?thesis by (intro race_invI) metis+
  next
    case (set_put i k v st)
    then show ?thesis using race_invD(4) [OF I] by blast
  qed
qed

lemma race_inv_run: "thread_run s x y \<Longrightarrow> race_inv contents held inv x \<Longrightarrow> race_inv contents held inv y"
proof (induction rule: thread_run.induct)
  case (run_step x y z)
  then show ?case using race_inv_step by (cases y; cases z) auto
qed

lemma race_inv_start:
  assumes "inv d" "only_adds p"
  shows "race_inv contents held inv (d, p)"
proof -
  have "\<not> in_critical (p i)" "\<not> has_stored k (p i)" "p i \<noteq> Set_start k v" "p i \<noteq> Add_got k v st" for i k v st
    using assms(2) unfolding only_adds_def pc_defs by (auto dest: spec [of _ i])
  with assms(1) show ?thesis by (auto simp: race_inv_def)
qed

end

section \<open>Properties\<close>

lemmas run_intros = run_step [OF run_step [OF run_step [OF run_step [OF run_refl]]]]

text \<open>
  The steps are those of the sequential handler: a thread that runs alone from the start of
  \<open>add\<close> to its answer does what \<open>respond\<close> does.
\<close>

lemma add_alone_is_respond:
  assumes "rq_command r = ADD" "hd (rq_keys r) = k" "rq_buffer r = v"
    and "respond s d r = Some (Inr resp, d')" and "p i = Add_start k v"
  shows "thread_run s (d, p) (d', p(i := Answered k v resp))"
proof -
  from assms obtain d1 st w d2 where l: "store_lock s d = Some d1"
    and g: "store_get s d1 k = Some (Inr (st, w), d2)"
    by (auto simp: respond_def split: option.splits elim!: bind_call_SomeE)
  let ?p1 = "p(i := Add_locked k v)" and ?p2 = "p(i := Add_got k v st)" and ?p3 = "p(i := Add_answered k v resp)"
  have s1: "thread_step s (d, p) (d1, ?p1)" using thread_step.add_lock [of p i k v s d d1] assms(5) l by simp
  have s2: "thread_step s (d1, ?p1) (d2, ?p2)" using thread_step.add_get [of ?p1 i k v s d1 st w d2] g by simp
  obtain d3 where s3: "thread_step s (d2, ?p2) (d3, ?p3)" and d': "d' = store_unlock s d3"
  proof (cases "st_ok st \<or> \<not> st_is_not_found st")
    case True
    then have "thread_step s (d2, ?p2) (d2, ?p3)" "d' = store_unlock s d2"
      using assms l g thread_step.add_found [of ?p2 i k v st s d2] thread_step.add_fail [of ?p2 i k v st s d2]
      by (auto simp: respond_def split: if_splits)
    with that show ?thesis by blast
  next
    case False
    then obtain st' d3 where "store_put s d2 k v = Some (Inr st', d3)" "resp = put_line st'" "d' = store_unlock s d3"
      using assms l g by (auto simp: respond_def elim!: bind_call_SomeE)
    with False that show ?thesis using thread_step.add_put [of ?p2 i k v st s d2 st' d3] by simp
  qed
  have s4: "thread_step s (d3, ?p3) (d', p(i := Answered k v resp))"
    using thread_step.add_unlock [of ?p3 i k v resp s d3] d' by simp
  show ?thesis by (rule run_intros [OF s1 s2 s3 s4])
qed

text \<open>
  (C7) Concurrent \<open>add\<close> commands are atomic with respect to each other. In every
  interleaving of the store calls of any number of threads that all run \<open>add\<close>, at most one
  thread is told \<open>STORED\<close> for a key, and from then on the key holds that thread's value.
\<close>

theorem concurrent_adds_one_winner:
  assumes "rocksdb_laws api c" and "rocksdb_reliable api" and "rocks_opened d" and "only_adds p"
    and "thread_run (rocks_store api) (d, p) (d', p')" and "has_stored k (p' i)"
  shows "rocks_contents c d' k = Some (pc_value (p' i)) \<and> (\<forall>j. has_stored k (p' j) \<longrightarrow> j = i)"
proof -
  note rel = rocks_reliable_store [OF assms(1,2)]
  have "race_inv (rocks_contents c) rk_db_mutex rocks_opened (d', p')"
    by (rule reliable_store.race_inv_run [OF rel assms(5)
          reliable_store.race_inv_start [OF rel assms(3,4)]])
  from race_invD(6,7) [OF this] assms(6) show ?thesis by blast
qed

definition two_adds :: "nat \<Rightarrow> add_pc" where
  "two_adds = (\<lambda>_. Idle)(0 := Add_start ''k'' ''a'', 1 := Add_start ''k'' ''b'')"

theorem concurrent_adds_one_winner_witness:
  "\<exists>d' p'. thread_run (rocks_store mem_rocksdb) (mem_rocks [], two_adds) (d', p') \<and>
     has_stored ''k'' (p' 0) \<and> \<not> has_stored ''k'' (p' 1)"
proof -
  let ?r = "(request_new NONE 0)\<lparr>rq_command := ADD, rq_keys := [''k''], rq_buffer := ''a''\<rparr>"
  obtain d' where "respond (rocks_store mem_rocksdb) (mem_rocks []) ?r = Some (Inr stored_line, d')"
    using mem_store.respond_refines [of "mem_rocks []" ?r] by (auto simp: store_commands_def)
  then have run: "thread_run (rocks_store mem_rocksdb) (mem_rocks [], two_adds)
      (d', two_adds(0 := Answered ''k'' ''a'' stored_line))"
    by (intro add_alone_is_respond [of ?r]) (simp_all add: two_adds_def)
  have adds: "only_adds two_adds" by (simp add: only_adds_def two_adds_def)
  let ?p = "two_adds(0 := Answered ''k'' ''a'' stored_line)"
  have st: "has_stored ''k'' (?p 0)" by (simp add: has_stored_def)
  show ?thesis
    using concurrent_adds_one_winner [OF mem_rocksdb_laws mem_rocksdb_reliable mem_rocks_simps(1) adds run st] run st
    by (metis zero_neq_one)
qed

definition add_and_set :: "nat \<Rightarrow> add_pc" where
  "add_and_set = (\<lambda>_. Idle)(0 := Add_start ''k'' ''a'', 1 := Set_start ''k'' ''b'')"

text \<open>
  \<open>add\<close> is not atomic with respect to \<open>set\<close>, which does not take the mutex: an
  \<open>add\<close> may read the key as absent, let a \<open>set\<close> store its value and be answered, and then
  overwrite that value and answer \<open>STORED\<close> too. In no sequential order do both answers and
  the final value agree with this run.
\<close>

lemma add_set_race:
  "(\<exists>d' p'. thread_run (rocks_store mem_rocksdb) (mem_rocks [], add_and_set) (d', p') \<and>
      p' 0 = Answered ''k'' ''a'' stored_line \<and> p' 1 = Answered ''k'' ''b'' stored_line \<and>
      rocks_contents map_of d' ''k'' = Some ''a'') \<and>
   fst (memcached ADD [''k''] ''a'' (snd (memcached SET [''k''] ''b'' Map.empty))) \<noteq> stored_line \<and>
   snd (memcached SET [''k''] ''b'' (snd (memcached ADD [''k''] ''a'' Map.empty))) ''k'' \<noteq> Some ''a''"
proof -
  let ?s = "rocks_store mem_rocksdb"
  obtain d1 where l: "store_lock ?s (mem_rocks []) = Some d1" "rocks_opened d1" "rocks_contents map_of d1 = Map.empty"
    using mem_store.lockE [of "mem_rocks []"] by auto
  obtain st w d2 where g: "store_get ?s d1 ''k'' = Some (Inr (st, w), d2)" "rocks_opened d2"
      "\<not> st_ok st" "st_is_not_found st"
    using mem_store.get_reliableE [OF l(2), of "''k''"] fun_cong [OF l(3), of "''k''"] by metis
  obtain st1 d3 where b: "store_put ?s d2 ''k'' ''b'' = Some (Inr st1, d3)" "rocks_opened d3" "st_ok st1"
    using mem_store.putE [OF g(2)] mem_store.put_reliable [OF g(2)] by metis
  obtain st2 d4 where a: "store_put ?s d3 ''k'' ''a'' = Some (Inr st2, d4)" "rocks_opened d4" "st_ok st2"
      "rocks_contents map_of d4 ''k'' = Some ''a''"
    using mem_store.putE [OF b(2), of "''k''" "''a''"] mem_store.put_reliable [OF b(2)] by (metis fun_upd_same)
  let ?p1 = "add_and_set(0 := Add_locked ''k'' ''a'')" and ?p2 = "add_and_set(0 := Add_got ''k'' ''a'' st)"
  let ?p3 = "?p2(1 := Answered ''k'' ''b'' stored_line)"
  let ?p4 = "?p3(0 := Add_answered ''k'' ''a'' stored_line)" and ?p5 = "?p3(0 := Answered ''k'' ''a'' stored_line)"
  have "thread_step ?s (mem_rocks [], add_and_set) (d1, ?p1)"
    using thread_step.add_lock [of add_and_set 0 _ _ ?s "mem_rocks []" d1] l by (simp add: add_and_set_def)
  moreover have "thread_step ?s (d1, ?p1) (d2, ?p2)"
    using thread_step.add_get [of ?p1 0 "''k''" "''a''" ?s d1 st w d2] g by simp
  moreover have "thread_step ?s (d2, ?p2) (d3, ?p3)"
    using thread_step.set_put [of ?p2 1 "''k''" "''b''" ?s d2 st1 d3] b
    by (simp add: add_and_set_def put_line_stored [THEN iffD2])
  moreover have "thread_step ?s (d3, ?p3) (d4, ?p4)"
    using thread_step.add_put [of ?p3 0 "''k''" "''a''" st ?s d3 st2 d4] g a
    by (simp add: put_line_stored [THEN iffD2])
  ultimately have "thread_run ?s (mem_rocks [], add_and_set) (d4, ?p4)" by (rule run_intros)
  moreover have "thread_step ?s (d4, ?p4) (store_unlock ?s d4, ?p5)"
    using thread_step.add_unlock [of ?p4 0 "''k''" "''a''" stored_line ?s d4] by simp
  ultimately have "thread_run ?s (mem_rocks [], add_and_set) (store_unlock ?s d4, ?p5)"
    by (rule run_step)
  moreover have "rocks_contents map_of (store_unlock ?s d4) ''k'' = Some ''a''"
    using mem_store.unlock [OF a(2)] a(4) by simp
  ultimately show ?thesis by (auto simp: line_defs intro!: exI [of _ "store_unlock ?s d4"] exI [of _ ?p5])
qed

text \<open>
  The lock is not released when a store call throws between \<open>lock\<close> and \<open>unlock\<close>: the
  handler answers with the exception's text and leaves the store as the throwing call left
  it, mutex included.
\<close>

lemma add_exception_keeps_lock:
  assumes "rq_command r = ADD" "rq_keys r = [k]" "store_lock s d = Some d1" "store_get s d1 k = Some (Inl e, d2)"
  shows "prepare_response (Some s) d r = Some (finish (error_line (what e)) r, d2)"
  using assms by (simp add: prepare_response_def respond_def)

end
