(* ===== verification/Server.thy ===== *)
theory Server
  imports Memcached Rocks "HOL-Library.Multiset"
begin

text \<open>
  The TCP side of the program: \<open>connection\<close>, \<open>connection_manager\<close> and \<open>server\<close>.
  Boost.Asio is not modelled as code: the \<open>io_service\<close> is the multiset of asynchronous
  operations that were started and whose completion handlers have not run yet, and the
  environment decides which one completes next and with which error code (theory
  \<open>Server_Run\<close>). Every definition here is one function or one completion handler of the
  source; a handler is run after its operation has been taken out of the multiset.
\<close>

section \<open>State\<close>

datatype error_code = No_error | Operation_aborted | Other_error

text \<open>
  An operation on a socket records whether the socket was open when it was started, a timer
  wait whether it has been cancelled.
\<close>

datatype async_op =
    Read_some nat bool
  | Write nat bool string
  | Read_wait nat bool
  | Write_wait nat bool
  | Accept
  | Await_stop

text \<open>
  A connection with its socket and its two deadline timers. The timers are given their expiry
  times by their constructor.
\<close>

record connection =
  cn_request :: request
  cn_read_timeout :: int
  cn_write_timeout :: int
  cn_read_expiry :: int
  cn_write_expiry :: int
  cn_open :: bool

text \<open>
  The server. Connections are objects on a heap; \<open>sv_connections\<close> is the set the manager
  keeps. \<open>sv_now\<close> is the clock the timers use, in milliseconds.
\<close>

record 'd server =
  sv_store :: "'d store option"
  sv_db :: 'd
  sv_read_timeout :: int
  sv_write_timeout :: int
  sv_req_max_bytes :: size_t
  sv_acceptor_open :: bool
  sv_stopped :: bool
  sv_pending :: "async_op multiset"
  sv_heap :: "nat \<rightharpoonup> connection"
  sv_next :: nat
  sv_connections :: "nat set"
  sv_now :: int

definition conn :: "'d server \<Rightarrow> nat \<Rightarrow> connection" where
  "conn s c = the (sv_heap s c)"

definition put_conn :: "nat \<Rightarrow> connection \<Rightarrow> 'd server \<Rightarrow> 'd server" where
  "put_conn c cn s = s\<lparr>sv_heap := (sv_heap s)(c \<mapsto> cn)\<rparr>"

definition post :: "async_op \<Rightarrow> 'd server \<Rightarrow> 'd server" where
  "post a s = s\<lparr>sv_pending := add_mset a (sv_pending s)\<rparr>"

section \<open>Connections\<close>

text \<open>\<open>cmd\<close> is the indeterminate value of the request's uninitialised member.\<close>

definition connection_new :: "command_type \<Rightarrow> int \<Rightarrow> size_t \<Rightarrow> int \<Rightarrow> int \<Rightarrow> connection" where
  "connection_new cmd now max_request_size_bytes read_timeout write_timeout =
     \<lparr>cn_request = request_new cmd max_request_size_bytes,
      cn_read_timeout = read_timeout, cn_write_timeout = write_timeout,
      cn_read_expiry = now + read_timeout, cn_write_expiry = now + write_timeout,
      cn_open = True\<rparr>"

definition do_read :: "nat \<Rightarrow> 'd server \<Rightarrow> 'd server" where
  "do_read c s = post (Read_some c (cn_open (conn s c))) s"

definition conn_start :: "nat \<Rightarrow> 'd server \<Rightarrow> 'd server" where
  "conn_start c s =
     (let s1 = do_read c s in
      if cn_read_timeout (conn s1 c) > 0 then post (Read_wait c False) s1 else s1)"

text \<open>Shutting down and closing the socket; closing a closed socket does nothing.\<close>

definition conn_stop :: "nat \<Rightarrow> 'd server \<Rightarrow> 'd server" where
  "conn_stop c s = put_conn c ((conn s c)\<lparr>cn_open := False\<rparr>) s"

text \<open>\<open>deadline_timer::cancel\<close> marks the outstanding waits of the timer.\<close>

fun cancel_wait :: "nat \<Rightarrow> bool \<Rightarrow> async_op \<Rightarrow> async_op" where
  "cancel_wait c True (Read_wait c' k) = Read_wait c' (k \<or> c' = c)"
| "cancel_wait c False (Write_wait c' k) = Write_wait c' (k \<or> c' = c)"
| "cancel_wait c rd a = a"

definition cancel_read_timer :: "nat \<Rightarrow> 'd server \<Rightarrow> 'd server" where
  "cancel_read_timer c s = s\<lparr>sv_pending := image_mset (cancel_wait c True) (sv_pending s)\<rparr>"

definition cancel_write_timer :: "nat \<Rightarrow> 'd server \<Rightarrow> 'd server" where
  "cancel_write_timer c s = s\<lparr>sv_pending := image_mset (cancel_wait c False) (sv_pending s)\<rparr>"

definition reset_request :: "nat \<Rightarrow> 'd server \<Rightarrow> 'd server" where
  "reset_request c s = put_conn c ((conn s c)\<lparr>cn_request := request_reset (cn_request (conn s c))\<rparr>) s"

section \<open>The connection manager\<close>

definition manager_start :: "nat \<Rightarrow> 'd server \<Rightarrow> 'd server" where
  "manager_start c s = conn_start c (s\<lparr>sv_connections := insert c (sv_connections s)\<rparr>)"

definition manager_stop :: "nat \<Rightarrow> 'd server \<Rightarrow> 'd server" where
  "manager_stop c s = conn_stop c (s\<lparr>sv_connections := sv_connections s - {c}\<rparr>)"

definition manager_stop_all :: "'d server \<Rightarrow> 'd server" where
  "manager_stop_all s =
     s\<lparr>sv_heap := (\<lambda>c. if c \<in> sv_connections s then map_option (\<lambda>cn. cn\<lparr>cn_open := False\<rparr>) (sv_heap s c)
                       else sv_heap s c),
       sv_connections := {}\<rparr>"

section \<open>Completion handlers of a connection\<close>

text \<open>
  A handler returns, throws (the exception leaves \<open>io_service::run\<close>), or does not return
  because the store call waits for a mutex for ever. The server state is passed through.
\<close>

definition do_write :: "nat \<Rightarrow> 'd server \<Rightarrow> ('d server, unit) call" where
  "do_write c s = (case get_response (cn_request (conn s c)) of
       Inl e \<Rightarrow> Some (Inl e, s)
     | Inr resp \<Rightarrow> Some (Inr (), post (Write c (cn_open (conn s c)) resp) s))"

definition on_read :: "nat \<Rightarrow> error_code \<Rightarrow> string \<Rightarrow> 'd server \<Rightarrow> ('d server, unit) call" where
  "on_read c ec bytes s =
     (if ec = No_error then
        (case process (sv_store s) (sv_db s) (cn_request (conn s c)) bytes of
           None \<Rightarrow> None
         | Some (r, d) \<Rightarrow>
             (let s1 = put_conn c ((conn s c)\<lparr>cn_request := r\<rparr>) (s\<lparr>sv_db := d\<rparr>) in
              case rq_status r of
                FINISHED \<Rightarrow>
                  (let s2 = cancel_read_timer c s1;
                       s3 = (if cn_write_timeout (conn s2 c) > 0 then post (Write_wait c False) s2 else s2)
                   in if rq_no_reply r
                      then Some (Inr (), conn_start c (reset_request c (cancel_write_timer c s3)))
                      else do_write c s3)
              | QUITTING \<Rightarrow> Some (Inr (), manager_stop c s1)
              | _ \<Rightarrow> Some (Inr (), do_read c s1)))
      else if ec \<noteq> Operation_aborted then Some (Inr (), manager_stop c s)
      else Some (Inr (), s))"

definition on_write :: "nat \<Rightarrow> error_code \<Rightarrow> 'd server \<Rightarrow> ('d server, unit) call" where
  "on_write c ec s =
     (if ec = No_error then Some (Inr (), conn_start c (reset_request c (cancel_write_timer c s)))
      else if ec \<noteq> Operation_aborted then Some (Inr (), manager_stop c s)
      else Some (Inr (), s))"

text \<open>The handlers of the two timers have the same body.\<close>

definition on_wait :: "nat \<Rightarrow> error_code \<Rightarrow> 'd server \<Rightarrow> ('d server, unit) call" where
  "on_wait c ec s = Some (Inr (), if ec \<noteq> Operation_aborted then manager_stop c s else s)"

section \<open>The server\<close>

definition do_accept :: "'d server \<Rightarrow> 'd server" where
  "do_accept s = post Accept s"

text \<open>
  The new connection receives the server's members in the order of the source: the
  constructor's \<open>max_request_size_bytes\<close>, \<open>read_timeout\<close> and \<open>write_timeout\<close> are
  \<open>_read_timeout\<close>, \<open>_write_timeout\<close> and \<open>_req_max_bytes\<close>, each converted to the type of
  the parameter.
\<close>

definition on_accept :: "command_type \<Rightarrow> error_code \<Rightarrow> 'd server \<Rightarrow> ('d server, unit) call" where
  "on_accept cmd ec s =
     (if \<not> sv_acceptor_open s then Some (Inr (), s)
      else Some (Inr (), do_accept
        (if ec = No_error then
           (let c = sv_next s;
                cn = connection_new cmd (sv_now s) (word_of_int (sv_read_timeout s))
                       (sv_write_timeout s) (to_int32 (uint (sv_req_max_bytes s)))
            in manager_start c ((put_conn c cn s)\<lparr>sv_next := c + 1\<rparr>))
         else s)))"

definition do_await_stop :: "'d server \<Rightarrow> 'd server" where
  "do_await_stop s = post Await_stop s"

definition on_signal :: "'d server \<Rightarrow> ('d server, unit) call" where
  "on_signal s = Some (Inr (), manager_stop_all (s\<lparr>sv_acceptor_open := False\<rparr>))"

text \<open>\<open>bind\<close> is what resolving the address and opening the acceptor throws, if anything.\<close>

definition server_new :: "exn option \<Rightarrow> 'd store option \<Rightarrow> 'd \<Rightarrow> int \<Rightarrow> exn + 'd server" where
  "server_new bind db d now =
     (let s = \<lparr>sv_store = db, sv_db = d, sv_read_timeout = 0, sv_write_timeout = 0, sv_req_max_bytes = 0,
               sv_acceptor_open = False, sv_stopped = False, sv_pending = {#}, sv_heap = Map.empty,
               sv_next = 0, sv_connections = {}, sv_now = now\<rparr>;
          s1 = do_await_stop s
      in case bind of
           Some e \<Rightarrow> Inl e
         | None \<Rightarrow> Inr (do_accept (s1\<lparr>sv_acceptor_open := True\<rparr>)))"

definition set_read_timeout :: "int \<Rightarrow> 'd server \<Rightarrow> 'd server" where
  "set_read_timeout ms s = s\<lparr>sv_read_timeout := ms\<rparr>"

definition set_write_timeout :: "int \<Rightarrow> 'd server \<Rightarrow> 'd server" where
  "set_write_timeout ms s = s\<lparr>sv_write_timeout := ms\<rparr>"

definition set_max_request_bytes :: "size_t \<Rightarrow> 'd server \<Rightarrow> 'd server" where
  "set_max_request_bytes n s = s\<lparr>sv_req_max_bytes := n\<rparr>"

definition server_stop :: "'d server \<Rightarrow> 'd server" where
  "server_stop s = (if \<not> sv_stopped s then s\<lparr>sv_stopped := True\<rparr> else s)"

text \<open>
  \<open>run\<close> lets this many threads run \<open>io_service::run\<close>; what they do is the step relation of
  \<open>Server_Run\<close>. It returns when the \<open>io_service\<close> is stopped or has no operations left.
\<close>

definition run_threads :: "int \<Rightarrow> nat" where
  "run_threads n_threads = (if n_threads > 1 then nat n_threads else 1)"

definition run_returns :: "'d server \<Rightarrow> bool" where
  "run_returns s \<longleftrightarrow> sv_stopped s \<or> sv_pending s = {#}"

end
