(* ===== verification/Server_Run.thy ===== *)
theory Server_Run
  imports Server Request_Props
begin

text \<open>
  The running server: the step relation of the \<open>io_service\<close>, the invariant of its reachable
  states, and the lemmas that every handler keeps it.
\<close>

section \<open>Steps\<close>

text \<open>
  What Boost.Asio documents about completions. An operation on a socket that was started while
  the socket was closed fails; it is aborted only after the socket has been closed. A timer
  wait ends without an error only once the expiry time has come, and is aborted only when it
  was cancelled. Handlers run one at a time here.
\<close>

fun socket_result :: "bool \<Rightarrow> bool \<Rightarrow> error_code \<Rightarrow> bool" where
  "socket_result started_open open_now No_error = started_open"
| "socket_result started_open open_now Operation_aborted = (started_open \<and> \<not> open_now)"
| "socket_result started_open open_now Other_error = True"

fun timer_result :: "bool \<Rightarrow> int \<Rightarrow> int \<Rightarrow> error_code \<Rightarrow> bool" where
  "timer_result cancelled expiry now No_error = (expiry \<le> now)"
| "timer_result cancelled expiry now Operation_aborted = cancelled"
| "timer_result cancelled expiry now Other_error = False"

definition taken :: "async_op \<Rightarrow> 'd server \<Rightarrow> 'd server" where
  "taken a s = s\<lparr>sv_pending := sv_pending s - {#a#}\<rparr>"

text \<open>The completion handler of an operation, for the results the environment may give it.\<close>

inductive completes :: "async_op \<Rightarrow> 'd server \<Rightarrow> ('d server, unit) call \<Rightarrow> bool" where
  read_completes: "socket_result k (cn_open (conn s c)) ec \<Longrightarrow> length bytes \<le> 8192 \<Longrightarrow>
    completes (Read_some c k) s (on_read c ec bytes (taken (Read_some c k) s))"
| write_completes: "socket_result k (cn_open (conn s c)) ec \<Longrightarrow>
    completes (Write c k resp) s (on_write c ec (taken (Write c k resp) s))"
| read_wait_completes: "timer_result k (cn_read_expiry (conn s c)) (sv_now s) ec \<Longrightarrow>
    completes (Read_wait c k) s (on_wait c ec (taken (Read_wait c k) s))"
| write_wait_completes: "timer_result k (cn_write_expiry (conn s c)) (sv_now s) ec \<Longrightarrow>
    completes (Write_wait c k) s (on_wait c ec (taken (Write_wait c k) s))"
| accept_completes: "completes Accept s (on_accept cmd ec (taken Accept s))"
| signal_completes: "completes Await_stop s (on_signal (taken Await_stop s))"

inductive_cases completesE: "completes a s res"

inductive server_step :: "'d server \<Rightarrow> 'd server \<Rightarrow> bool" where
  complete: "\<not> sv_stopped s \<Longrightarrow> a \<in># sv_pending s \<Longrightarrow> completes a s (Some (Inr (), s')) \<Longrightarrow> server_step s s'"
| tick: "0 \<le> ms \<Longrightarrow> server_step s (s\<lparr>sv_now := sv_now s + ms\<rparr>)"
| read_timeout: "server_step s (set_read_timeout ms s)"
| write_timeout: "server_step s (set_write_timeout ms s)"
| max_request_bytes: "server_step s (set_max_request_bytes n s)"
| stop: "server_step s (server_stop s)"

inductive server_reach :: "'d store option \<Rightarrow> 'd \<Rightarrow> 'd server \<Rightarrow> bool" for db d where
  new: "server_new None db d now = Inr s \<Longrightarrow> server_reach db d s"
| step: "server_reach db d s \<Longrightarrow> server_step s s' \<Longrightarrow> server_reach db d s'"

section \<open>The invariant\<close>

text \<open>The reads and writes of a connection that are outstanding.\<close>

fun io_of :: "nat \<Rightarrow> async_op \<Rightarrow> bool" where
  "io_of c (Read_some c' k) = (c' = c)"
| "io_of c (Write c' k resp) = (c' = c)"
| "io_of c a = False"

fun op_below :: "nat \<Rightarrow> async_op \<Rightarrow> bool" where
  "op_below n (Read_some c k) = (c < n)"
| "op_below n (Write c k resp) = (c < n)"
| "op_below n (Read_wait c k) = (c < n)"
| "op_below n (Write_wait c k) = (c < n)"
| "op_below n a = True"

definition io_ops :: "'d server \<Rightarrow> nat \<Rightarrow> async_op multiset" where
  "io_ops s c = filter_mset (io_of c) (sv_pending s)"

text \<open>
  A connection with no outstanding operation is closed; a read is outstanding only while the
  request is being parsed, a write only for the response of a finished request that wants
  one. The operations of an open connection were started on an open socket.
\<close>

definition conn_inv :: "nat \<Rightarrow> async_op multiset \<Rightarrow> connection \<Rightarrow> bool" where
  "conn_inv c ops cn \<longleftrightarrow> rq_inv (cn_request cn) \<and>
     (ops = {#} \<and> \<not> cn_open cn \<or>
      (\<exists>k. ops = {#Read_some c k#} \<and> rq_status (cn_request cn) \<notin> {FINISHED, QUITTING} \<and> (cn_open cn \<longrightarrow> k)) \<or>
      (\<exists>k. ops = {#Write c k (rq_response (cn_request cn))#} \<and> rq_status (cn_request cn) = FINISHED \<and>
         \<not> rq_no_reply (cn_request cn) \<and> (\<exists>x. rq_response (cn_request cn) = x @ CRLF) \<and> (cn_open cn \<longrightarrow> k)))"

text \<open>
  The state of the whole server, over a predicate on each connection: \<open>conn_inv\<close> between
  handlers, and for the connection whose handler is running that it has no operation
  outstanding.
\<close>

definition server_inv_of :: "(nat \<Rightarrow> async_op multiset \<Rightarrow> connection \<Rightarrow> bool) \<Rightarrow> 'd server \<Rightarrow> bool" where
  "server_inv_of P s \<longleftrightarrow>
     dom (sv_heap s) = {..<sv_next s} \<and>
     (\<forall>a. a \<in># sv_pending s \<longrightarrow> op_below (sv_next s) a) \<and>
     (\<forall>c cn. sv_heap s c = Some cn \<longrightarrow> P c (io_ops s c) cn \<and> (cn_open cn \<longleftrightarrow> c \<in> sv_connections s)) \<and>
     sv_connections s \<subseteq> {..<sv_next s} \<and>
     (\<not> sv_acceptor_open s \<longrightarrow> sv_connections s = {})"

definition in_handler :: "nat \<Rightarrow> nat \<Rightarrow> async_op multiset \<Rightarrow> connection \<Rightarrow> bool" where
  "in_handler c c' ops cn \<longleftrightarrow>
     (if c' = c then ops = {#} \<and> rq_inv (cn_request cn) else conn_inv c' ops cn)"

abbreviation server_inv :: "'d server \<Rightarrow> bool" where
  "server_inv \<equiv> server_inv_of conn_inv"

abbreviation handler_inv :: "nat \<Rightarrow> 'd server \<Rightarrow> bool" where
  "handler_inv c \<equiv> server_inv_of (in_handler c)"

section \<open>Primitives\<close>

lemma io_ops_image_cancel: "filter_mset (io_of c) (image_mset (cancel_wait c' rd) M) = filter_mset (io_of c) M"
proof (induction M)
  case (add a M)
  then show ?case by (cases rd; cases a) auto
qed simp

lemma op_below_cancel: "op_below n (cancel_wait c rd a) = op_below n a"
  by (cases rd; cases a) auto

lemma io_ops_simps [simp]:
  "io_ops (post a s) c = (if io_of c a then add_mset a (io_ops s c) else io_ops s c)"
  "io_ops (put_conn c' cn s) c = io_ops s c"
  "io_ops (cancel_read_timer c' s) c = io_ops s c"
  "io_ops (cancel_write_timer c' s) c = io_ops s c"
  "io_ops (s\<lparr>sv_db := d\<rparr>) c = io_ops s c"
  "io_ops (s\<lparr>sv_connections := C\<rparr>) c = io_ops s c"
  "io_ops (s\<lparr>sv_next := n\<rparr>) c = io_ops s c"
  "io_ops (s\<lparr>sv_acceptor_open := b\<rparr>) c = io_ops s c"
  "io_ops (s\<lparr>sv_now := t\<rparr>) c = io_ops s c"
  by (simp_all add: io_ops_def post_def put_conn_def cancel_read_timer_def cancel_write_timer_def io_ops_image_cancel)

lemma server_simps [simp]:
  "sv_heap (post a s) = sv_heap s" "sv_next (post a s) = sv_next s"
  "sv_connections (post a s) = sv_connections s" "sv_acceptor_open (post a s) = sv_acceptor_open s"
  "sv_pending (post a s) = add_mset a (sv_pending s)" "sv_db (post a s) = sv_db s" "sv_store (post a s) = sv_store s"
  "sv_heap (put_conn c cn s) = (sv_heap s)(c \<mapsto> cn)" "sv_next (put_conn c cn s) = sv_next s"
  "sv_connections (put_conn c cn s) = sv_connections s" "sv_acceptor_open (put_conn c cn s) = sv_acceptor_open s"
  "sv_pending (put_conn c cn s) = sv_pending s" "sv_db (put_conn c cn s) = sv_db s" "sv_store (put_conn c cn s) = sv_store s"
  "sv_heap (cancel_read_timer c s) = sv_heap s" "sv_next (cancel_read_timer c s) = sv_next s"
  "sv_heap (cancel_write_timer c s) = sv_heap s" "sv_next (cancel_write_timer c s) = sv_next s"
  "sv_heap (taken a s) = sv_heap s" "sv_next (taken a s) = sv_next s"
  "sv_connections (taken a s) = sv_connections s" "sv_acceptor_open (taken a s) = sv_acceptor_open s"
  "sv_pending (taken a s) = sv_pending s - {#a#}" "sv_db (taken a s) = sv_db s" "sv_store (taken a s) = sv_store s"
  by (simp_all add: post_def put_conn_def cancel_read_timer_def cancel_write_timer_def taken_def)

lemma conn_simps [simp]:
  "conn (post a s) c = conn s c"
  "conn (put_conn c' cn s) c = (if c = c' then cn else conn s c)"
  "conn (s\<lparr>sv_db := d\<rparr>) c = conn s c"
  "conn (s\<lparr>sv_connections := C\<rparr>) c = conn s c"
  "conn (cancel_read_timer c' s) c = conn s c"
  "conn (cancel_write_timer c' s) c = conn s c"
  "conn (taken a s) c = conn s c"
  by (simp_all add: conn_def post_def put_conn_def cancel_read_timer_def cancel_write_timer_def taken_def)

lemma conn_inv_closed: "conn_inv c ops cn \<Longrightarrow> conn_inv c ops (cn\<lparr>cn_open := False\<rparr>)"
  by (auto simp: conn_inv_def)

lemma conn_inv_new: "conn_inv c {#Read_some c True#} (connection_new cmd now m rt wt)"
  by (auto simp: conn_inv_def connection_new_def rq_inv_fresh request_new_def fresh_def)

section \<open>Invariant of the primitives\<close>

named_theorems inv_intros

lemma server_inv_ofI:
  assumes "dom (sv_heap s) = {..<sv_next s}" "\<And>a. a \<in># sv_pending s \<Longrightarrow> op_below (sv_next s) a"
    and "\<And>c cn. sv_heap s c = Some cn \<Longrightarrow> P c (io_ops s c) cn"
    and "\<And>c cn. sv_heap s c = Some cn \<Longrightarrow> cn_open cn \<longleftrightarrow> c \<in> sv_connections s"
    and "sv_connections s \<subseteq> {..<sv_next s}" "\<not> sv_acceptor_open s \<Longrightarrow> sv_connections s = {}"
  shows "server_inv_of P s"
  using assms by (simp add: server_inv_of_def)

lemma server_inv_ofD:
  assumes "server_inv_of P s"
  shows "dom (sv_heap s) = {..<sv_next s}" "a \<in># sv_pending s \<Longrightarrow> op_below (sv_next s) a"
    and "sv_heap s c = Some cn \<Longrightarrow> P c (io_ops s c) cn"
    and "sv_heap s c = Some cn \<Longrightarrow> cn_open cn \<longleftrightarrow> c \<in> sv_connections s"
    and "sv_connections s \<subseteq> {..<sv_next s}" "\<not> sv_acceptor_open s \<Longrightarrow> sv_connections s = {}"
  using assms by (simp_all add: server_inv_of_def)

lemma inv_db [inv_intros]: "server_inv_of P s \<Longrightarrow> server_inv_of P (s\<lparr>sv_db := d\<rparr>)"
  by (simp add: server_inv_of_def)

lemma inv_post_wait [inv_intros]:
  assumes "server_inv_of P s" "op_below (sv_next s) a" "\<And>c. \<not> io_of c a"
  shows "server_inv_of P (post a s)"
  using assms by (auto simp: server_inv_of_def)

lemma inv_cancel [inv_intros]:
  assumes "server_inv_of P s"
  shows "server_inv_of P (cancel_read_timer c s)" "server_inv_of P (cancel_write_timer c s)"
proof -
  have "server_inv_of P (s\<lparr>sv_pending := image_mset (cancel_wait c rd) (sv_pending s)\<rparr>)" for rd
    using assms by (auto simp: server_inv_of_def io_ops_def io_ops_image_cancel op_below_cancel)
  then show "server_inv_of P (cancel_read_timer c s)" "server_inv_of P (cancel_write_timer c s)"
    by (simp_all add: cancel_read_timer_def cancel_write_timer_def)
qed

lemma inv_heap:
  assumes "server_inv_of P s" "c < sv_next s"
  shows "sv_heap s c = Some (conn s c)" "P c (io_ops s c) (conn s c)"
    "cn_open (conn s c) \<longleftrightarrow> c \<in> sv_connections s"
proof -
  show h: "sv_heap s c = Some (conn s c)"
    using server_inv_ofD(1) [OF assms(1)] assms(2) by (metis conn_def domIff lessThan_iff option.collapse)
  show "P c (io_ops s c) (conn s c)" "cn_open (conn s c) \<longleftrightarrow> c \<in> sv_connections s"
    using server_inv_ofD(3,4) [OF assms(1) h] by blast+
qed

lemma inv_put_conn [inv_intros]:
  assumes "handler_inv c s" "c < sv_next s" "cn_open cn = cn_open (conn s c)" "rq_inv (cn_request cn)"
  shows "handler_inv c (put_conn c cn s)"
  using assms(1,3,4) inv_heap [OF assms(1,2)] assms(2)
  by (auto simp: server_inv_of_def in_handler_def split: if_splits)

lemma inv_reset [inv_intros]:
  assumes "handler_inv c s" "c < sv_next s"
  shows "handler_inv c (reset_request c s)"
  unfolding reset_request_def using assms
  by (intro inv_put_conn) (simp_all add: rq_inv_fresh fresh_def request_reset_def)

lemma inv_stop [inv_intros]:
  assumes "server_inv_of P s" "c < sv_next s"
    and "P = conn_inv \<or> P = in_handler c"
  shows "server_inv (manager_stop c s)"
proof -
  have P: "conn_inv c (io_ops s c) ((conn s c)\<lparr>cn_open := False\<rparr>)"
    using inv_heap(2) [OF assms(1,2)] assms(3)
    by (auto simp: in_handler_def conn_inv_closed) (simp add: conn_inv_def)
  show ?thesis
    using assms P by (auto simp: server_inv_of_def manager_stop_def conn_stop_def in_handler_def split: if_splits)
qed

text \<open>The handler ends by starting the next operation of its connection.\<close>

lemma inv_post_io:
  assumes "handler_inv c s" "c < sv_next s" "io_of c a" "conn_inv c {#a#} (conn s c)"
  shows "server_inv (post a s)"
proof -
  have other: "io_of c' a \<Longrightarrow> c' = c" for c' using assms(3) by (cases a) auto
  have below: "op_below (sv_next s) a" using assms(2,3) by (cases a) auto
  show ?thesis
  proof (rule server_inv_ofI)
    fix c' cn assume h: "sv_heap (post a s) c' = Some cn"
    show "conn_inv c' (io_ops (post a s) c') cn"
    proof (cases "c' = c")
      case True
      with h assms inv_heap(1,2) [OF assms(1,2)] show ?thesis by (simp add: in_handler_def)
    next
      case False
      with h other [of c'] server_inv_ofD(3) [OF assms(1), of c' cn] show ?thesis by (auto simp: in_handler_def)
    qed
    show "cn_open cn \<longleftrightarrow> c' \<in> sv_connections (post a s)"
      using h server_inv_ofD(4) [OF assms(1), of c' cn] by simp
  qed (use server_inv_ofD(1,2,5,6) [OF assms(1)] below in auto)
qed

lemma inv_do_read [inv_intros]:
  assumes "handler_inv c s" "c < sv_next s" "rq_status (cn_request (conn s c)) \<notin> {FINISHED, QUITTING}"
  shows "server_inv (do_read c s)"
  using assms inv_heap(2) [OF assms(1,2)] unfolding do_read_def
  by (intro inv_post_io) (auto simp: conn_inv_def in_handler_def)

lemma inv_start [inv_intros]:
  assumes "handler_inv c s" "c < sv_next s" "rq_status (cn_request (conn s c)) \<notin> {FINISHED, QUITTING}"
  shows "server_inv (conn_start c s)"
  using inv_do_read [OF assms] assms(2)
  by (auto simp: conn_start_def Let_def do_read_def intro!: inv_post_wait)

lemma inv_restart:
  assumes "handler_inv c s" "c < sv_next s"
  shows "server_inv (conn_start c (reset_request c (cancel_write_timer c s)))"
proof -
  let ?s = "cancel_write_timer c s"
  have "handler_inv c ?s" "c < sv_next ?s" using assms by (auto intro: inv_intros)
  then show ?thesis
    by (intro inv_start inv_reset) (simp_all add: reset_request_def request_reset_def)
qed

lemma conn_inv_single: "conn_inv c ops cn \<Longrightarrow> a \<in># ops \<Longrightarrow> ops = {#a#}"
  by (auto simp: conn_inv_def)

lemma conn_inv_rq: "conn_inv c ops cn \<Longrightarrow> rq_inv (cn_request cn)"
  by (simp add: conn_inv_def)

lemma inv_taken_io:
  assumes "server_inv s" "a \<in># sv_pending s" "io_of c a"
  shows "handler_inv c (taken a s)" "c < sv_next s" "conn_inv c {#a#} (conn s c)"
proof -
  have other: "io_of c' a \<Longrightarrow> c' = c" for c' using assms(3) by (cases a) auto
  show c: "c < sv_next s" using server_inv_ofD(2) [OF assms(1,2)] assms(3) by (cases a) auto
  have P: "conn_inv c (io_ops s c) (conn s c)" by (rule inv_heap(2) [OF assms(1) c])
  have "a \<in># io_ops s c" using assms(2,3) by (simp add: io_ops_def)
  with P have single: "io_ops s c = {#a#}" by (rule conn_inv_single)
  with P show "conn_inv c {#a#} (conn s c)" by simp
  have ops: "io_ops (taken a s) c' = (if c' = c then {#} else io_ops s c')" for c'
  proof -
    have "io_ops (taken a s) c' = io_ops s c' - filter_mset (io_of c') {#a#}"
      by (simp add: io_ops_def taken_def)
    moreover have "filter_mset (io_of c') {#a#} = (if c' = c then {#a#} else {#})"
      using other [of c'] assms(3) by (cases "io_of c' a") auto
    ultimately show ?thesis using single by (simp split: if_splits)
  qed
  show "handler_inv c (taken a s)"
  proof (rule server_inv_ofI)
    fix c' cn assume "sv_heap (taken a s) c' = Some cn"
    then have h: "sv_heap s c' = Some cn" by (simp add: taken_def)
    show "in_handler c c' (io_ops (taken a s) c') cn"
      using server_inv_ofD(3) [OF assms(1) h] conn_inv_rq by (simp add: in_handler_def ops)
    show "cn_open cn \<longleftrightarrow> c' \<in> sv_connections (taken a s)"
      using server_inv_ofD(4) [OF assms(1) h] by (simp add: taken_def)
  next
    fix b assume "b \<in># sv_pending (taken a s)"
    then show "op_below (sv_next (taken a s)) b"
      using server_inv_ofD(2) [OF assms(1) in_diffD, of b "{#a#}"] by (simp add: taken_def)
  qed (use server_inv_ofD(1,5,6) [OF assms(1)] in \<open>simp_all add: taken_def\<close>)
qed


lemma inv_taken_other [inv_intros]:
  assumes "server_inv s" "\<And>c. \<not> io_of c a"
  shows "server_inv (taken a s)"
proof -
  have ops: "io_ops (taken a s) c = io_ops s c" for c
    using assms(2) [of c] by (simp add: io_ops_def taken_def)
  show ?thesis
  proof (rule server_inv_ofI)
    fix b assume "b \<in># sv_pending (taken a s)"
    then show "op_below (sv_next (taken a s)) b"
      using server_inv_ofD(2) [OF assms(1) in_diffD, of b "{#a#}"] by (simp add: taken_def)
  next
    fix c cn assume "sv_heap (taken a s) c = Some cn"
    then have "sv_heap s c = Some cn" by (simp add: taken_def)
    from server_inv_ofD(3,4) [OF assms(1) this]
    show "conn_inv c (io_ops (taken a s) c) cn" "cn_open cn \<longleftrightarrow> c \<in> sv_connections (taken a s)"
      by (simp_all add: ops)
  qed (use server_inv_ofD(1,5,6) [OF assms(1)] in \<open>simp_all add: taken_def\<close>)
qed

text \<open>A handler whose connection is closed may end without starting anything.\<close>

lemma inv_leave:
  assumes "handler_inv c s" "c < sv_next s" "\<not> cn_open (conn s c)"
  shows "server_inv s"
proof (rule server_inv_ofI)
  fix c' cn assume h: "sv_heap s c' = Some cn"
  show "conn_inv c' (io_ops s c') cn"
    using server_inv_ofD(3) [OF assms(1) h] inv_heap(1) [OF assms(1,2)] assms(3) h
    by (cases "c' = c") (simp_all add: in_handler_def conn_inv_def)
qed (use server_inv_ofD [OF assms(1)] in auto)

lemma inv_stop_all [inv_intros]:
  assumes "server_inv s"
  shows "server_inv (manager_stop_all s)"
proof (rule server_inv_ofI)
  fix c cn assume "sv_heap (manager_stop_all s) c = Some cn"
  then obtain cn0 where h: "sv_heap s c = Some cn0"
    and cn: "cn = (if c \<in> sv_connections s then cn0\<lparr>cn_open := False\<rparr> else cn0)"
    by (auto simp: manager_stop_all_def split: if_splits)
  have "io_ops (manager_stop_all s) c = io_ops s c" by (simp add: manager_stop_all_def io_ops_def)
  with server_inv_ofD(3) [OF assms h] show "conn_inv c (io_ops (manager_stop_all s) c) cn"
    by (simp add: cn conn_inv_closed)
  show "cn_open cn \<longleftrightarrow> c \<in> sv_connections (manager_stop_all s)"
    using server_inv_ofD(4) [OF assms h] by (simp add: cn manager_stop_all_def)
next
  show "dom (sv_heap (manager_stop_all s)) = {..<sv_next (manager_stop_all s)}"
    using server_inv_ofD(1) [OF assms] by (auto simp: manager_stop_all_def dom_def split: if_splits)
next
  fix a assume "a \<in># sv_pending (manager_stop_all s)"
  then show "op_below (sv_next (manager_stop_all s)) a"
    using server_inv_ofD(2) [OF assms] by (simp add: manager_stop_all_def)
qed (simp_all add: manager_stop_all_def)


section \<open>Invariant of the handlers\<close>

lemma on_read_inv:
  assumes I: "server_inv s" and a: "Read_some c k \<in># sv_pending s"
    and r: "socket_result k (cn_open (conn s c)) ec"
    and res: "on_read c ec bytes (taken (Read_some c k) s) = Some (res, s')"
  shows "res = Inr ()" "server_inv s'"
proof -
  let ?s = "taken (Read_some c k) s"
  note t = inv_taken_io [OF I a, of c, simplified]
  have next_t: "c < sv_next ?s" using t(2) by (simp add: taken_def)
  have c: "rq_inv (cn_request (conn s c))" "rq_status (cn_request (conn s c)) \<noteq> FINISHED"
    using t(3) by (auto simp: conn_inv_def)
  have "res = Inr () \<and> server_inv s'"
  proof (cases ec)
    case No_error
    then obtain q d where p: "process (sv_store ?s) (sv_db ?s) (cn_request (conn s c)) bytes = Some (q, d)"
      using res by (auto simp: on_read_def split: option.splits)
    note q = process_inv [OF p c(1)]
    define s1 where "s1 = put_conn c ((conn ?s c)\<lparr>cn_request := q\<rparr>) (?s\<lparr>sv_db := d\<rparr>)"
    have s1: "handler_inv c s1" "c < sv_next s1" "cn_request (conn s1 c) = q"
      using t(1) next_t q by (auto simp: s1_def intro!: inv_intros)
    define s3 where "s3 = (if cn_write_timeout (conn s1 c) > 0 then post (Write_wait c False) (cancel_read_timer c s1)
      else cancel_read_timer c s1)"
    have s3: "handler_inv c s3" "c < sv_next s3" "cn_request (conn s3 c) = q"
      using s1 by (auto simp: s3_def intro!: inv_intros)
    show ?thesis
    proof (cases "rq_status q = FINISHED")
      case True
      then obtain x where x: "rq_response q = x @ CRLF" using process_ends [OF p c(2)] by blast
      show ?thesis
      proof (cases "rq_no_reply q")
        case noreply: True
        have "res = Inr ()" "s' = conn_start c (reset_request c (cancel_write_timer c s3))"
          using res p True noreply No_error by (auto simp: on_read_def s1_def s3_def Let_def)
        then show ?thesis using inv_restart [OF s3(1,2)] by simp
      next
        case False
        have "do_write c s3 = Some (res, s')"
          using res p True False No_error by (simp add: on_read_def s1_def s3_def Let_def split: if_splits)
        then have "res = Inr ()" "s' = post (Write c (cn_open (conn s3 c)) (rq_response q)) s3"
          using s3(3) True by (auto simp: do_write_def get_response_def)
        then show ?thesis
          using s3 q True False x by (auto intro!: inv_post_io simp: conn_inv_def)
      qed
    next
      case False
      then have "res = Inr ()" "s' = (if rq_status q = QUITTING then manager_stop c s1 else do_read c s1)"
        using res p No_error by (auto simp: on_read_def s1_def Let_def split: status_type.splits)
      then show ?thesis using s1 False inv_stop [OF s1(1,2)] inv_do_read [OF s1(1,2)] by simp
    qed
  next
    case Operation_aborted
    with res r t(1) next_t show ?thesis by (auto simp: on_read_def intro!: inv_leave [of c])
  next
    case Other_error
    with res t(1) next_t show ?thesis by (auto simp: on_read_def intro!: inv_intros)
  qed
  then show "res = Inr ()" "server_inv s'" by blast+
qed

lemma on_write_inv:
  assumes I: "server_inv s" and a: "Write c k resp \<in># sv_pending s"
    and r: "socket_result k (cn_open (conn s c)) ec"
    and res: "on_write c ec (taken (Write c k resp) s) = Some (res, s')"
  shows "res = Inr ()" "server_inv s'"
proof -
  let ?s = "taken (Write c k resp) s"
  note t = inv_taken_io [OF I a, of c, simplified]
  have next_t: "c < sv_next ?s" using t(2) by (simp add: taken_def)
  show "res = Inr ()" using res by (auto simp: on_write_def split: if_splits)
  show "server_inv s'"
  proof (cases ec)
    case No_error
    then have "s' = conn_start c (reset_request c (cancel_write_timer c ?s))"
      using res by (simp add: on_write_def)
    with inv_restart [OF t(1) next_t] show ?thesis by simp
  next
    case Operation_aborted
    with res r t(1) next_t show ?thesis by (auto simp: on_write_def intro!: inv_leave [of c])
  next
    case Other_error
    with res t(1) next_t show ?thesis by (auto simp: on_write_def intro!: inv_intros)
  qed
qed


lemma on_wait_inv:
  assumes "server_inv s" "a \<in># sv_pending s" "a = Read_wait c k \<or> a = Write_wait c k"
    and "on_wait c ec (taken a s) = Some (res, s')"
  shows "res = Inr ()" "server_inv s'"
proof -
  have "server_inv (taken a s)" using assms(1,3) by (intro inv_intros) auto
  moreover have "c < sv_next (taken a s)" using server_inv_ofD(2) [OF assms(1,2)] assms(3) by auto
  ultimately show "res = Inr ()" "server_inv s'"
    using assms(4) inv_stop [of conn_inv "taken a s" c] by (auto simp: on_wait_def split: if_splits)
qed

text \<open>Allocating a connection: it belongs to the manager from the start.\<close>

lemma inv_new_conn:
  assumes "server_inv s" "sv_acceptor_open s" "cn_open cn" "rq_inv (cn_request cn)"
  defines "c \<equiv> sv_next s"
  shows "handler_inv c ((put_conn c cn s)\<lparr>sv_next := c + 1, sv_connections := insert c (sv_connections s)\<rparr>)"
    (is "handler_inv c ?s")
proof (rule server_inv_ofI)
  have none: "io_ops s c = {#}"
  proof -
    have "\<not> io_of c a" if "a \<in># sv_pending s" for a
      using server_inv_ofD(2) [OF assms(1) that] by (cases a) (auto simp: c_def)
    then show ?thesis by (simp add: io_ops_def filter_mset_eq_conv set_mset_eq_empty_iff [symmetric] del: set_mset_eq_empty_iff)
  qed
  fix c' cn' assume h: "sv_heap ?s c' = Some cn'"
  have ops: "io_ops ?s c' = io_ops s c'" by (simp add: io_ops_def)
  show "in_handler c c' (io_ops ?s c') cn'" "cn_open cn' \<longleftrightarrow> c' \<in> sv_connections ?s"
    unfolding ops using h none assms(3,4) server_inv_ofD(3,4) [OF assms(1), of c' cn']
    by (auto simp: in_handler_def split: if_splits)
next
  show "dom (sv_heap ?s) = {..<sv_next ?s}"
    using server_inv_ofD(1) [OF assms(1)] by (auto simp: c_def)
next
  fix a assume "a \<in># sv_pending ?s"
  then show "op_below (sv_next ?s) a"
    using server_inv_ofD(2) [OF assms(1), of a] by (cases a) (auto simp: c_def)
qed (use server_inv_ofD(5) [OF assms(1)] assms(2) in \<open>auto simp: c_def\<close>)

lemma on_accept_inv:
  assumes "server_inv s" "on_accept cmd ec (taken Accept s) = Some (res, s')"
  shows "res = Inr ()" "server_inv s'"
proof -
  let ?s = "taken Accept s"
  have t: "server_inv ?s" using assms(1) by (intro inv_intros) auto
  show "res = Inr ()" using assms(2) by (auto simp: on_accept_def split: if_splits)
  show "server_inv s'"
  proof (cases "sv_acceptor_open ?s \<and> ec = No_error")
    case False
    with assms(2) t show ?thesis
      by (auto simp: on_accept_def do_accept_def split: if_splits intro!: inv_intros)
  next
    case True
    let ?cn = "connection_new cmd (sv_now ?s) (word_of_int (sv_read_timeout ?s)) (sv_write_timeout ?s)
      (to_int32 (uint (sv_req_max_bytes ?s)))"
    let ?c = "sv_next ?s"
    let ?s1 = "(put_conn ?c ?cn ?s)\<lparr>sv_next := ?c + 1, sv_connections := insert ?c (sv_connections ?s)\<rparr>"
    have "handler_inv ?c ?s1"
      using True by (intro inv_new_conn t) (auto simp: connection_new_def rq_inv_fresh request_new_def fresh_def)
    moreover have "?c < sv_next ?s1" "conn ?s1 ?c = ?cn" by (simp_all add: conn_def)
    ultimately have "server_inv (conn_start ?c ?s1)"
      by (intro inv_start) (simp_all add: connection_new_def request_new_def)
    moreover have "s' = do_accept (conn_start ?c ?s1)"
      using assms(2) True by (auto simp: on_accept_def Let_def manager_start_def)
    ultimately show ?thesis by (auto simp: do_accept_def intro!: inv_post_wait)
  qed
qed


lemma on_signal_inv:
  assumes "server_inv s" "on_signal (taken Await_stop s) = Some (res, s')"
  shows "res = Inr ()" "server_inv s'"
proof -
  let ?s = "manager_stop_all (taken Await_stop s)"
  have I: "server_inv ?s" using assms(1) by (intro inv_intros) auto
  have "s' = ?s\<lparr>sv_acceptor_open := False\<rparr>"
    using assms(2) by (auto simp: on_signal_def manager_stop_all_def taken_def cong: if_cong)
  then show "server_inv s'"
    using I by (simp add: server_inv_of_def) (simp add: manager_stop_all_def)
  show "res = Inr ()" using assms(2) by (simp add: on_signal_def)
qed

lemma completes_inv:
  assumes "completes a s res" "a \<in># sv_pending s" "server_inv s" "res = Some (r, s')"
  shows "r = Inr () \<and> server_inv s'"
  using assms
proof cases
  case (read_completes k c ec bytes)
  with on_read_inv [of s c k ec bytes r s'] assms show ?thesis by simp
next
  case (write_completes k c ec resp)
  with on_write_inv [of s c k resp ec r s'] assms show ?thesis by simp
next
  case (read_wait_completes k c ec)
  with on_wait_inv [of s a c k ec r s'] assms show ?thesis by simp
next
  case (write_wait_completes k c ec)
  with on_wait_inv [of s a c k ec r s'] assms show ?thesis by simp
next
  case (accept_completes cmd ec)
  with on_accept_inv [of s cmd ec r s'] assms show ?thesis by simp
next
  case signal_completes
  with on_signal_inv [of s r s'] assms show ?thesis by simp
qed

lemma server_step_inv: "server_step s s' \<Longrightarrow> server_inv s \<Longrightarrow> server_inv s'"
proof (induction rule: server_step.induct)
  case (complete s a s')
  then show ?case using completes_inv by blast
qed (auto simp: server_inv_of_def io_ops_def set_read_timeout_def set_write_timeout_def
    set_max_request_bytes_def server_stop_def)

lemma server_new_inv: "server_new None db d now = Inr s \<Longrightarrow> server_inv s"
  by (auto simp: server_new_def Let_def do_await_stop_def do_accept_def post_def server_inv_of_def)

lemma server_reach_inv: "server_reach db d s \<Longrightarrow> server_inv s"
  by (induction rule: server_reach.induct) (auto intro: server_new_inv server_step_inv)

section \<open>The store\<close>

text \<open>The handlers reach the store only through the request.\<close>

lemma handler_store [simp]:
  "sv_store (conn_start c s) = sv_store s" "sv_db (conn_start c s) = sv_db s"
  "sv_store (conn_stop c s) = sv_store s" "sv_db (conn_stop c s) = sv_db s"
  "sv_store (reset_request c s) = sv_store s" "sv_db (reset_request c s) = sv_db s"
  "sv_store (manager_start c s) = sv_store s" "sv_db (manager_start c s) = sv_db s"
  "sv_store (manager_stop c s) = sv_store s" "sv_db (manager_stop c s) = sv_db s"
  "sv_store (cancel_read_timer c s) = sv_store s" "sv_db (cancel_read_timer c s) = sv_db s"
  "sv_store (cancel_write_timer c s) = sv_store s" "sv_db (cancel_write_timer c s) = sv_db s"
  "sv_store (do_read c s) = sv_store s" "sv_db (do_read c s) = sv_db s"
  by (simp_all add: conn_start_def conn_stop_def reset_request_def manager_start_def manager_stop_def
      cancel_read_timer_def cancel_write_timer_def do_read_def Let_def)

definition store_good :: "'d store \<Rightarrow> ('d \<Rightarrow> bool) \<Rightarrow> 'd server \<Rightarrow> bool" where
  "store_good st good s \<longleftrightarrow> sv_store s = Some st \<and> good (sv_db s)"

lemma on_read_store:
  assumes "on_read c ec bytes s = Some (res, s')"
  shows "sv_store s' = sv_store s"
    and "sv_db s' = sv_db s \<or>
      (\<exists>q. process (sv_store s) (sv_db s) (cn_request (conn s c)) bytes = Some (q, sv_db s'))"
  using assms
  by (auto simp: on_read_def do_write_def Let_def split: if_splits option.splits status_type.splits sum.splits)

lemma completes_store:
  assumes "completes a s res" "res = Some (r, s')"
  shows "sv_store s' = sv_store s"
    and "sv_db s' = sv_db s \<or>
      (\<exists>c k q bytes. a = Read_some c k \<and>
         process (sv_store s) (sv_db s) (cn_request (conn s c)) bytes = Some (q, sv_db s'))"
proof -
  have "sv_store s' = sv_store s \<and> (sv_db s' = sv_db s \<or>
      (\<exists>c k q bytes. a = Read_some c k \<and>
         process (sv_store s) (sv_db s) (cn_request (conn s c)) bytes = Some (q, sv_db s')))"
    using assms
  proof cases
    case (read_completes k c ec bytes)
    with on_read_store [of c ec bytes "taken a s" r s'] assms show ?thesis by auto
  qed (auto simp: on_write_def on_wait_def on_accept_def on_signal_def do_accept_def manager_stop_all_def Let_def
      split: if_splits)
  then show "sv_store s' = sv_store s" "sv_db s' = sv_db s \<or>
      (\<exists>c k q bytes. a = Read_some c k \<and>
         process (sv_store s) (sv_db s) (cn_request (conn s c)) bytes = Some (q, sv_db s'))" by blast+
qed

lemma pending_read_rq_inv:
  assumes "server_inv s" "Read_some c k \<in># sv_pending s"
  shows "rq_inv (cn_request (conn s c))"
  using inv_taken_io(3) [OF assms, of c] conn_inv_rq by simp

context store_contract
begin

lemma completes_store_good:
  assumes "completes a x (Some (r, x'))" "a \<in># sv_pending x" "server_inv x" "store_good s (\<lambda>d. inv d \<and> \<not> held d) x"
  shows "store_good s (\<lambda>d. inv d \<and> \<not> held d) x'"
proof -
  note st = completes_store [OF assms(1) refl]
  from st(2) show ?thesis
  proof
    assume "sv_db x' = sv_db x"
    with st(1) assms(4) show ?thesis by (simp add: store_good_def)
  next
    assume "\<exists>c k q bytes. a = Read_some c k \<and>
      process (sv_store x) (sv_db x) (cn_request (conn x c)) bytes = Some (q, sv_db x')"
    then obtain c k q bytes where p: "a = Read_some c k"
      "process (sv_store x) (sv_db x) (cn_request (conn x c)) bytes = Some (q, sv_db x')" by blast
    have "rq_inv (cn_request (conn x c))"
      using assms(2,3) p(1) pending_read_rq_inv by blast
    with process_returns [of "sv_db x" "cn_request (conn x c)" bytes] assms(4) p st(1)
    show ?thesis by (auto simp: store_good_def)
  qed
qed

lemma server_step_store:
  assumes "server_step x x'" "server_inv x" "store_good s (\<lambda>d. inv d \<and> \<not> held d) x"
  shows "store_good s (\<lambda>d. inv d \<and> \<not> held d) x'"
  using assms
proof cases
  case (complete a)
  then show ?thesis using completes_store_good assms(2,3) by blast
qed (use assms(3) in \<open>auto simp: store_good_def set_read_timeout_def set_write_timeout_def
    set_max_request_bytes_def server_stop_def\<close>)

lemma server_reach_store:
  assumes "server_reach (Some s) d x" "inv d" "\<not> held d"
  shows "store_good s (\<lambda>d. inv d \<and> \<not> held d) x"
  using assms
proof (induction rule: server_reach.induct)
  case (new now x)
  then show ?case by (auto simp: server_new_def store_good_def Let_def do_await_stop_def do_accept_def post_def)
next
  case (step x x')
  then show ?case using server_step_store [OF step.hyps(2) server_reach_inv [OF step.hyps(1)]] by simp
qed

text \<open>The handler of every outstanding operation returns normally.\<close>

lemma completes_returns:
  assumes "completes a x res" "a \<in># sv_pending x" "server_inv x" "store_good s (\<lambda>d. inv d \<and> \<not> held d) x"
  shows "\<exists>x'. res = Some (Inr (), x')"
proof -
  have "res \<noteq> None"
    using assms(1)
  proof cases
    case (read_completes k c ec bytes)
    then have "rq_inv (cn_request (conn x c))" using pending_read_rq_inv assms(2,3) by blast
    then have "\<exists>q d. process (Some s) (sv_db x) (cn_request (conn x c)) bytes = Some (q, d)"
      using process_returns [of "sv_db x" "cn_request (conn x c)" bytes] assms(4)
      by (auto simp: store_good_def)
    with read_completes assms(4) show ?thesis
      by (auto simp: on_read_def store_good_def do_write_def Let_def split: status_type.splits sum.splits)
  qed (auto simp: on_write_def on_wait_def on_accept_def on_signal_def)
  then obtain r x' where "res = Some (r, x')" by auto
  with completes_inv [OF assms(1-3)] show ?thesis by blast
qed

end

end
