(* ===== verification/Server_Props.thy ===== *)
theory Server_Props
  imports Server_Run Rocks_Props
begin

text \<open>
  Properties of the running server: handlers return, an open connection always has exactly one
  operation outstanding, shutting down closes every connection and lets \<open>run\<close> return, and
  what a connection's limits and deadlines really are.
\<close>

section \<open>Draining\<close>

text \<open>
  How many more handlers an outstanding operation can cause to run once every socket is
  closed: an operation that was started before may still succeed and start another one, which
  then fails.
\<close>

fun op_work :: "async_op \<Rightarrow> nat" where
  "op_work (Read_some c k) = (if k then 4 else 1)"
| "op_work (Write c k resp) = (if k then 3 else 1)"
| "op_work a = 1"

definition server_work :: "'d server \<Rightarrow> nat" where
  "server_work s = sum_mset (image_mset op_work (sv_pending s))"

definition all_closed :: "'d server \<Rightarrow> bool" where
  "all_closed s \<longleftrightarrow> \<not> sv_acceptor_open s \<and> (\<forall>c cn. sv_heap s c = Some cn \<longrightarrow> \<not> cn_open cn)"

lemma op_work_cancel: "op_work (cancel_wait c rd a) = op_work a"
  by (cases rd; cases a) auto

lemma work_simps [simp]:
  "server_work (post a s) = op_work a + server_work s"
  "server_work (put_conn c cn s) = server_work s"
  "server_work (s\<lparr>sv_db := d\<rparr>) = server_work s"
  "server_work (s\<lparr>sv_connections := C\<rparr>) = server_work s"
  "server_work (cancel_read_timer c s) = server_work s"
  "server_work (cancel_write_timer c s) = server_work s"
  "server_work (reset_request c s) = server_work s"
  "server_work (manager_stop c s) = server_work s"
  "server_work (manager_stop_all s) = server_work s"
  by (simp_all add: server_work_def cancel_read_timer_def cancel_write_timer_def reset_request_def
      manager_stop_def conn_stop_def manager_stop_all_def image_mset.compositionality comp_def op_work_cancel)

lemma work_taken: "a \<in># sv_pending s \<Longrightarrow> op_work a + server_work (taken a s) = server_work s"
  by (auto simp: server_work_def dest!: multi_member_split)

lemma work_start: "\<not> cn_open (conn s c) \<Longrightarrow> server_work (conn_start c s) \<le> 2 + server_work s"
  by (simp add: conn_start_def do_read_def Let_def)

lemma on_read_work:
  assumes "on_read c ec bytes s = Some (r, s')" "\<not> cn_open (conn s c)"
  shows "server_work s' \<le> 3 + server_work s" "ec \<noteq> No_error \<Longrightarrow> server_work s' \<le> server_work s"
proof -
  show "ec \<noteq> No_error \<Longrightarrow> server_work s' \<le> server_work s"
    using assms(1) by (auto simp: on_read_def split: if_splits)
  show "server_work s' \<le> 3 + server_work s"
    using assms
    by (auto simp: on_read_def do_write_def do_read_def Let_def conn_start_def reset_request_def
        split: if_splits option.splits status_type.splits sum.splits)
qed

lemma completes_work:
  assumes "completes a s res" "a \<in># sv_pending s" "all_closed s" "server_inv s" "res = Some (r, s')"
  shows "server_work s' < server_work s"
proof -
  note w = work_taken [OF assms(2)]
  have closed: "op_below (sv_next s) a \<Longrightarrow> io_of c a \<Longrightarrow> \<not> cn_open (conn s c)" for c
    using assms(3) inv_heap(1) [OF assms(4), of c] by (cases a) (auto simp: all_closed_def)
  note below = server_inv_ofD(2) [OF assms(4,2)]
  show ?thesis
    using assms(1)
  proof cases
    case (read_completes k c ec bytes)
    with on_read_work [of c ec bytes "taken a s" r s'] w closed [OF below, of c] assms(5) show ?thesis
      by (cases ec) (auto split: if_splits)
  next
    case (write_completes k c ec resp)
    with w closed [OF below, of c] assms(5) work_start [of "reset_request c (cancel_write_timer c (taken a s))" c]
    show ?thesis by (cases ec) (auto simp: on_write_def reset_request_def split: if_splits)
  next
    case (read_wait_completes k c ec)
    with w assms(5) show ?thesis by (auto simp: on_wait_def)
  next
    case (write_wait_completes k c ec)
    with w assms(5) show ?thesis by (auto simp: on_wait_def)
  next
    case (accept_completes cmd ec)
    with w assms(3,5) show ?thesis by (auto simp: on_accept_def all_closed_def)
  next
    case signal_completes
    with w assms(5) show ?thesis by (auto simp: on_signal_def) (simp add: server_work_def manager_stop_all_def)
  qed
qed


lemma inv_all_closed: "server_inv s \<Longrightarrow> \<not> sv_acceptor_open s \<Longrightarrow> all_closed s"
  by (auto simp: server_inv_of_def all_closed_def)

lemma acceptor_stays_closed:
  assumes "completes a s (Some (r, s'))" "\<not> sv_acceptor_open s"
  shows "\<not> sv_acceptor_open s'"
  using assms
proof cases
  case (read_completes k c ec bytes)
  with assms(2) show ?thesis
    by (auto simp: on_read_def do_write_def do_read_def Let_def conn_start_def reset_request_def manager_stop_def
        conn_stop_def cancel_read_timer_def cancel_write_timer_def
        split: if_splits option.splits status_type.splits sum.splits)
qed (use assms(2) in \<open>auto simp: on_write_def on_wait_def on_accept_def on_signal_def conn_start_def do_read_def
    reset_request_def cancel_write_timer_def manager_stop_def conn_stop_def manager_stop_all_def Let_def split: if_splits\<close>)

text \<open>A run in which \<open>n\<close> handlers complete, with the other steps in between.\<close>

inductive handler_run :: "nat \<Rightarrow> 'd server \<Rightarrow> 'd server \<Rightarrow> bool" where
  none: "handler_run 0 s s"
| handler: "handler_run n s s' \<Longrightarrow> \<not> sv_stopped s' \<Longrightarrow> a \<in># sv_pending s' \<Longrightarrow>
    completes a s' (Some (Inr (), s'')) \<Longrightarrow> handler_run (Suc n) s s''"
| wait: "handler_run n s s' \<Longrightarrow> 0 \<le> ms \<Longrightarrow> handler_run n s (s'\<lparr>sv_now := sv_now s' + ms\<rparr>)"

lemma handler_run_reach: "handler_run n s s' \<Longrightarrow> server_reach db d s \<Longrightarrow> server_reach db d s'"
  by (induction rule: handler_run.induct) (auto intro: server_reach.step complete tick)

lemma handler_run_drains:
  assumes "handler_run n s s'" "server_inv s" "\<not> sv_acceptor_open s"
  shows "server_inv s' \<and> \<not> sv_acceptor_open s' \<and> n + server_work s' \<le> server_work s"
  using assms
proof (induction rule: handler_run.induct)
  case (handler n s s' a s'')
  then have I: "server_inv s'" "\<not> sv_acceptor_open s'" "n + server_work s' \<le> server_work s" by auto
  have "server_inv s''" using completes_inv [OF handler.hyps(4,3) I(1)] by simp
  moreover have "server_work s'' < server_work s'"
    using completes_work [OF handler.hyps(4,3) inv_all_closed I(1)] I by simp
  ultimately show ?case using acceptor_stays_closed [OF handler.hyps(4) I(2)] I(3) by simp
next
  case (wait n s s' ms)
  then show ?case by (auto simp: server_inv_of_def server_work_def)
qed simp

text \<open>After waiting long enough, any outstanding operation can complete.\<close>

lemma some_completion: "\<exists>ms\<ge>0. \<exists>res. completes a (s\<lparr>sv_now := sv_now s + ms\<rparr>) res"
proof (cases a)
  case (Read_some c k)
  show ?thesis unfolding Read_some
    by (intro exI [of _ 0] conjI exI, simp, rule read_completes [of _ _ _ Other_error "[]"]) simp_all
next
  case (Write c k resp)
  show ?thesis unfolding Write by (intro exI [of _ 0] conjI exI, simp, rule write_completes [of _ _ _ Other_error]) simp
next
  case (Read_wait c k)
  let ?ms = "max 0 (cn_read_expiry (conn s c) - sv_now s)"
  show ?thesis unfolding Read_wait
    by (intro exI [of _ ?ms] conjI exI, simp, rule read_wait_completes [of _ _ _ No_error]) (simp add: conn_def)
next
  case (Write_wait c k)
  let ?ms = "max 0 (cn_write_expiry (conn s c) - sv_now s)"
  show ?thesis unfolding Write_wait
    by (intro exI [of _ ?ms] conjI exI, simp, rule write_wait_completes [of _ _ _ No_error]) (simp add: conn_def)
next
  case Accept
  show ?thesis unfolding Accept by (intro exI [of _ 0] conjI exI, simp, rule accept_completes)
next
  case Await_stop
  show ?thesis unfolding Await_stop by (intro exI [of _ 0] conjI exI, simp, rule signal_completes)
qed


section \<open>Deadlines\<close>

lemma completes_expiry:
  assumes "completes a s (Some (r, s'))" "sv_heap s c = Some cn" "server_inv s"
  shows "\<exists>cn'. sv_heap s' c = Some cn' \<and> cn_read_expiry cn' = cn_read_expiry cn \<and>
    cn_write_expiry cn' = cn_write_expiry cn"
proof -
  have next_c: "c \<noteq> sv_next s" using assms(2) server_inv_ofD(1) [OF assms(3)] by auto
  have conn: "conn s c = cn" using assms(2) by (simp add: conn_def)
  show ?thesis
    using assms(1)
  proof cases
    case (read_completes k c' ec bytes)
    with assms(2) conn show ?thesis
      by (auto simp: on_read_def do_write_def do_read_def Let_def conn_start_def reset_request_def manager_stop_def
          conn_stop_def split: if_splits option.splits status_type.splits sum.splits)
  qed (use assms(2) conn next_c in \<open>auto simp: on_write_def on_wait_def on_accept_def on_signal_def conn_start_def
      do_accept_def do_read_def reset_request_def manager_start_def manager_stop_def conn_stop_def manager_stop_all_def
      Let_def split: if_splits\<close>)
qed

lemma step_expiry:
  assumes "server_step s s'" "sv_heap s c = Some cn" "server_inv s"
  shows "\<exists>cn'. sv_heap s' c = Some cn' \<and> cn_read_expiry cn' = cn_read_expiry cn \<and>
    cn_write_expiry cn' = cn_write_expiry cn"
  using assms
proof cases
  case (complete a)
  then show ?thesis using completes_expiry assms(2,3) by blast
qed (use assms(2) in \<open>auto simp: set_read_timeout_def set_write_timeout_def set_max_request_bytes_def server_stop_def\<close>)

section \<open>A concrete server\<close>

definition mem_server :: "(string, string) omap rocks server" where
  "mem_server = (case server_new None (Some (rocks_store mem_rocksdb)) (mem_rocks []) 0 of Inr s \<Rightarrow> s | Inl e \<Rightarrow> undefined)"

lemma mem_server_reach: "server_reach (Some (rocks_store mem_rocksdb)) (mem_rocks []) mem_server"
  by (rule server_reach.new [of _ _ 0]) (simp add: mem_server_def server_new_def Let_def)

text \<open>The server after its first client connected.\<close>

definition mem_server1 :: "(string, string) omap rocks server" where
  "mem_server1 = (case on_accept NONE No_error (taken Accept mem_server) of Some (_, s) \<Rightarrow> s | None \<Rightarrow> mem_server)"

lemma mem_server1_step: "completes Accept mem_server (Some (Inr (), mem_server1))"
proof -
  have "on_accept NONE No_error (taken Accept mem_server) = Some (Inr (), mem_server1)"
    by (simp add: mem_server1_def on_accept_def)
  then show ?thesis by (metis accept_completes)
qed

lemma mem_server_fields:
  "\<not> sv_stopped mem_server" "Accept \<in># sv_pending mem_server" "sv_pending mem_server = {#Accept, Await_stop#}"
  "sv_acceptor_open mem_server" "sv_next mem_server = 0" "sv_connections mem_server = {}"
  "sv_read_timeout mem_server = 0" "sv_write_timeout mem_server = 0" "sv_req_max_bytes mem_server = 0" "sv_now mem_server = 0"
  by (simp_all add: mem_server_def server_new_def Let_def do_await_stop_def do_accept_def post_def)

lemma mem_server1_reach: "server_reach (Some (rocks_store mem_rocksdb)) (mem_rocks []) mem_server1"
  using mem_server_reach server_step.complete [OF mem_server_fields(1,2) mem_server1_step] by (rule server_reach.step)

lemma mem_server1_conn:
  "sv_connections mem_server1 = {0}" "sv_heap mem_server1 0 = Some (connection_new NONE 0 0 0 0)"
  "Await_stop \<in># sv_pending mem_server1" "Read_some 0 True \<in># sv_pending mem_server1" "\<not> sv_stopped mem_server1"
  by (simp_all add: mem_server1_def on_accept_def mem_server_fields manager_start_def conn_start_def do_read_def
      do_accept_def Let_def to_int32_def connection_new_def conn_def post_def put_conn_def taken_def)


section \<open>Properties\<close>



text \<open>
  (C17) An open connection is never idle and never does two things at once: in every reachable
  state each connection the manager holds has exactly one read or write outstanding, so the
  buffer and the request are never shared by two operations. It is a read while the request
  is being parsed, and a write of exactly the response of a finished request that asked for a
  reply.
\<close>

theorem one_operation_per_connection:
  assumes "server_reach db d s" and "c \<in> sv_connections s"
  shows "cn_open (conn s c) \<and>
    (io_ops s c = {#Read_some c True#} \<and> rq_status (cn_request (conn s c)) \<notin> {FINISHED, QUITTING} \<or>
     io_ops s c = {#Write c True (rq_response (cn_request (conn s c)))#} \<and>
       rq_status (cn_request (conn s c)) = FINISHED \<and> \<not> rq_no_reply (cn_request (conn s c)))"
proof -
  note I = server_reach_inv [OF assms(1)]
  have "c < sv_next s" using server_inv_ofD(5) [OF I] assms(2) by auto
  from inv_heap [OF I this] assms(2) show ?thesis by (auto simp: conn_inv_def)
qed

theorem one_operation_per_connection_witness:
  "io_ops mem_server1 0 = {#Read_some 0 True#}"
proof -
  have "rq_status (cn_request (conn mem_server1 0)) = COMMAND"
    by (simp add: conn_def mem_server1_conn connection_new_def request_new_def)
  then show ?thesis
    using one_operation_per_connection [OF mem_server1_reach, of 0] mem_server1_conn(1) by simp
qed



definition mem_server2 :: "(string, string) omap rocks server" where
  "mem_server2 = (case on_signal (taken Await_stop mem_server1) of Some (_, s) \<Rightarrow> s | None \<Rightarrow> mem_server1)"


text \<open>
  What limits an accepted connection really has: the server hands its read timeout to the
  connection as the maximal request size, its write timeout as the read timeout, and its
  maximal request size, cut to 32 bits, as the write timeout.
\<close>

theorem accepted_connection_limits:
  assumes "sv_acceptor_open s" and "on_accept cmd No_error s = Some (r, s')"
  defines "cn \<equiv> conn s' (sv_next s)"
  shows "rq_max_bytes (cn_request cn) = word_of_int (sv_read_timeout s) \<and>
    cn_read_timeout cn = sv_write_timeout s \<and>
    cn_write_timeout cn = to_int32 (uint (sv_req_max_bytes s)) \<and>
    sv_next s \<in> sv_connections s'"
  using assms(1,2)
  by (auto simp: cn_def on_accept_def Let_def manager_start_def do_accept_def conn_start_def do_read_def
      conn_def connection_new_def request_new_def split: if_splits)

theorem accepted_connection_limits_witness:
  "\<exists>s'. on_accept NONE No_error (set_max_request_bytes 1024 mem_server) = Some (Inr (), s') \<and>
     rq_max_bytes (cn_request (conn s' 0)) = 0 \<and> cn_write_timeout (conn s' 0) = 1024"
proof -
  let ?s = "set_max_request_bytes 1024 mem_server"
  have f: "sv_acceptor_open ?s" "sv_next ?s = 0" "sv_read_timeout ?s = 0" "sv_req_max_bytes ?s = 1024"
    by (simp_all add: set_max_request_bytes_def mem_server_fields)
  obtain s' where s': "on_accept NONE No_error ?s = Some (Inr (), s')"
    using f(1) by (auto simp: on_accept_def)
  have "to_int32 1024 = 1024" by (simp add: to_int32_def)
  with accepted_connection_limits [OF f(1) s'] s' f show ?thesis by simp
qed

text \<open>
  The deadlines of a connection are those of its construction: no step of the server ever
  moves the expiry time of a read or write timer, so a client that keeps a connection open
  longer than the read timeout is cut off however quickly it sends each request.
\<close>

theorem deadlines_never_move:
  assumes "server_reach db d s" and "sv_heap s c = Some cn" and "server_step\<^sup>*\<^sup>* s s'"
  shows "\<exists>cn'. sv_heap s' c = Some cn' \<and> cn_read_expiry cn' = cn_read_expiry cn \<and>
    cn_write_expiry cn' = cn_write_expiry cn"
proof -
  from assms(3) have "server_reach db d s' \<and> (\<exists>cn'. sv_heap s' c = Some cn' \<and>
    cn_read_expiry cn' = cn_read_expiry cn \<and> cn_write_expiry cn' = cn_write_expiry cn)"
  proof (induction rule: rtranclp_induct)
    case (step s1 s2)
    then show ?case
      using step_expiry [OF step.hyps(2) _ server_reach_inv] server_reach.step by metis
  qed (use assms in simp)
  then show ?thesis ..
qed

theorem deadlines_never_move_witness:
  "\<exists>cn'. sv_heap (mem_server1\<lparr>sv_now := sv_now mem_server1 + 5000\<rparr>) 0 = Some cn' \<and> cn_read_expiry cn' = 0"
proof -
  have "server_step mem_server1 (mem_server1\<lparr>sv_now := sv_now mem_server1 + 5000\<rparr>)" by (rule tick) simp
  then have "server_step\<^sup>*\<^sup>* mem_server1 (mem_server1\<lparr>sv_now := sv_now mem_server1 + 5000\<rparr>)" by simp
  from deadlines_never_move [OF mem_server1_reach mem_server1_conn(2) this]
  show ?thesis by (auto simp: connection_new_def)
qed

end
