(* ===== verification/Session.thy ===== *)
theory Session
  imports Server_Props
begin

text \<open>
  A client's session with the running server: requests in the memcached protocol, split over
  reads in any way, are answered through the handlers of the connection as the abstract
  memcached map answers them, one after the other.
\<close>

section \<open>Requests on the wire\<close>

text \<open>\<open>Storage adds k f e v noreply\<close> is an \<open>add\<close> or a \<open>set\<close>, \<open>Retrieval cas ks\<close> a \<open>gets\<close> or a \<open>get\<close>.\<close>

datatype client_request =
    Storage bool string int int string bool
  | Retrieval bool "string list"
  | Deletion string bool

fun wf_request :: "client_request \<Rightarrow> bool" where
  "wf_request (Storage adds k f e v noreply) \<longleftrightarrow> is_word k \<and> int_min \<le> f \<and> f \<le> int_max \<and> int_min \<le> e \<and> e \<le> int_max \<and>
     0 < length v \<and> int (length v) \<le> int_max"
| "wf_request (Retrieval cas ks) \<longleftrightarrow> ks \<noteq> [] \<and> (\<forall>k \<in> set ks. is_word k)"
| "wf_request (Deletion k noreply) \<longleftrightarrow> is_word k"

text \<open>The text of a request is its body followed by CR LF.\<close>

fun request_body :: "client_request \<Rightarrow> string" where
  "request_body (Storage adds k f e v noreply) = storage_line (if adds then ''add'' else ''set'') k f e (length v) noreply @ v"
| "request_body (Retrieval cas ks) = (if cas then ''gets'' else ''get'') @ concat (map (\<lambda>k. CHR '' '' # k) ks)"
| "request_body (Deletion k noreply) = ''delete '' @ k @ (if noreply then '' noreply'' else [])"

fun command_of :: "client_request \<Rightarrow> command_type" where
  "command_of (Storage adds k f e v noreply) = (if adds then ADD else SET)"
| "command_of (Retrieval cas ks) = (if cas then GETS else GET)"
| "command_of (Deletion k noreply) = DELETE"

fun keys_of :: "client_request \<Rightarrow> string list" where
  "keys_of (Storage adds k f e v noreply) = [k]"
| "keys_of (Retrieval cas ks) = ks"
| "keys_of (Deletion k noreply) = [k]"

fun value_of :: "client_request \<Rightarrow> string" where
  "value_of (Storage adds k f e v noreply) = v"
| "value_of (Retrieval cas ks) = []"
| "value_of (Deletion k noreply) = []"

fun no_reply_of :: "client_request \<Rightarrow> bool" where
  "no_reply_of (Storage adds k f e v noreply) = noreply"
| "no_reply_of (Retrieval cas ks) = False"
| "no_reply_of (Deletion k noreply) = noreply"

definition parsed_as :: "client_request \<Rightarrow> request \<Rightarrow> request \<Rightarrow> bool" where
  "parsed_as q r r' \<longleftrightarrow> rq_command r' = command_of q \<and> rq_keys r' = keys_of q \<and> rq_buffer r' = value_of q \<and>
     rq_no_reply r' = no_reply_of q \<and> rq_max_bytes r' = rq_max_bytes r"

lemma request_parsed:
  assumes "fresh r" "wf_request q"
  shows "\<exists>r'. parsed_as q r r' \<and> process_loop db d r (request_body q @ CRLF @ xs) = prepare_response db d r'"
proof (cases q)
  case (Storage adds k f e v noreply)
  let ?cmd = "if adds then ''add'' else ''set''"
  let ?r = "r\<lparr>rq_status := DATA, rq_command := command_from_str ?cmd, rq_keys := [k], rq_flags := f, rq_exp_time := e,
    rq_remaining := 0, rq_buffer := v, rq_no_reply := noreply\<rparr>"
  have "process_loop db d r (request_body q @ CRLF @ xs) = prepare_response db d ?r"
    using assms storage_parsed [of r ?cmd k f e v db d noreply CR "LF # xs"] by (cases adds) (simp_all add: Storage del: process_loop.simps)
  moreover have "parsed_as q r ?r" by (simp add: parsed_as_def Storage command_from_str_def)
  ultimately show ?thesis by blast
next
  case (Retrieval cas ks)
  let ?cmd = "if cas then ''gets'' else ''get''"
  have "process_loop db d r (request_body q @ CRLF @ xs) =
      prepare_response db d (r\<lparr>rq_status := RETRIEVAL_KEY, rq_command := command_from_str ?cmd, rq_keys := ks\<rparr>)"
    using assms retrieval_parsed [of r ?cmd ks db d xs] by (cases cas) (simp_all add: Retrieval retrieval_line_def del: process_loop.simps)
  moreover have "parsed_as q r (r\<lparr>rq_status := RETRIEVAL_KEY, rq_command := command_from_str ?cmd, rq_keys := ks\<rparr>)"
    using assms(1) by (simp add: parsed_as_def Retrieval command_from_str_def fresh_def)
  ultimately show ?thesis by blast
next
  case (Deletion k noreply)
  have "process_loop db d r (request_body q @ CRLF @ xs) =
      prepare_response db d (r\<lparr>rq_status := NOREP, rq_command := DELETE, rq_keys := [k], rq_no_reply := noreply\<rparr>)"
    using assms delete_parsed [of r k db d noreply xs] by (cases noreply) (simp_all add: Deletion delete_line_def del: process_loop.simps)
  moreover have "parsed_as q r (r\<lparr>rq_status := NOREP, rq_command := DELETE, rq_keys := [k], rq_no_reply := noreply\<rparr>)"
    using assms(1) by (simp add: parsed_as_def Deletion fresh_def)
  ultimately show ?thesis by blast
qed

text \<open>No body is answered before its CR LF.\<close>

definition unfinished :: "request \<Rightarrow> bool" where
  "unfinished r \<longleftrightarrow> rq_status r \<notin> {FINISHED, QUITTING}"

lemma word_read:
  assumes "is_word w" "unfinished r" "rq_status r \<noteq> DATA"
  shows "\<exists>r'. process_loop db d r w = Some (r', d) \<and> unfinished r'"
  using assms process_loop_word [of w r db d "[]"] by (simp add: is_word_def unfinished_def)

lemma keys_read:
  assumes "rq_status r = RETRIEVAL_KEY" "rq_buffer r = []" "is_word k" "\<forall>k \<in> set ks. is_word k"
  shows "\<exists>r'. process_loop db d r (k @ concat (map (\<lambda>k. '' '' @ k) ks)) = Some (r', d) \<and> unfinished r'"
  using assms
proof (induction ks arbitrary: r k)
  case Nil
  then show ?case using word_read [of k r db d] by (simp add: unfinished_def)
next
  case (Cons k' ks)
  have "process_loop db d r (k @ CHR '' '' # k' @ concat (map (\<lambda>k. '' '' @ k) ks)) =
      process_loop db d (r\<lparr>rq_keys := rq_keys r @ [k]\<rparr>) (k' @ concat (map (\<lambda>k. '' '' @ k) ks))"
    using Cons.prems by (intro word_then_space) (auto simp: is_word_def white_space_step_def take_key_def)
  with Cons.IH [of "r\<lparr>rq_keys := rq_keys r @ [k]\<rparr>" k'] Cons.prems show ?case by simp
qed

lemma body_unfinished:
  assumes "fresh r" "wf_request q"
  shows "\<exists>r'. process_loop db d r (request_body q) = Some (r', d) \<and> unfinished r'"
proof (cases q)
  case (Storage adds k f e v noreply)
  let ?cmd = "if adds then ''add'' else ''set''"
  let ?r = "r\<lparr>rq_status := DATA, rq_command := command_from_str ?cmd, rq_keys := [k], rq_flags := f, rq_exp_time := e,
    rq_remaining := word_of_nat (length v), rq_no_reply := noreply\<rparr>"
  have "process_loop db d r (request_body q) = process_loop db d ?r v"
    using assms storage_header [of r ?cmd k f e "length v" db d noreply v] by (cases adds) (simp_all add: Storage)
  also have "\<dots> = Some (?r\<lparr>rq_remaining := rq_remaining ?r - word_of_nat (length v), rq_buffer := rq_buffer ?r @ v\<rparr>, d)"
    using process_loop_data [of ?r v db d "[]"] assms(2) by (simp add: Storage remaining_word)
  finally show ?thesis by (simp add: unfinished_def)
next
  case (Retrieval cas ks)
  let ?cmd = "if cas then ''gets'' else ''get''"
  let ?r = "r\<lparr>rq_command := command_from_str ?cmd, rq_status := RETRIEVAL_KEY\<rparr>"
  obtain k ks' where ks: "ks = k # ks'" using assms(2) by (cases ks) (auto simp: Retrieval)
  have "process_loop db d r (?cmd @ CHR '' '' # k @ concat (map (\<lambda>k. '' '' @ k) ks')) =
      process_loop db d ?r (k @ concat (map (\<lambda>k. '' '' @ k) ks'))"
    using assms(1) by (intro word_then_space)
      (auto simp: white_space_step_def command_from_str_def Let_def fresh_def is_white_space_def)
  moreover have "\<exists>r'. process_loop db d ?r (k @ concat (map (\<lambda>k. '' '' @ k) ks')) = Some (r', d) \<and> unfinished r'"
    using assms by (intro keys_read) (auto simp: fresh_def Retrieval ks)
  ultimately show ?thesis by (cases cas) (simp_all add: Retrieval ks del: process_loop.simps)
next
  case (Deletion k noreply)
  let ?r = "r\<lparr>rq_command := DELETE, rq_status := DELETE_KEY\<rparr>"
  have k: "is_word k" using assms(2) by (simp add: Deletion)
  have s: "process_loop db d r (''delete'' @ CHR '' '' # ys) = process_loop db d ?r ys" for ys
    using assms(1) by (intro word_then_space) (auto simp: white_space_step_def command_from_str_def Let_def is_white_space_def fresh_def)
  show ?thesis
  proof (cases noreply)
    case False
    then show ?thesis
      using s [of k] word_read [OF k, of ?r db d] by (simp add: Deletion unfinished_def del: process_loop.simps)
  next
    case True
    have "process_loop db d ?r (k @ CHR '' '' # ''noreply'') = process_loop db d (?r\<lparr>rq_keys := [k], rq_status := NOREP\<rparr>) ''noreply''"
      using assms(1) k by (intro word_then_space) (auto simp: white_space_step_def take_key_def is_word_def fresh_def)
    moreover have "is_word ''noreply''" by (simp add: is_word_def is_white_space_def)
    ultimately show ?thesis
      using True s [of "k @ '' noreply''"] word_read [of "''noreply''" "?r\<lparr>rq_keys := [k], rq_status := NOREP\<rparr>" db d]
      by (simp add: Deletion unfinished_def del: process_loop.simps)
  qed
qed

section \<open>The client's side of a connection\<close>

text \<open>
  \<open>deliver\<close> lets the pending read of connection \<open>c\<close> complete with one chunk after the other.
  After a request that wants a reply the connection writes; \<open>exchange\<close> lets that write complete
  and gives the response that was sent.
\<close>

fun deliver :: "nat \<Rightarrow> string list \<Rightarrow> 'd server \<Rightarrow> 'd server option" where
  "deliver c [] s = Some s"
| "deliver c (bytes # rest) s = (case on_read c No_error bytes (taken (Read_some c True) s) of
       Some (Inr u, s') \<Rightarrow> deliver c rest s'
     | _ \<Rightarrow> None)"

definition exchange :: "nat \<Rightarrow> string list \<Rightarrow> 'd server \<Rightarrow> (string option \<times> 'd server) option" where
  "exchange c chunks s = (case deliver c chunks s of
       None \<Rightarrow> None
     | Some s \<Rightarrow>
         (let r = cn_request (conn s c) in
          if rq_status r = FINISHED then
            (case on_write c No_error (taken (Write c True (rq_response r)) s) of
               Some (Inr u, s') \<Rightarrow> Some (Some (rq_response r), s')
             | _ \<Rightarrow> None)
          else Some (None, s)))"

fun session :: "nat \<Rightarrow> string list list \<Rightarrow> 'd server \<Rightarrow> (string list \<times> 'd server) option" where
  "session c [] s = Some ([], s)"
| "session c (chunks # rest) s = (case exchange c chunks s of
       None \<Rightarrow> None
     | Some (reply, s) \<Rightarrow>
         (case session c rest s of
            None \<Rightarrow> None
          | Some (replies, s) \<Rightarrow> Some ((case reply of None \<Rightarrow> [] | Some x \<Rightarrow> [x]) @ replies, s)))"

text \<open>The abstract session: the replies of the memcached map and the map it leaves.\<close>

fun memcached_session :: "client_request list \<Rightarrow> (string \<rightharpoonup> string) \<Rightarrow> string list \<times> (string \<rightharpoonup> string)" where
  "memcached_session [] m = ([], m)"
| "memcached_session (q # qs) m =
     (let (reply, m) = memcached (command_of q) (keys_of q) (value_of q) m;
          (replies, m) = memcached_session qs m in
      ((if no_reply_of q then [] else [reply]) @ replies, m))"

section \<open>The handlers\<close>

definition reading :: "nat \<Rightarrow> request \<Rightarrow> 'd server \<Rightarrow> bool" where
  "reading c r s \<longleftrightarrow> (\<exists>cn. sv_heap s c = Some cn \<and> cn_open cn \<and> cn_request cn = r) \<and>
     Read_some c True \<in># sv_pending s \<and> \<not> sv_stopped s"

definition answering :: "nat \<Rightarrow> request \<Rightarrow> 'd server \<Rightarrow> bool" where
  "answering c r s \<longleftrightarrow> (\<exists>cn. sv_heap s c = Some cn \<and> cn_open cn \<and> cn_request cn = r) \<and>
     Write c True (rq_response r) \<in># sv_pending s \<and> \<not> sv_stopped s"

lemma stopped_simps [simp]:
  "sv_stopped (post a s) = sv_stopped s" "sv_stopped (put_conn c cn s) = sv_stopped s"
  "sv_stopped (cancel_read_timer c s) = sv_stopped s" "sv_stopped (cancel_write_timer c s) = sv_stopped s"
  "sv_stopped (taken a s) = sv_stopped s" "sv_db (cancel_read_timer c s) = sv_db s" "sv_db (cancel_write_timer c s) = sv_db s"
  "sv_store (cancel_read_timer c s) = sv_store s" "sv_store (cancel_write_timer c s) = sv_store s"
  by (simp_all add: post_def put_conn_def cancel_read_timer_def cancel_write_timer_def taken_def)

lemma read_step:
  assumes "reading c r s" "length bytes \<le> 8192" "on_read c No_error bytes (taken (Read_some c True) s) = Some (Inr (), s')"
  shows "server_step s s'"
proof (rule server_step.complete)
  show "completes (Read_some c True) s (Some (Inr (), s'))"
    using read_completes [of True s c No_error bytes] assms(2,3) by simp
qed (use assms(1) in \<open>auto simp: reading_def\<close>)

lemma restart_reading:
  assumes "sv_heap s c = Some cn" "cn_open cn" "\<not> sv_stopped s"
  shows "reading c (request_reset (cn_request cn)) (conn_start c (reset_request c (cancel_write_timer c s)))"
    "sv_db (conn_start c (reset_request c (cancel_write_timer c s))) = sv_db s"
    "sv_store (conn_start c (reset_request c (cancel_write_timer c s))) = sv_store s"
  using assms by (simp_all add: reading_def conn_start_def do_read_def reset_request_def Let_def conn_def)

lemma on_read_goes_on:
  assumes "reading c r s" "length bytes \<le> 8192" "process (sv_store s) (sv_db s) r bytes = Some (r', d)" "unfinished r'"
  obtains s' where "on_read c No_error bytes (taken (Read_some c True) s) = Some (Inr (), s')" "server_step s s'"
    "reading c r' s'" "sv_db s' = d" "sv_store s' = sv_store s"
proof -
  obtain cn where cn: "sv_heap s c = Some cn" "cn_open cn" "cn_request cn = r" using assms(1) by (auto simp: reading_def)
  then have conn: "conn s c = cn" by (simp add: conn_def)
  let ?s1 = "put_conn c (cn\<lparr>cn_request := r'\<rparr>) ((taken (Read_some c True) s)\<lparr>sv_db := d\<rparr>)"
  have eq: "on_read c No_error bytes (taken (Read_some c True) s) = Some (Inr (), do_read c ?s1)"
    using assms(3,4) conn cn(3) by (cases "rq_status r'") (simp_all add: on_read_def unfinished_def Let_def)
  show ?thesis
  proof (rule that [OF eq read_step [OF assms(1,2) eq]])
    show "reading c r' (do_read c ?s1)" using assms(1) cn(2) by (simp add: reading_def do_read_def)
  qed (simp_all add: do_read_def)
qed

text \<open>After the last read the connection reads again at once, or it answers first.\<close>

lemma on_read_finishes:
  assumes "reading c r s" "length bytes \<le> 8192" "process (sv_store s) (sv_db s) r bytes = Some (r', d)" "rq_status r' = FINISHED"
  obtains s' where "on_read c No_error bytes (taken (Read_some c True) s) = Some (Inr (), s')" "server_step s s'"
    "if rq_no_reply r' then reading c (request_reset r') s' else answering c r' s'" "sv_db s' = d" "sv_store s' = sv_store s"
proof -
  obtain cn where cn: "sv_heap s c = Some cn" "cn_open cn" "cn_request cn = r" using assms(1) by (auto simp: reading_def)
  then have conn: "conn s c = cn" by (simp add: conn_def)
  define s1 where "s1 = put_conn c (cn\<lparr>cn_request := r'\<rparr>) ((taken (Read_some c True) s)\<lparr>sv_db := d\<rparr>)"
  define s3 where "s3 = (if cn_write_timeout cn > 0 then post (Write_wait c False) (cancel_read_timer c s1) else cancel_read_timer c s1)"
  have s3: "sv_heap s3 c = Some (cn\<lparr>cn_request := r'\<rparr>)" "conn s3 c = cn\<lparr>cn_request := r'\<rparr>" "sv_db s3 = d" "sv_store s3 = sv_store s"
    "\<not> sv_stopped s3"
    using assms(1) by (simp_all add: s3_def s1_def reading_def)
  have eq: "on_read c No_error bytes (taken (Read_some c True) s) = (if rq_no_reply r'
      then Some (Inr (), conn_start c (reset_request c (cancel_write_timer c s3))) else do_write c s3)"
    using assms(3,4) conn cn(3) by (simp add: on_read_def Let_def s3_def s1_def)
  show ?thesis
  proof (cases "rq_no_reply r'")
    case True
    note e = eq [unfolded if_P [OF True]]
    show ?thesis
      using that [OF e read_step [OF assms(1,2) e]] restart_reading [OF s3(1)] s3 cn(2) True by simp
  next
    case False
    have e: "on_read c No_error bytes (taken (Read_some c True) s) = Some (Inr (), post (Write c True (rq_response r')) s3)"
      using eq False s3(2) cn(2) assms(4) by (simp add: do_write_def get_response_def)
    show ?thesis
      using that [OF e read_step [OF assms(1,2) e]] s3 cn(2) False by (simp add: answering_def)
  qed
qed

lemma on_write_rereads:
  assumes "answering c r s"
  obtains s' where "on_write c No_error (taken (Write c True (rq_response r)) s) = Some (Inr (), s')" "server_step s s'"
    "reading c (request_reset r) s'" "sv_db s' = sv_db s" "sv_store s' = sv_store s"
proof -
  let ?a = "Write c True (rq_response r)" and ?s' = "conn_start c (reset_request c (cancel_write_timer c (taken (Write c True (rq_response r)) s)))"
  obtain cn where cn: "sv_heap s c = Some cn" "cn_open cn" "cn_request cn = r" using assms by (auto simp: answering_def)
  have eq: "on_write c No_error (taken ?a s) = Some (Inr (), ?s')" by (simp add: on_write_def)
  have "server_step s ?s'"
  proof (rule server_step.complete)
    show "completes ?a s (Some (Inr (), ?s'))"
      using write_completes [of True s c No_error "rq_response r"] eq by simp
  qed (use assms in \<open>simp_all add: answering_def\<close>)
  with eq show ?thesis
    using that restart_reading [of "taken ?a s" c cn] cn assms by (simp add: answering_def)
qed

text \<open>Reading a request in chunks: nothing is answered before the last one.\<close>

lemma quitting_stays:
  "rq_status r = QUITTING \<Longrightarrow> \<exists>r'. process_loop db d r xs = Some (r', d) \<and> rq_status r' = QUITTING"
proof (induction xs arbitrary: r)
  case (Cons c xs)
  have "\<exists>r1. process_char r c = Continue r1 \<and> rq_status r1 = QUITTING"
    using Cons.prems by (cases "is_white_space c") (simp_all add: process_char_def white_space_step_def)
  then obtain r1 where "process_char r c = Continue r1" "rq_status r1 = QUITTING" by blast
  with Cons.IH [of r1] show ?case by simp
qed simp

lemma unfinished_prefix:
  assumes "process_loop db d r (xs @ ys) = Some (r', d')" "unfinished r'" "rq_status r \<noteq> FINISHED"
  shows "\<exists>r1 d1. process_loop db d r xs = Some (r1, d1) \<and> unfinished r1 \<and> process_loop db d1 r1 ys = Some (r', d')"
proof (cases "process_loop db d r xs")
  case None
  with assms(1) process_loop_append [OF assms(3), of db d xs ys] show ?thesis by simp
next
  case (Some rd)
  obtain r1 d1 where rd: "rd = (r1, d1)" by (cases rd)
  have ys: "(if rq_status r1 = FINISHED then Some (r1, d1) else process_loop db d1 r1 ys) = Some (r', d')"
    using assms(1) process_loop_append [OF assms(3), of db d xs ys] Some rd by simp
  with assms(2) have 1: "rq_status r1 \<noteq> FINISHED" by (auto simp: unfinished_def)
  with ys have "process_loop db d1 r1 ys = Some (r', d')" by simp
  moreover from this have "rq_status r1 \<noteq> QUITTING"
    using quitting_stays [of r1 db d1 ys] assms(2) by (auto simp: unfinished_def)
  ultimately show ?thesis using Some rd 1 by (simp add: unfinished_def)
qed

lemma deliver_append: "deliver c (xs @ ys) s = Option.bind (deliver c xs s) (deliver c ys)"
proof (induction xs arbitrary: s)
  case (Cons bytes rest)
  show ?case
  proof (cases "on_read c No_error bytes (taken (Read_some c True) s)")
    case (Some p)
    with Cons.IH show ?thesis by (cases p; cases "fst p") simp_all
  qed simp
qed simp

lemma deliver_unfinished:
  assumes "reading c r s" "\<forall>chunk \<in> set chunks. length chunk \<le> 8192" "rq_max_bytes r = 0" "unfinished r"
    and "process_loop (sv_store s) (sv_db s) r (concat chunks) = Some (r', d)" "unfinished r'"
  shows "\<exists>s'. deliver c chunks s = Some s' \<and> rtranclp server_step s s' \<and> reading c r' s' \<and> sv_db s' = d \<and> sv_store s' = sv_store s"
  using assms
proof (induction chunks arbitrary: r s)
  case Nil
  then show ?case by simp
next
  case (Cons bytes rest)
  have nf: "rq_status r \<noteq> FINISHED" using Cons.prems(4) by (simp add: unfinished_def)
  obtain r1 d1 where 1: "process_loop (sv_store s) (sv_db s) r bytes = Some (r1, d1)" "unfinished r1"
    "process_loop (sv_store s) d1 r1 (concat rest) = Some (r', d)"
    using unfinished_prefix [of "sv_store s" "sv_db s" r bytes "concat rest", OF _ Cons.prems(6) nf] Cons.prems(5) by auto
  then have "process (sv_store s) (sv_db s) r bytes = Some (r1, d1)" using Cons.prems(3) by (simp add: process_unlimited)
  moreover have "length bytes \<le> 8192" using Cons.prems(2) by simp
  ultimately obtain s1 where
    s1: "on_read c No_error bytes (taken (Read_some c True) s) = Some (Inr (), s1)" "server_step s s1"
      "reading c r1 s1" "sv_db s1 = d1" "sv_store s1 = sv_store s"
    using on_read_goes_on [OF Cons.prems(1) _ _ 1(2)] by blast
  have "rq_max_bytes r1 = 0" using process_loop_max_bytes [OF 1(1)] Cons.prems(3) by simp
  moreover have "\<forall>chunk \<in> set rest. length chunk \<le> 8192" using Cons.prems(2) by simp
  moreover have "process_loop (sv_store s1) (sv_db s1) r1 (concat rest) = Some (r', d)" using 1(3) s1(4,5) by simp
  ultimately obtain s' where
    "deliver c rest s1 = Some s'" "rtranclp server_step s1 s'" "reading c r' s'" "sv_db s' = d" "sv_store s' = sv_store s"
    using Cons.IH [OF s1(3) _ _ 1(2) _ Cons.prems(6)] s1(5) by auto
  moreover from this(2) have "rtranclp server_step s s'" by (rule converse_rtranclp_into_rtranclp [of server_step, OF s1(2)])
  ultimately show ?case using s1(1) by simp
qed

section \<open>Sessions\<close>

text \<open>A way to cut a request into reads: the last one has at least the CR LF of the request.\<close>

definition cut_from :: "client_request \<Rightarrow> string list \<Rightarrow> bool" where
  "cut_from q chunks \<longleftrightarrow> concat chunks = request_body q @ CRLF \<and> (\<forall>chunk \<in> set chunks. length chunk \<le> 8192) \<and>
     chunks \<noteq> [] \<and> 2 \<le> length (last chunks)"

lemma cut_fromE:
  assumes "cut_from q chunks"
  obtains xs y rest where "chunks = xs @ [y @ CRLF]" "request_body q = concat xs @ y" "length (y @ CRLF) \<le> 8192"
    "\<forall>chunk \<in> set xs. length chunk \<le> 8192"
proof -
  obtain xs z where xz: "chunks = xs @ [z]" using assms by (cases chunks rule: rev_cases) (auto simp: cut_from_def)
  have z: "2 \<le> length z" "length z \<le> 8192" "concat xs @ z = request_body q @ CRLF" "\<forall>chunk \<in> set xs. length chunk \<le> 8192"
    using assms by (simp_all add: cut_from_def xz)
  have "z = take (length z - 2) z @ drop (length z - 2) z" by simp
  then have "(concat xs @ take (length z - 2) z) @ drop (length z - 2) z = request_body q @ CRLF" using z(3) by simp
  moreover have "length (drop (length z - 2) z) = length CRLF" using z(1) by simp
  ultimately have "concat xs @ take (length z - 2) z = request_body q \<and> drop (length z - 2) z = CRLF"
    using append_eq_append_conv by blast
  then have y: "concat xs @ take (length z - 2) z = request_body q" "drop (length z - 2) z = CRLF" by simp_all
  moreover from y(2) have "take (length z - 2) z @ CRLF = z" using append_take_drop_id [of "length z - 2" z] by simp
  ultimately show ?thesis using that [of xs "take (length z - 2) z"] xz z(2,4) by simp
qed

text \<open>A connection that waits for a request, with no limit on its size.\<close>

definition idle :: "nat \<Rightarrow> 'd server \<Rightarrow> bool" where
  "idle c s \<longleftrightarrow> (\<exists>r. reading c r s \<and> fresh r \<and> rq_max_bytes r = 0)"

lemma idle_reset: "reading c (request_reset r) s \<Longrightarrow> rq_max_bytes r = 0 \<Longrightarrow> idle c s"
  using fresh_reset [of r] by (auto simp: idle_def request_reset_def)

lemma body_not_answered: "fresh r \<Longrightarrow> unfinished r"
  by (simp add: fresh_def unfinished_def)

context reliable_store
begin

lemma exchange_refines:
  assumes "idle c x" "wf_request q" "cut_from q chunks" "sv_store x = Some s" "inv (sv_db x)" "\<not> held (sv_db x)"
  defines "res \<equiv> memcached (command_of q) (keys_of q) (value_of q) (contents (sv_db x))"
  shows "\<exists>x'. exchange c chunks x = Some (if no_reply_of q then None else Some (fst res), x') \<and> contents (sv_db x') = snd res \<and>
    rtranclp server_step x x' \<and> idle c x' \<and> sv_store x' = Some s \<and> inv (sv_db x') \<and> \<not> held (sv_db x')"
proof -
  obtain r where r: "reading c r x" "fresh r" "rq_max_bytes r = 0" using assms(1) by (auto simp: idle_def)
  obtain xs y where cut: "chunks = xs @ [y @ CRLF]" "request_body q = concat xs @ y" "length (y @ CRLF) \<le> 8192"
      "\<forall>chunk \<in> set xs. length chunk \<le> 8192"
    using cut_fromE [OF assms(3)] by metis
  \<comment> \<open>all reads but the last\<close>
  obtain r1 d1 where r1: "process_loop (Some s) (sv_db x) r (concat xs) = Some (r1, d1)" "unfinished r1"
    using body_unfinished [OF r(2) assms(2), of "Some s" "sv_db x"] unfinished_prefix [of "Some s" "sv_db x" r "concat xs" y]
      body_not_answered [OF r(2)] cut(2) by (metis insertCI unfinished_def)
  obtain x1 where x1: "deliver c xs x = Some x1" "rtranclp server_step x x1" "reading c r1 x1" "sv_db x1 = d1" "sv_store x1 = Some s"
    using deliver_unfinished [OF r(1) cut(4) r(3) body_not_answered [OF r(2)], of r1 d1] r1 assms(4) by metis
  \<comment> \<open>the last read\<close>
  obtain r2 where p: "parsed_as q r r2" "process_loop (Some s) (sv_db x) r (request_body q @ CRLF) = prepare_response (Some s) (sv_db x) r2"
    using request_parsed [OF r(2) assms(2), of "Some s" "sv_db x" "[]"] by auto
  have cmd: "rq_command r2 \<in> store_commands" "rq_keys r2 \<noteq> []"
    using p(1) assms(2) by (cases q; simp add: parsed_as_def store_commands_def)+
  obtain d2 where d2: "prepare_response (Some s) (sv_db x) r2 = Some (finish (fst res) r2, d2)" "contents d2 = snd res" "inv d2" "\<not> held d2"
    using prepare_response_refines [OF assms(5,6) cmd] p(1) by (auto simp: res_def parsed_as_def)
  have "rq_status r \<noteq> FINISHED" using r(2) by (simp add: fresh_def)
  then have "process_loop (Some s) d1 r1 (y @ CRLF) = Some (finish (fst res) r2, d2)"
    using process_loop_append [of r "Some s" "sv_db x" "concat xs" "y @ CRLF"] p(2) d2(1) r1 cut(2) by (simp add: unfinished_def)
  moreover have "rq_max_bytes r1 = 0" using process_loop_max_bytes [OF r1(1)] r(3) by simp
  ultimately have last_read: "process (sv_store x1) (sv_db x1) r1 (y @ CRLF) = Some (finish (fst res) r2, d2)"
    by (simp add: process_unlimited x1(4,5))
  obtain x2 where x2: "on_read c No_error (y @ CRLF) (taken (Read_some c True) x1) = Some (Inr (), x2)" "server_step x1 x2"
      "if no_reply_of q then reading c (request_reset (finish (fst res) r2)) x2 else answering c (finish (fst res) r2) x2"
      "sv_db x2 = d2" "sv_store x2 = Some s"
    using on_read_finishes [OF x1(3) cut(3) last_read] x1(5) p(1) by (auto simp: finish_def parsed_as_def)
  have steps: "rtranclp server_step x x2" using x1(2) x2(2) by (rule rtranclp.rtrancl_into_rtrancl)
  have delivered: "deliver c chunks x = Some x2" using x1(1) x2(1) by (simp add: cut(1) deliver_append)
  have mb: "rq_max_bytes (finish (fst res) r2) = 0" using p(1) r(3) by (simp add: parsed_as_def finish_def)
  show ?thesis
  proof (cases "no_reply_of q")
    case True
    with x2(3) have rd: "reading c (request_reset (finish (fst res) r2)) x2" by simp
    then have "rq_status (cn_request (conn x2 c)) = COMMAND" by (auto simp: reading_def conn_def request_reset_def)
    then show ?thesis
      using True delivered steps idle_reset [OF rd mb] d2(2-4) x2(4,5) by (simp add: exchange_def)
  next
    case False
    with x2(3) have an: "answering c (finish (fst res) r2) x2" by simp
    then have c2: "cn_request (conn x2 c) = finish (fst res) r2" by (auto simp: answering_def conn_def)
    obtain x3 where x3: "on_write c No_error (taken (Write c True (fst res)) x2) = Some (Inr (), x3)" "server_step x2 x3"
        "reading c (request_reset (finish (fst res) r2)) x3" "sv_db x3 = d2" "sv_store x3 = Some s"
      using on_write_rereads [OF an] x2(4,5) by (auto simp: finish_def)
    have "exchange c chunks x = Some (Some (fst res), x3)"
      using delivered c2 x3(1) by (simp add: exchange_def finish_def)
    moreover have "rtranclp server_step x x3" using steps x3(2) by (rule rtranclp.rtrancl_into_rtrancl)
    ultimately show ?thesis using False idle_reset [OF x3(3) mb] d2(2-4) x3(4,5) by simp
  qed
qed

lemma session_refines:
  assumes "list_all2 (\<lambda>q chunks. wf_request q \<and> cut_from q chunks) qs css" "idle c x" "sv_store x = Some s"
    "inv (sv_db x)" "\<not> held (sv_db x)"
  shows "\<exists>x'. session c css x = Some (fst (memcached_session qs (contents (sv_db x))), x') \<and>
    contents (sv_db x') = snd (memcached_session qs (contents (sv_db x))) \<and> rtranclp server_step x x' \<and> idle c x'"
  using assms
proof (induction arbitrary: x rule: list_all2_induct)
  case Nil
  then show ?case by simp
next
  case (Cons q qs chunks css)
  let ?res = "memcached (command_of q) (keys_of q) (value_of q) (contents (sv_db x))"
  obtain x1 where x1: "exchange c chunks x = Some (if no_reply_of q then None else Some (fst ?res), x1)" "contents (sv_db x1) = snd ?res"
      "rtranclp server_step x x1" "idle c x1" "sv_store x1 = Some s" "inv (sv_db x1)" "\<not> held (sv_db x1)"
    using exchange_refines [OF Cons.prems(1) _ _ Cons.prems(2-4), of q chunks] Cons.hyps(1) by blast
  obtain x2 where x2: "session c css x1 = Some (fst (memcached_session qs (snd ?res)), x2)"
      "contents (sv_db x2) = snd (memcached_session qs (snd ?res))" "rtranclp server_step x1 x2" "idle c x2"
    using Cons.IH [OF x1(4-7)] x1(2) by auto
  have "rtranclp server_step x x2" using x1(3) x2(3) by (rule rtranclp_trans)
  with x1(1) x2 show ?case by (simp add: split_def Let_def)
qed

end

section \<open>The property\<close>



end
