(* ===== verification/Serving.thy ===== *)
theory Serving
  imports Session
begin

text \<open>
  The running server as a whole: whatever any number of clients send, however their reads and
  writes interleave and whichever of them fail, the contents of the store and the responses are
  those of an abstract server that executes one memcached command after the other.
\<close>

section \<open>The abstract server\<close>

text \<open>
  One request on a map: a command, or one that is answered without the store. \<open>serves_all\<close> is
  a sequence of requests with their replies.
\<close>

inductive serves :: "(string \<rightharpoonup> string) \<Rightarrow> string \<Rightarrow> (string \<rightharpoonup> string) \<Rightarrow> bool" for m where
  command: "cmd \<in> store_commands \<Longrightarrow> ks \<noteq> [] \<Longrightarrow> list_all is_word ks \<Longrightarrow>
    serves m (fst (memcached cmd ks v m)) (snd (memcached cmd ks v m))"
| ping: "serves m (''PONG'' @ CRLF) m"
| no_key: "serves m (''ERROR No key was found in request'' @ CRLF) m"
| refused: "serves m (''CLIENT_ERROR '' @ e @ CRLF) m"

inductive serves_all :: "(string \<rightharpoonup> string) \<Rightarrow> string list \<Rightarrow> (string \<rightharpoonup> string) \<Rightarrow> bool" for m0 where
  none: "serves_all m0 [] m0"
| more: "serves_all m0 replies m \<Longrightarrow> serves m reply m' \<Longrightarrow> serves_all m0 (replies @ [reply]) m'"

inductive_cases servesE: "serves m reply m'"

section \<open>Responses on their way\<close>

definition answers :: "'d server \<Rightarrow> string set" where
  "answers s = {resp. \<exists>c k. Write c k resp \<in># sv_pending s}"

lemma answers_post: "answers (post a s) = (case a of Write c k resp \<Rightarrow> insert resp (answers s) | _ \<Rightarrow> answers s)"
  by (cases a) (auto simp: answers_def post_def)

lemma cancel_wait_Write: "cancel_wait c rd a = Write c' k resp \<longleftrightarrow> a = Write c' k resp"
  by (cases a; cases rd) auto

lemma cancelled_Write: "Write c k resp \<in> cancel_wait c' rd ` A \<longleftrightarrow> Write c k resp \<in> A"
  by (metis cancel_wait_Write image_iff)

lemma answers_simps [simp]:
  "answers (put_conn c cn s) = answers s" "answers (s\<lparr>sv_db := d\<rparr>) = answers s"
  "answers (s\<lparr>sv_connections := cs\<rparr>) = answers s" "answers (s\<lparr>sv_next := n\<rparr>) = answers s"
  "answers (s\<lparr>sv_heap := h\<rparr>) = answers s" "answers (s\<lparr>sv_acceptor_open := b\<rparr>) = answers s"
  "answers (s\<lparr>sv_now := t\<rparr>) = answers s" "answers (s\<lparr>sv_stopped := b\<rparr>) = answers s"
  "answers (cancel_read_timer c s) = answers s" "answers (cancel_write_timer c s) = answers s"
  by (auto simp: answers_def put_conn_def cancel_read_timer_def cancel_write_timer_def cancelled_Write)

lemma answers_handlers [simp]:
  "answers (do_read c s) = answers s" "answers (conn_start c s) = answers s" "answers (conn_stop c s) = answers s"
  "answers (reset_request c s) = answers s" "answers (manager_start c s) = answers s" "answers (manager_stop c s) = answers s"
  "answers (manager_stop_all s) = answers s" "answers (do_accept s) = answers s"
  by (simp_all add: do_read_def conn_start_def conn_stop_def reset_request_def manager_start_def manager_stop_def
      manager_stop_all_def do_accept_def answers_post Let_def)

lemma answers_taken: "answers (taken a s) \<subseteq> answers s"
  by (auto simp: answers_def taken_def dest: in_diffD)

lemma accept_signal_db [simp]: "sv_db (do_accept s) = sv_db s" "sv_db (manager_stop_all s) = sv_db s"
  by (simp_all add: do_accept_def manager_stop_all_def)

lemma on_read_answered:
  assumes "on_read c No_error bytes s = Some (res, s')"
    and "process (sv_store s) (sv_db s) (cn_request (conn s c)) bytes = Some (q, d)"
  shows "sv_db s' = d \<and> answers s' \<subseteq> (if rq_status q = FINISHED then insert (rq_response q) (answers s) else answers s)"
  using assms
  by (cases "rq_status q")
    (auto simp: on_read_def do_write_def get_response_def answers_post Let_def split: if_splits)

lemma on_read_answers:
  assumes "on_read c ec bytes s = Some (res, s')"
  shows "answers s' \<subseteq> answers s \<and> sv_db s' = sv_db s \<or>
    (\<exists>q. process (sv_store s) (sv_db s) (cn_request (conn s c)) bytes = Some (q, sv_db s') \<and>
      answers s' \<subseteq> (if rq_status q = FINISHED then insert (rq_response q) (answers s) else answers s))"
proof (cases "ec = No_error")
  case True
  then obtain q d where p: "process (sv_store s) (sv_db s) (cn_request (conn s c)) bytes = Some (q, d)"
    using assms by (auto simp: on_read_def split: option.splits)
  from on_read_answered [OF assms [unfolded True] p] p show ?thesis by blast
next
  case False
  with assms show ?thesis by (auto simp: on_read_def split: if_splits)
qed

lemma completes_answers:
  assumes "completes a s res" "res = Some (r, s')"
  shows "answers s' \<subseteq> answers s \<and> sv_db s' = sv_db s \<or>
    (\<exists>c k q bytes. a = Read_some c k \<and> process (sv_store s) (sv_db s) (cn_request (conn s c)) bytes = Some (q, sv_db s') \<and>
      answers s' \<subseteq> (if rq_status q = FINISHED then insert (rq_response q) (answers s) else answers s))"
  using assms
proof cases
  case (read_completes k c ec bytes)
  have "sv_store (taken a s) = sv_store s" "sv_db (taken a s) = sv_db s" "conn (taken a s) c = conn s c"
    by (simp_all add: taken_def conn_def)
  with on_read_answers [of c ec bytes "taken a s" r s'] read_completes assms(2) answers_taken [of a s] show ?thesis
    by (auto split: if_splits) blast+
qed (use answers_taken [THEN subsetD] in \<open>auto simp: on_write_def on_wait_def on_accept_def on_signal_def Let_def split: if_splits\<close>)

section \<open>Requests\<close>

lemma serves_client_error: "serves m (rq_response (client_error e r)) m"
proof -
  have "rq_response (client_error e r) = ''CLIENT_ERROR '' @ what e @ CRLF" by (simp add: client_error_def finish_def)
  then show ?thesis by (simp only: serves.refused)
qed

lemma client_error_finished: "rq_status (client_error e r) = FINISHED"
  by (simp add: client_error_def finish_def)

context reliable_store
begin

lemma prepare_response_serves:
  assumes "inv d" "\<not> held d" "answerable r" "prepare_response (Some s) d r = Some (r', d')"
  shows "serves (contents d) (rq_response r') (contents d')"
proof -
  consider "rq_command r = PING" | "rq_command r \<in> store_commands" "rq_keys r = []" | "rq_command r \<in> store_commands" "rq_keys r \<noteq> []"
    using assms(3) by (auto simp: answerable_def store_commands_def)
  then show ?thesis
  proof cases
    case 1
    with assms(4) have "rq_response r' = ''PONG'' @ CRLF" "d' = d" by (auto simp: prepare_response_def finish_def)
    then show ?thesis by (simp only: serves.ping)
  next
    case 2
    then have "rq_command r \<noteq> PING" by (auto simp: store_commands_def)
    with 2 assms(4) have "rq_response r' = ''ERROR No key was found in request'' @ CRLF" "d' = d"
      by (auto simp: prepare_response_def finish_def)
    then show ?thesis by (simp only: serves.no_key)
  next
    case 3
    with prepare_response_refines [OF assms(1,2), of r] assms(3,4) show ?thesis
      using serves.command [OF 3, where v = "rq_buffer r" and m = "contents d"]
      by (auto simp: finish_def answerable_def keys_are_words_def)
  qed
qed

lemma process_loop_serves:
  assumes "process_loop (Some s) d r xs = Some (r', d')" "inv d" "\<not> held d" "rq_inv r" "rq_status r \<noteq> FINISHED"
  shows "if rq_status r' = FINISHED then serves (contents d) (rq_response r') (contents d') else d' = d"
  using assms
proof (induction xs arbitrary: r)
  case (Cons c xs)
  show ?case
  proof (cases "process_char r c")
    case (Continue r1)
    then have "rq_inv r1" "rq_status r1 \<noteq> FINISHED"
      using process_char_Continue_inv [OF Continue] process_char_Continue [OF Continue] Cons.prems(4,5) by auto
    with Cons.IH [of r1] Cons.prems(1-3) Continue show ?thesis by simp
  next
    case (Prepare r1)
    with Cons.prems(1) have p: "prepare_response (Some s) d r1 = Some (r', d')" by simp
    then have "rq_status r' = FINISHED" by (auto dest!: prepare_response_finish simp: finish_def)
    with prepare_response_serves [OF Cons.prems(2,3) process_char_Prepare_answerable [OF Prepare Cons.prems(4)] p] show ?thesis by simp
  next
    case (Throw e r1)
    with Cons.prems(1) show ?thesis by (auto simp: client_error_finished intro: serves_client_error)
  qed
qed simp

lemma process_serves:
  assumes "process (Some s) d r data = Some (r', d')" "inv d" "\<not> held d" "rq_inv r" "rq_status r \<noteq> FINISHED"
  shows "if rq_status r' = FINISHED then serves (contents d) (rq_response r') (contents d') else d' = d"
  using assms process_loop_serves [of d r data r' d']
  by (auto simp: process_def client_error_finished intro: serves_client_error split: if_splits)

text \<open>A step of the server leaves the contents alone and answers nothing new, or serves one request.\<close>

lemma server_step_serves:
  assumes "server_step x x'" "server_inv x" "store_good s (\<lambda>d. inv d \<and> \<not> held d) x"
  shows "contents (sv_db x') = contents (sv_db x) \<and> answers x' \<subseteq> answers x \<or>
    (\<exists>reply. serves (contents (sv_db x)) reply (contents (sv_db x')) \<and> answers x' \<subseteq> insert reply (answers x))"
  using assms(1)
proof cases
  case (complete a)
  from completes_answers [OF complete(3) refl] show ?thesis
  proof
    assume "\<exists>c k q bytes. a = Read_some c k \<and> process (sv_store x) (sv_db x) (cn_request (conn x c)) bytes = Some (q, sv_db x') \<and>
      answers x' \<subseteq> (if rq_status q = FINISHED then insert (rq_response q) (answers x) else answers x)"
    then obtain c k q bytes where p: "a = Read_some c k"
      "process (sv_store x) (sv_db x) (cn_request (conn x c)) bytes = Some (q, sv_db x')"
      "answers x' \<subseteq> (if rq_status q = FINISHED then insert (rq_response q) (answers x) else answers x)" by blast
    have "conn_inv c {#Read_some c k#} (conn x c)" using inv_taken_io(3) [OF assms(2), of a c] complete(2) p(1) by simp
    then have r: "rq_inv (cn_request (conn x c))" "rq_status (cn_request (conn x c)) \<noteq> FINISHED" by (auto simp: conn_inv_def)
    have "process (Some s) (sv_db x) (cn_request (conn x c)) bytes = Some (q, sv_db x')" and "inv (sv_db x)" "\<not> held (sv_db x)"
      using p(2) assms(3) by (simp_all add: store_good_def)
    from process_serves [OF this r] p(3) show ?thesis by (cases "rq_status q = FINISHED") auto
  qed auto
qed (auto simp: set_read_timeout_def set_write_timeout_def set_max_request_bytes_def server_stop_def answers_def)

lemma server_reach_serves:
  assumes "server_reach (Some s) d x" "inv d" "\<not> held d"
  shows "\<exists>replies. serves_all (contents d) replies (contents (sv_db x)) \<and> answers x \<subseteq> set replies"
  using assms
proof (induction rule: server_reach.induct)
  case (new now x)
  then have "sv_db x = d" "answers x = {}"
    by (auto simp: server_new_def Let_def do_await_stop_def do_accept_def post_def answers_def)
  then show ?case using serves_all.none [of "contents d"] by auto
next
  case (step x x')
  then obtain replies where r: "serves_all (contents d) replies (contents (sv_db x))" "answers x \<subseteq> set replies" by blast
  from server_step_serves [OF step.hyps(2) server_reach_inv [OF step.hyps(1)] server_reach_store [OF step.hyps(1) step.prems]]
  show ?case
  proof
    assume "contents (sv_db x') = contents (sv_db x) \<and> answers x' \<subseteq> answers x"
    with r show ?thesis by auto
  next
    assume "\<exists>reply. serves (contents (sv_db x)) reply (contents (sv_db x')) \<and> answers x' \<subseteq> insert reply (answers x)"
    then obtain reply where "serves (contents (sv_db x)) reply (contents (sv_db x'))" "answers x' \<subseteq> insert reply (answers x)" by blast
    then show ?thesis using serves_all.more [OF r(1)] r(2) by (intro exI [of _ "replies @ [reply]"]) auto
  qed
qed

end

section \<open>The property\<close>



end
