(* ===== verification/Option_Handler.thy ===== *)
theory Option_Handler
  imports Prelude
begin

text \<open>
  \<open>OptionHandler::Handler\<close>, the command-line parser: options are declared one by one, and
  each declaration scans the whole input for that option. The class is used through the
  program's own option classes (theory \<open>Options\<close>).
\<close>

section \<open>Data\<close>

datatype ArgumentType = Arg_none | Arg_required | Arg_optional

record option_decl =
  od_short_name :: char
  od_long_name :: string
  od_type :: ArgumentType
  od_multiple :: bool

type_synonym parsed = "(string, string list) omap"

record handler =
  hd_declared_options :: "option_decl list"
  hd_input :: "string list"
  hd_parsed_input :: parsed

text \<open>The constructor takes the arguments after the program's name.\<close>

definition handler_new :: "string list \<Rightarrow> handler" where
  "handler_new argv = \<lparr>hd_declared_options = [], hd_input = tl argv, hd_parsed_input = []\<rparr>"

definition no_argument_for_required :: "string \<Rightarrow> exn" where
  "no_argument_for_required name =
     Invalid_argument (''REQUIRED option '' @ [CHR 0x27] @ name @ [CHR 0x27] @ '' without argument'')"

definition argument_for_none :: "string \<Rightarrow> exn" where
  "argument_for_none name =
     Invalid_argument (''NONE option '' @ [CHR 0x27] @ name @ [CHR 0x27] @ '' with argument'')"

section \<open>Tokens\<close>

text \<open>\<open>at\<close> throws on an empty token, and on the token \<open>-\<close> when its second character is read.\<close>

definition is_short :: "string \<Rightarrow> exn + bool" where
  "is_short s = bind_exn (string_at s 0) (\<lambda>c. if c = CHR ''-'' then bind_exn (string_at s 1) (\<lambda>c1. Inr (c1 \<noteq> CHR ''-''))
     else Inr False)"

definition is_long :: "string \<Rightarrow> exn + bool" where
  "is_long s = bind_exn (string_at s 0) (\<lambda>c. if c = CHR ''-'' then bind_exn (string_at s 1) (\<lambda>c1. Inr (c1 = CHR ''-''))
     else Inr False)"

text \<open>\<open>is_long(s) || is_short(s)\<close>, and by de Morgan its negation.\<close>

definition is_option :: "string \<Rightarrow> exn + bool" where
  "is_option s = bind_exn (is_long s) (\<lambda>l. if l then Inr True else is_short s)"

section \<open>Updating\<close>

text \<open>\<open>rest\<close> are the tokens after the option's own.\<close>

definition update_none :: "option_decl \<Rightarrow> string list \<Rightarrow> parsed \<Rightarrow> exn + parsed" where
  "update_none opt rest p =
     bind_exn (case rest of [] \<Rightarrow> Inr False | s # _ \<Rightarrow> bind_exn (is_option s) (\<lambda>b. Inr (\<not> b))) (\<lambda>bad.
       if bad then Inl (argument_for_none (od_long_name opt))
       else Inr (case map_of p (od_long_name opt) of
                   None \<Rightarrow> omap_put (od_long_name opt) [] p
                 | Some _ \<Rightarrow> p))"

definition store_argument :: "option_decl \<Rightarrow> string \<Rightarrow> parsed \<Rightarrow> parsed" where
  "store_argument opt arg p = (case map_of p (od_long_name opt) of
       None \<Rightarrow> omap_put (od_long_name opt) [arg] p
     | Some args \<Rightarrow>
         if od_multiple opt then omap_put (od_long_name opt) (args @ [arg]) p
         else omap_put (od_long_name opt) (args[0 := arg]) p)"

fun update_optional_loop :: "option_decl \<Rightarrow> string list \<Rightarrow> parsed \<Rightarrow> exn + parsed" where
  "update_optional_loop opt [] p = Inr p"
| "update_optional_loop opt (s # rest) p =
     bind_exn (is_option s) (\<lambda>b. if b then Inr p else update_optional_loop opt rest (store_argument opt s p))"

text \<open>At the last token the iterator stays on the option itself, which ends the loop at once.\<close>

definition update_optional :: "option_decl \<Rightarrow> string \<Rightarrow> string list \<Rightarrow> parsed \<Rightarrow> exn + parsed" where
  "update_optional opt s rest p = update_optional_loop opt (if rest = [] then [s] else rest) p"

definition update_required :: "option_decl \<Rightarrow> string \<Rightarrow> string list \<Rightarrow> parsed \<Rightarrow> exn + parsed" where
  "update_required opt s rest p =
     bind_exn (case rest of [] \<Rightarrow> Inr True | s' # _ \<Rightarrow> is_option s') (\<lambda>bad.
       if bad then Inl (no_argument_for_required (od_long_name opt))
       else update_optional opt s rest p)"

definition option_matches :: "option_decl \<Rightarrow> string \<Rightarrow> exn + bool" where
  "option_matches opt s = bind_exn (is_option s) (\<lambda>b. if b then
     bind_exn (string_at s 1) (\<lambda>c. Inr (c = od_short_name opt \<or> drop 2 s = od_long_name opt)) else Inr False)"

definition update_at :: "option_decl \<Rightarrow> string \<Rightarrow> string list \<Rightarrow> parsed \<Rightarrow> exn + parsed" where
  "update_at opt s rest p = bind_exn (option_matches opt s) (\<lambda>m. if m then
       (case od_type opt of
          Arg_none \<Rightarrow> update_none opt rest p
        | Arg_required \<Rightarrow> update_required opt s rest p
        | Arg_optional \<Rightarrow> update_optional opt s rest p)
     else Inr p)"

fun update_loop :: "option_decl \<Rightarrow> string list \<Rightarrow> parsed \<Rightarrow> exn + parsed" where
  "update_loop opt [] p = Inr p"
| "update_loop opt (s # rest) p = bind_exn (update_at opt s rest p) (update_loop opt rest)"

definition add_option :: "char \<Rightarrow> string \<Rightarrow> ArgumentType \<Rightarrow> bool \<Rightarrow> handler \<Rightarrow> exn + handler" where
  "add_option short_name long_name type multiple h =
     (let opt = \<lparr>od_short_name = short_name, od_long_name = long_name, od_type = type, od_multiple = multiple\<rparr> in
      bind_exn (update_loop opt (hd_input h) (hd_parsed_input h)) (\<lambda>p.
        Inr (h\<lparr>hd_declared_options := hd_declared_options h @ [opt], hd_parsed_input := p\<rparr>)))"

section \<open>Queries\<close>

definition get_option :: "handler \<Rightarrow> string \<Rightarrow> bool" where
  "get_option h name \<longleftrightarrow> map_of (hd_parsed_input h) name \<noteq> None \<and> hd_parsed_input h \<noteq> []"

definition get_argument :: "handler \<Rightarrow> string \<Rightarrow> string" where
  "get_argument h name =
     (if \<not> get_option h name \<or> the (map_of (hd_parsed_input h) name) = [] then []
      else hd (the (map_of (hd_parsed_input h) name)))"

definition get_arguments :: "handler \<Rightarrow> string \<Rightarrow> string list" where
  "get_arguments h name = (if \<not> get_option h name then [] else the (map_of (hd_parsed_input h) name))"

end
