(* ===== verification/Options.thy ===== *)
theory Options
  imports Option_Handler
begin

text \<open>
  The program's option classes and \<open>parse_arg_options\<close>. An option holds a pointer to the
  variable it sets; here the variables are the fields of a configuration \<open>'c\<close> and the pointer
  is the pair of functions that read and write the field.
\<close>

section \<open>Options\<close>

datatype 'c opt =
    Bool_option char string string "'c \<Rightarrow> bool" "bool \<Rightarrow> 'c \<Rightarrow> 'c"
  | Int_option char string string "'c \<Rightarrow> int" "int \<Rightarrow> 'c \<Rightarrow> 'c"
  | Str_option char string string "'c \<Rightarrow> string" "string \<Rightarrow> 'c \<Rightarrow> 'c"

type_synonym 'c option_list = "(string \<times> 'c opt list) list"

fun default_value :: "'c opt \<Rightarrow> 'c \<Rightarrow> string" where
  "default_value (Bool_option s n d rd wr) c = []"
| "default_value (Int_option s n d rd wr) c = show_int (rd c)"
| "default_value (Str_option s n d rd wr) c = rd c"

fun opt_name :: "'c opt \<Rightarrow> string" where
  "opt_name (Bool_option s n d rd wr) = n"
| "opt_name (Int_option s n d rd wr) = n"
| "opt_name (Str_option s n d rd wr) = n"

fun opt_short_name :: "'c opt \<Rightarrow> char" where
  "opt_short_name (Bool_option s n d rd wr) = s"
| "opt_short_name (Int_option s n d rd wr) = s"
| "opt_short_name (Str_option s n d rd wr) = s"

fun opt_description :: "'c opt \<Rightarrow> string" where
  "opt_description (Bool_option s n d rd wr) = d"
| "opt_description (Int_option s n d rd wr) = d"
| "opt_description (Str_option s n d rd wr) = d"

fun register_option :: "'c opt \<Rightarrow> handler \<Rightarrow> exn + handler" where
  "register_option (Bool_option s n d rd wr) h = add_option s n Arg_none False h"
| "register_option (Int_option s n d rd wr) h = add_option s n Arg_required False h"
| "register_option (Str_option s n d rd wr) h = add_option s n Arg_required False h"

fun read_option :: "'c opt \<Rightarrow> handler \<Rightarrow> 'c \<Rightarrow> exn + 'c" where
  "read_option (Bool_option s n d rd wr) h c = Inr (if get_option h n then wr True c else c)"
| "read_option (Int_option s n d rd wr) h c =
     (if get_option h n then bind_exn (stoll (get_argument h n)) (\<lambda>v. Inr (wr v c)) else Inr c)"
| "read_option (Str_option s n d rd wr) h c = Inr (if get_option h n then wr (get_argument h n) c else c)"

section \<open>Parsing the command line\<close>

definition endl :: string where "endl = [LF]"

definition option_help :: "'c \<Rightarrow> 'c opt \<Rightarrow> string" where
  "option_help c opt =
     (if opt_short_name opt \<noteq> CHR ''?'' then ''-'' @ [opt_short_name opt] @ '', '' else []) @
     ''--'' @ opt_name opt @ '', '' @ opt_description opt @
     (if length (default_value opt c) > 0 then '' (default: '' @ default_value opt c @ '')'' else []) @ endl"

definition help_func :: "string \<Rightarrow> 'c option_list \<Rightarrow> 'c \<Rightarrow> string" where
  "help_func argv0 options c =
     ''Usage: '' @ argv0 @ '' [OPTION]...'' @ endl @ endl @
     ''General options: '' @ endl @ endl @ ''-h, --help, Show this help page.'' @ endl @
     concat (map (\<lambda>(name, opts). endl @ name @ '' options:'' @ endl @ endl @ concat (map (option_help c) opts)) options)"

fun register_all :: "'c opt list \<Rightarrow> handler \<Rightarrow> exn + handler" where
  "register_all [] h = Inr h"
| "register_all (opt # opts) h = bind_exn (register_option opt h) (register_all opts)"

text \<open>A variable that was read before a later one throws keeps its new value.\<close>

fun read_all :: "'c opt list \<Rightarrow> handler \<Rightarrow> 'c \<Rightarrow> exn option \<times> 'c" where
  "read_all [] h c = (None, c)"
| "read_all (opt # opts) h c = (case read_option opt h c of Inl e \<Rightarrow> (Some e, c) | Inr c' \<Rightarrow> read_all opts h c')"

definition parse_error :: "exn \<Rightarrow> string" where
  "parse_error e = ''Parse input flags error: '' @ what e @ endl @ ''Use -h, --help for a list of options'' @ endl"

text \<open>The returned flag, the variables afterwards, and what was printed.\<close>

definition parse_arg_options :: "string list \<Rightarrow> 'c option_list \<Rightarrow> 'c \<Rightarrow> bool \<times> 'c \<times> string" where
  "parse_arg_options argv options c =
     (case bind_exn (register_all (concat (map snd options)) (handler_new argv))
             (add_option (CHR ''h'') ''help'' Arg_none False) of
        Inl e \<Rightarrow> (False, c, parse_error e)
      | Inr h \<Rightarrow>
          if get_option h ''help'' then (False, c, help_func (hd argv) options c)
          else (case read_all (concat (map snd options)) h c of
                  (Some e, c') \<Rightarrow> (False, c', parse_error e)
                | (None, c') \<Rightarrow> (True, c', [])))"

section \<open>Command lines\<close>

text \<open>A command line in the documented form: \<open>--name\<close> for flags, \<open>--name value\<close> for the rest.\<close>

datatype flag = Flag string | Arg string string

fun render_flag :: "flag \<Rightarrow> string list" where
  "render_flag (Flag n) = [''--'' @ n]"
| "render_flag (Arg n v) = [''--'' @ n, v]"

definition render_flags :: "flag list \<Rightarrow> string list" where
  "render_flags fs = concat (map render_flag fs)"

definition value_ok :: "string \<Rightarrow> bool" where
  "value_ok v \<longleftrightarrow> v \<noteq> [] \<and> hd v \<noteq> CHR ''-''"

text \<open>The last argument given with a name.\<close>

fun flag_arg :: "flag list \<Rightarrow> string \<Rightarrow> string option" where
  "flag_arg [] n = None"
| "flag_arg (f # fs) n = (case flag_arg fs n of
       Some v \<Rightarrow> Some v
     | None \<Rightarrow> (case f of Arg n' v \<Rightarrow> if n' = n then Some v else None | Flag _ \<Rightarrow> None))"

fun takes_argument :: "'c opt \<Rightarrow> bool" where
  "takes_argument (Bool_option s n d rd wr) = False"
| "takes_argument opt = True"

text \<open>Each option is used the way it was declared; names that no option has are allowed.\<close>

fun flag_ok :: "'c opt list \<Rightarrow> flag \<Rightarrow> bool" where
  "flag_ok opts (Flag n) = list_all (\<lambda>opt. opt_name opt = n \<longrightarrow> \<not> takes_argument opt) opts"
| "flag_ok opts (Arg n v) = (value_ok v \<and> n \<noteq> ''help'' \<and> list_all (\<lambda>opt. opt_name opt = n \<longrightarrow> takes_argument opt) opts)"

fun ints_ok :: "flag list \<Rightarrow> 'c opt \<Rightarrow> bool" where
  "ints_ok fs (Int_option s n d rd wr) = (case flag_arg fs n of None \<Rightarrow> True | Some v \<Rightarrow> \<not> isl (stoll v))"
| "ints_ok fs opt = True"

text \<open>What the command line asks of one option.\<close>

fun apply_option :: "flag list \<Rightarrow> 'c opt \<Rightarrow> 'c \<Rightarrow> 'c" where
  "apply_option fs (Bool_option s n d rd wr) c = (if List.member fs (Flag n) then wr True c else c)"
| "apply_option fs (Int_option s n d rd wr) c =
     (case flag_arg fs n of None \<Rightarrow> c | Some v \<Rightarrow> wr (projr (stoll v)) c)"
| "apply_option fs (Str_option s n d rd wr) c = (case flag_arg fs n of None \<Rightarrow> c | Some v \<Rightarrow> wr v c)"

section \<open>Lemmas\<close>

lemma is_option_name: "is_option (CHR ''-'' # CHR ''-'' # n) = Inr True"
  by (simp add: is_option_def is_long_def string_at_def)

lemma is_option_value: "value_ok v \<Longrightarrow> is_option v = Inr False"
  by (cases v) (auto simp: is_option_def is_long_def is_short_def string_at_def value_ok_def)

lemma option_matches_name:
  "od_short_name opt \<noteq> CHR ''-'' \<Longrightarrow> option_matches opt (CHR ''-'' # CHR ''-'' # n) = Inr (n = od_long_name opt)"
  by (auto simp: option_matches_def is_option_name string_at_def)

lemma option_matches_value: "value_ok v \<Longrightarrow> option_matches opt v = Inr False"
  by (simp add: option_matches_def is_option_value)

lemma render_flags_simps [simp]:
  "render_flags [] = []" "render_flags (f # fs) = render_flag f @ render_flags fs"
  by (simp_all add: render_flags_def)

lemma render_flags_cases: "render_flags fs = [] \<or> (\<exists>n ts. render_flags fs = (CHR ''-'' # CHR ''-'' # n) # ts)"
proof (cases fs)
  case (Cons f fs')
  then show ?thesis by (cases f) auto
qed simp

lemmas line_simps = is_option_name is_option_value option_matches_name option_matches_value

lemma optional_stops: "update_optional_loop opt (render_flags fs) p = Inr p"
  using render_flags_cases [of fs] by (auto simp: is_option_name)

text \<open>One declaration scanning the line.\<close>

fun note_flag :: "option_decl \<Rightarrow> flag \<Rightarrow> parsed \<Rightarrow> parsed" where
  "note_flag opt (Flag n) p =
     (if n = od_long_name opt \<and> map_of p n = None then omap_put n [] p else p)"
| "note_flag opt (Arg n v) p = (if n = od_long_name opt then store_argument opt v p else p)"

definition decl_ok :: "option_decl \<Rightarrow> flag \<Rightarrow> bool" where
  "decl_ok opt f \<longleftrightarrow> (case f of
       Flag n \<Rightarrow> n = od_long_name opt \<longrightarrow> od_type opt = Arg_none
     | Arg n v \<Rightarrow> value_ok v \<and> (n = od_long_name opt \<longrightarrow> od_type opt = Arg_required))"

lemma update_loop_flags:
  assumes "od_short_name opt \<noteq> CHR ''-''" "list_all (decl_ok opt) fs"
  shows "update_loop opt (render_flags fs) p = Inr (fold (note_flag opt) fs p)"
  using assms(2)
proof (induction fs arbitrary: p)
  case (Cons f fs)
  show ?case
  proof (cases f)
    case (Flag n)
    have next_ok: "(case render_flags fs of [] \<Rightarrow> Inr False | s # _ \<Rightarrow> bind_exn (is_option s) (\<lambda>b. Inr (\<not> b))) = Inr False"
      using render_flags_cases [of fs] by (auto simp: is_option_name)
    have "update_at opt (CHR ''-'' # CHR ''-'' # n) (render_flags fs) p = Inr (note_flag opt f p)"
      using Cons.prems assms(1) next_ok
      by (auto simp: Flag update_at_def option_matches_name update_none_def decl_ok_def split: option.splits)
    then show ?thesis using Cons Flag by simp
  next
    case (Arg n v)
    then have v: "value_ok v" using Cons.prems by (simp add: decl_ok_def)
    have "update_at opt (CHR ''-'' # CHR ''-'' # n) (v # render_flags fs) p = Inr (note_flag opt f p)"
      using Cons.prems assms(1) v
      by (auto simp: Arg update_at_def option_matches_name update_required_def update_optional_def decl_ok_def
          is_option_value optional_stops)
    moreover have "update_at opt v (render_flags fs) q = Inr q" for q
      by (simp add: update_at_def option_matches_value v)
    ultimately show ?thesis using Cons Arg by simp
  qed
qed simp


lemma note_flags_other: "n \<noteq> od_long_name opt \<Longrightarrow> map_of (fold (note_flag opt) fs p) n = map_of p n"
proof (induction fs arbitrary: p)
  case (Cons f fs)
  moreover have "map_of (note_flag opt f p) n = map_of p n"
    using Cons.prems by (cases f) (auto simp: store_argument_def omap_simps split: option.splits)
  ultimately show ?case by simp
qed simp

lemma note_flags_required:
  assumes "\<not> od_multiple opt" "Flag (od_long_name opt) \<notin> set fs" "\<And>xs. map_of p (od_long_name opt) = Some xs \<Longrightarrow> length xs = 1"
  shows "map_of (fold (note_flag opt) fs p) (od_long_name opt) =
    (case flag_arg fs (od_long_name opt) of Some v \<Rightarrow> Some [v] | None \<Rightarrow> map_of p (od_long_name opt))"
  using assms(2,3)
proof (induction fs arbitrary: p)
  case (Cons f fs)
  let ?n = "od_long_name opt"
  have step: "map_of (note_flag opt f p) ?n = (case f of Arg n v \<Rightarrow> if n = ?n then Some [v] else map_of p ?n | Flag _ \<Rightarrow> map_of p ?n)"
  proof (cases f)
    case (Arg n v)
    then show ?thesis
      using assms(1) Cons.prems(2) by (auto simp: store_argument_def length_Suc_conv omap_simps split: option.splits)
  qed (use Cons.prems(1) in auto)
  have one: "map_of (note_flag opt f p) ?n = Some xs \<Longrightarrow> length xs = 1" for xs
    using step Cons.prems(2) by (auto split: flag.splits if_splits)
  show ?case
    using Cons.IH [of "note_flag opt f p"] one Cons.prems(1) step
    by (simp split: option.splits flag.splits if_splits)
qed simp

lemma note_flags_none:
  assumes "\<And>v. Arg (od_long_name opt) v \<notin> set fs"
  shows "map_of (fold (note_flag opt) fs p) (od_long_name opt) =
    (if Flag (od_long_name opt) \<in> set fs \<and> map_of p (od_long_name opt) = None then Some [] else map_of p (od_long_name opt))"
  using assms
proof (induction fs arbitrary: p)
  case (Cons f fs)
  then have "Arg (od_long_name opt) v \<notin> set fs" for v by simp
  from Cons.IH [OF this] Cons.prems show ?case by (cases f) (auto simp: omap_simps)
qed simp

text \<open>Registering all options: what the handler has parsed for each.\<close>

definition opt_decl :: "'c opt \<Rightarrow> option_decl" where
  "opt_decl opt = \<lparr>od_short_name = opt_short_name opt, od_long_name = opt_name opt,
     od_type = (if takes_argument opt then Arg_required else Arg_none), od_multiple = False\<rparr>"

definition parsed_by :: "flag list \<Rightarrow> 'c opt \<Rightarrow> string list option" where
  "parsed_by fs opt = (if takes_argument opt then map_option (\<lambda>v. [v]) (flag_arg fs (opt_name opt))
     else if Flag (opt_name opt) \<in> set fs then Some [] else None)"

definition opt_line_ok :: "flag list \<Rightarrow> 'c opt \<Rightarrow> bool" where
  "opt_line_ok fs opt \<longleftrightarrow> opt_short_name opt \<noteq> CHR ''-'' \<and> list_all (decl_ok (opt_decl opt)) fs"

lemma register_option_flags:
  assumes "opt_line_ok fs opt" "hd_input h = render_flags fs" "map_of (hd_parsed_input h) (opt_name opt) = None"
  shows "\<exists>h'. register_option opt h = Inr h' \<and> hd_input h' = hd_input h \<and>
    map_of (hd_parsed_input h') = (map_of (hd_parsed_input h))(opt_name opt := parsed_by fs opt)"
proof -
  let ?o = "opt_decl opt" and ?p = "hd_parsed_input h"
  let ?h = "h\<lparr>hd_declared_options := hd_declared_options h @ [?o], hd_parsed_input := fold (note_flag ?o) fs ?p\<rparr>"
  have "register_option opt h = Inr ?h"
    using update_loop_flags [of ?o fs ?p] assms(1,2)
    by (cases opt) (auto simp: opt_line_ok_def add_option_def opt_decl_def Let_def)
  moreover have "map_of (fold (note_flag ?o) fs ?p) (opt_name opt) = parsed_by fs opt"
  proof (cases "takes_argument opt")
    case True
    then have "Flag (opt_name opt) \<notin> set fs"
      using assms(1) by (auto simp: opt_line_ok_def list_all_iff decl_ok_def opt_decl_def)
    with note_flags_required [of ?o fs ?p] True assms(3) show ?thesis
      by (simp add: opt_decl_def parsed_by_def split: option.splits)
  next
    case False
    then have "Arg (opt_name opt) v \<notin> set fs" for v
      using assms(1) by (auto simp: opt_line_ok_def list_all_iff decl_ok_def opt_decl_def)
    with note_flags_none [of ?o fs ?p] False assms(3) show ?thesis
      by (simp add: opt_decl_def parsed_by_def)
  qed
  moreover have "map_of (fold (note_flag ?o) fs ?p) n = map_of ?p n" if "n \<noteq> opt_name opt" for n
    using that by (intro note_flags_other) (simp add: opt_decl_def)
  ultimately show ?thesis by auto
qed

lemma register_all_flags:
  assumes "list_all (opt_line_ok fs) opts" "hd_input h = render_flags fs" "distinct (map opt_name opts)"
    and "\<And>opt. opt \<in> set opts \<Longrightarrow> map_of (hd_parsed_input h) (opt_name opt) = None"
  shows "\<exists>h'. register_all opts h = Inr h' \<and> hd_input h' = hd_input h \<and>
    (\<forall>opt \<in> set opts. map_of (hd_parsed_input h') (opt_name opt) = parsed_by fs opt) \<and>
    (\<forall>n. n \<notin> opt_name ` set opts \<longrightarrow> map_of (hd_parsed_input h') n = map_of (hd_parsed_input h) n)"
  using assms
proof (induction opts arbitrary: h)
  case (Cons opt opts)
  obtain h1 where h1: "register_option opt h = Inr h1" "hd_input h1 = hd_input h"
    "map_of (hd_parsed_input h1) = (map_of (hd_parsed_input h))(opt_name opt := parsed_by fs opt)"
    using register_option_flags [of fs opt h] Cons.prems by auto
  have "map_of (hd_parsed_input h1) (opt_name o') = None" if "o' \<in> set opts" for o'
    using that Cons.prems(3) Cons.prems(4) [of o'] h1(3) by (auto simp: image_iff)
  with Cons.IH [of h1] Cons.prems h1(2) obtain h' where
    h': "register_all opts h1 = Inr h'" "hd_input h' = hd_input h1"
    "\<forall>opt \<in> set opts. map_of (hd_parsed_input h') (opt_name opt) = parsed_by fs opt"
    "\<forall>n. n \<notin> opt_name ` set opts \<longrightarrow> map_of (hd_parsed_input h') n = map_of (hd_parsed_input h1) n"
    by auto
  then show ?case using h1 Cons.prems(3) by auto
qed simp

lemma get_option_parsed: "get_option h n \<longleftrightarrow> map_of (hd_parsed_input h) n \<noteq> None"
  by (auto simp: get_option_def)

lemma bind_exn_projr: "\<not> isl x \<Longrightarrow> bind_exn x f = f (projr x)"
  by (cases x) auto

lemma read_all_flags:
  assumes "\<forall>opt \<in> set opts. map_of (hd_parsed_input h) (opt_name opt) = parsed_by fs opt" "list_all (ints_ok fs) opts"
  shows "read_all opts h c = (None, fold (apply_option fs) opts c)"
  using assms
proof (induction opts arbitrary: c)
  case (Cons opt opts)
  have "read_option opt h c = Inr (apply_option fs opt c)"
    using Cons.prems
    by (cases opt)
      (auto simp: get_option_parsed get_argument_def parsed_by_def bind_exn_projr List.member_iff
        split: option.splits)
  with Cons show ?case by simp
qed simp


section \<open>Properties\<close>

lemma opt_line_okI:
  assumes "list_all (\<lambda>opt. opt_short_name opt \<noteq> CHR ''-'') opts" "list_all (flag_ok opts) fs"
  shows "list_all (opt_line_ok fs) opts"
proof -
  have "decl_ok (opt_decl opt) f" if "opt \<in> set opts" "f \<in> set fs" for opt f
    using that assms by (cases f) (auto simp: list_all_iff decl_ok_def opt_decl_def)
  with assms(1) show ?thesis by (auto simp: opt_line_ok_def list_all_iff)
qed

definition help_option :: "'c opt" where
  "help_option = Bool_option (CHR ''h'') ''help'' [] (\<lambda>_. False) (\<lambda>_ c. c)"

lemma help_line_ok: "list_all (flag_ok opts) fs \<Longrightarrow> opt_line_ok fs help_option"
proof -
  assume ok: "list_all (flag_ok opts) fs"
  have "decl_ok (opt_decl help_option) f" if "f \<in> set fs" for f
  proof -
    have "flag_ok opts f" using that ok by (simp add: list_all_iff)
    then show ?thesis by (cases f) (simp_all add: decl_ok_def opt_decl_def help_option_def)
  qed
  then show ?thesis by (auto simp: opt_line_ok_def list_all_iff help_option_def)
qed

text \<open>The handler that \<open>parse_arg_options\<close> reads from.\<close>

lemma parse_handler:
  assumes "distinct (map opt_name opts)" "''help'' \<notin> opt_name ` set opts"
    and "list_all (\<lambda>opt. opt_short_name opt \<noteq> CHR ''-'') opts" "list_all (flag_ok opts) fs"
  shows "\<exists>h. bind_exn (register_all opts (handler_new (argv0 # render_flags fs))) (add_option (CHR ''h'') ''help'' Arg_none False) = Inr h \<and>
    (\<forall>opt \<in> set opts. map_of (hd_parsed_input h) (opt_name opt) = parsed_by fs opt) \<and>
    (get_option h ''help'' \<longleftrightarrow> Flag ''help'' \<in> set fs)"
proof -
  let ?h0 = "handler_new (argv0 # render_flags fs)"
  have h0: "hd_input ?h0 = render_flags fs" "hd_parsed_input ?h0 = []" by (simp_all add: handler_new_def)
  obtain h1 where h1: "register_all opts ?h0 = Inr h1" "hd_input h1 = render_flags fs"
    "\<forall>opt \<in> set opts. map_of (hd_parsed_input h1) (opt_name opt) = parsed_by fs opt"
    "map_of (hd_parsed_input h1) ''help'' = None"
    using register_all_flags [OF opt_line_okI [OF assms(3,4)] h0(1) assms(1)] assms(2) h0 by auto
  obtain h2 where h2: "add_option (CHR ''h'') ''help'' Arg_none False h1 = Inr h2"
    "map_of (hd_parsed_input h2) = (map_of (hd_parsed_input h1))(''help'' := parsed_by fs help_option)"
    using register_option_flags [OF help_line_ok [OF assms(4)] h1(2)] h1(4) by (auto simp: help_option_def)
  have "get_option h2 ''help'' \<longleftrightarrow> Flag ''help'' \<in> set fs"
    using h2(2) by (simp add: get_option_parsed parsed_by_def help_option_def)
  moreover have "opt_name opt \<noteq> ''help''" if "opt \<in> set opts" for opt
    using assms(2) that by (metis image_eqI)
  ultimately show ?thesis using h1 h2 by auto
qed

text \<open>
  (C19) Command lines are read as documented. For options with distinct names, on a line of
  flags and name/value pairs in which every option is used the way it was declared, no value
  starts with a dash and every integer can be read, \<open>parse_arg_options\<close> succeeds, prints
  nothing, and sets exactly the variables of the options that were given, each to the last
  value given.
\<close>

theorem command_line_parsed:
  assumes "distinct (map opt_name (concat (map snd options)))" and "''help'' \<notin> opt_name ` set (concat (map snd options))"
    and "list_all (\<lambda>opt. opt_short_name opt \<noteq> CHR ''-'') (concat (map snd options))"
    and "list_all (flag_ok (concat (map snd options))) fs"
    and "list_all (ints_ok fs) (concat (map snd options))" and "Flag ''help'' \<notin> set fs"
  shows "parse_arg_options (argv0 # render_flags fs) options c =
    (True, fold (apply_option fs) (concat (map snd options)) c, [])"
proof -
  obtain h where h: "bind_exn (register_all (concat (map snd options)) (handler_new (argv0 # render_flags fs)))
      (add_option (CHR ''h'') ''help'' Arg_none False) = Inr h"
    "\<forall>opt \<in> set (concat (map snd options)). map_of (hd_parsed_input h) (opt_name opt) = parsed_by fs opt"
    "\<not> get_option h ''help''"
    using parse_handler [OF assms(1-4), of argv0] assms(6) by metis
  show ?thesis
    using read_all_flags [OF h(2) assms(5), of c] h(1,3) by (simp add: parse_arg_options_def)
qed

text \<open>A small configuration: a verbosity flag, a thread count and a path.\<close>

definition sample_options :: "(bool \<times> int \<times> string) option_list" where
  "sample_options =
     [(''A'', [Bool_option (CHR ''v'') ''verbose'' ''Say more.'' fst (\<lambda>b c. (b, snd c)),
               Int_option (CHR ''?'') ''threads'' ''Number of threads.'' (fst \<circ> snd) (\<lambda>i c. (fst c, i, snd (snd c)))]),
      (''B'', [Str_option (CHR ''?'') ''path'' ''Path.'' (snd \<circ> snd) (\<lambda>p c. (fst c, fst (snd c), p))])]"

definition sample_line :: "flag list" where
  "sample_line = [Arg ''threads'' ''3'', Flag ''verbose'', Arg ''path'' ''/a'', Arg ''threads'' ''12'', Arg ''unknown'' ''x'']"

theorem command_line_parsed_witness:
  "parse_arg_options (''quitsies'' # render_flags sample_line) sample_options (False, 1, ''/tmp'') =
     (True, (True, 12, ''/a''), [])"
proof -
  let ?o = "concat (map snd sample_options)"
  have "distinct (map opt_name ?o)" "''help'' \<notin> opt_name ` set ?o"
    "list_all (\<lambda>opt. opt_short_name opt \<noteq> CHR ''-'') ?o" "list_all (flag_ok ?o) sample_line" "Flag ''help'' \<notin> set sample_line"
    by (simp_all add: sample_options_def sample_line_def value_ok_def)
  moreover have twelve: "stoll ''12'' = Inr 12" by code_simp
  then have "list_all (ints_ok sample_line) ?o" by (simp add: sample_options_def sample_line_def)
  ultimately have "parse_arg_options (''quitsies'' # render_flags sample_line) sample_options (False, 1, ''/tmp'') =
    (True, fold (apply_option sample_line) ?o (False, 1, ''/tmp''), [])"
    by (intro command_line_parsed)
  then show ?thesis by (simp add: sample_options_def sample_line_def twelve List.member_iff)
qed

text \<open>
  Asking for help shows the help page and changes nothing: on a line in the documented
  form that contains \<open>--help\<close>, whatever else it contains, \<open>parse_arg_options\<close> prints the help
  page, leaves every variable alone and returns false.
\<close>

lemma help_page_shown:
  assumes "distinct (map opt_name (concat (map snd options)))" and "''help'' \<notin> opt_name ` set (concat (map snd options))"
    and "list_all (\<lambda>opt. opt_short_name opt \<noteq> CHR ''-'') (concat (map snd options))"
    and "list_all (flag_ok (concat (map snd options))) fs" and "Flag ''help'' \<in> set fs"
  shows "parse_arg_options (argv0 # render_flags fs) options c = (False, c, help_func argv0 options c)"
  using parse_handler [OF assms(1-4), of argv0] assms(5) by (auto simp: parse_arg_options_def)

end
