(* ===== verification/Service.thy ===== *)
theory Service
  imports Options Server_Props
begin

text \<open>
  The program: the options it registers, and \<open>main\<close>, which parses them, opens the store and
  starts the two servers. The environment says what the calls into libraries do: creating the
  logger, resolving addresses, RocksDB.
\<close>

section \<open>Configuration\<close>

record 'db service =
  sc_http_address :: string
  sc_http_port :: string
  sc_http_prefix :: string
  sc_tcp_address :: string
  sc_tcp_port :: string
  sc_statsd_address :: string
  sc_statsd_port :: string
  sc_statsd_prefix :: string
  sc_log_level :: string
  sc_n_http_threads :: int
  sc_n_tcp_threads :: int
  sc_db :: "'db rocks"

definition service_new :: "'db service" where
  "service_new =
     \<lparr>sc_http_address = ''localhost'', sc_http_port = ''3058'', sc_http_prefix = ''/quitsies'',
      sc_tcp_address = ''localhost'', sc_tcp_port = ''11211'', sc_statsd_address = [],
      sc_statsd_port = ''8125'', sc_statsd_prefix = ''quitsies'', sc_log_level = ''info'',
      sc_n_http_threads = 1, sc_n_tcp_threads = 10, sc_db = rocks_new\<rparr>"

text \<open>The options of the store; \<open>rd\<close> and \<open>wr\<close> reach the store object.\<close>

definition rocks_register_options ::
    "('c \<Rightarrow> 'db rocks) \<Rightarrow> (('db rocks \<Rightarrow> 'db rocks) \<Rightarrow> 'c \<Rightarrow> 'c) \<Rightarrow> 'c option_list \<Rightarrow> 'c option_list" where
  "rocks_register_options rd wr options = options @
     [(''DB'',
       [Str_option (CHR ''?'') ''db_path'' ''Path to store DB files.''
          (rk_path \<circ> rd) (\<lambda>v. wr (rk_path_update (\<lambda>_. v))),
        Int_option (CHR ''?'') ''db_ttl'' ''A TTL for all DB items. WARN: This applies to old records.''
          (rk_ttl \<circ> rd) (\<lambda>v. wr (rk_ttl_update (\<lambda>_. v))),
        Int_option (CHR ''?'') ''db_max_open_files'' ''Max # of open files, -1 is unlimited.''
          (rk_max_files \<circ> rd) (\<lambda>v. wr (rk_max_files_update (\<lambda>_. v))),
        Int_option (CHR ''?'') ''db_memtable'' ''Set the memtable size. Higher == faster writes.''
          (rk_memtable \<circ> rd) (\<lambda>v. wr (rk_memtable_update (\<lambda>_. v))),
        Int_option (CHR ''?'') ''db_shard_bits'' ''Set the block cache shard bits. 4 == 16 shards.''
          (rk_shard_bits \<circ> rd) (\<lambda>v. wr (rk_shard_bits_update (\<lambda>_. v))),
        Int_option (CHR ''?'') ''db_block_cap'' ''Set the cap to the block_cache. Higher == faster reads.''
          (rk_block_cap \<circ> rd) (\<lambda>v. wr (rk_block_cap_update (\<lambda>_. v))),
        Bool_option (CHR ''d'') ''db_debug'' ''Collect more granular RocksDB metrics at a small cost to performance.''
          (rk_debug \<circ> rd) (\<lambda>v. wr (rk_debug_update (\<lambda>_. v))),
        Bool_option (CHR ''?'') ''db_write_mode'' ''Optimize RocksDB compaction for write amp.''
          (rk_write_mode \<circ> rd) (\<lambda>v. wr (rk_write_mode_update (\<lambda>_. v))),
        Bool_option (CHR ''?'') ''db_restore_backup'' ''Restore DB from a backup.''
          (rk_restore \<circ> rd) (\<lambda>v. wr (rk_restore_update (\<lambda>_. v)))])]"

definition service_options :: "'db service option_list" where
  "service_options = rocks_register_options sc_db (\<lambda>f c. c\<lparr>sc_db := f (sc_db c)\<rparr>)
     [(''IO'',
       [Str_option (CHR ''?'') ''http_address'' ''Address to bind to for HTTP.'' sc_http_address (\<lambda>v c. c\<lparr>sc_http_address := v\<rparr>),
        Str_option (CHR ''?'') ''http_port'' ''Port to bind to for HTTP.'' sc_http_port (\<lambda>v c. c\<lparr>sc_http_port := v\<rparr>),
        Str_option (CHR ''?'') ''http_prefix'' ''Path prefix for HTTP paths.'' sc_http_prefix (\<lambda>v c. c\<lparr>sc_http_prefix := v\<rparr>),
        Int_option (CHR ''?'') ''http_threads'' ''Number of HTTP threads.'' sc_n_http_threads (\<lambda>v c. c\<lparr>sc_n_http_threads := v\<rparr>),
        Str_option (CHR ''?'') ''tcp_address'' ''Address to bind to for TCP.'' sc_tcp_address (\<lambda>v c. c\<lparr>sc_tcp_address := v\<rparr>),
        Str_option (CHR ''?'') ''tcp_port'' ''Port to bind to for TCP.'' sc_tcp_port (\<lambda>v c. c\<lparr>sc_tcp_port := v\<rparr>),
        Int_option (CHR ''?'') ''tcp_threads'' ''Number of TCP threads.'' sc_n_tcp_threads (\<lambda>v c. c\<lparr>sc_n_tcp_threads := v\<rparr>),
        Str_option (CHR ''?'') ''statsd_address'' ''Address of the statsd server for sending metrics.'' sc_statsd_address (\<lambda>v c. c\<lparr>sc_statsd_address := v\<rparr>),
        Str_option (CHR ''?'') ''statsd_port'' ''Port of the statsd server for sending metrics.'' sc_statsd_port (\<lambda>v c. c\<lparr>sc_statsd_port := v\<rparr>),
        Str_option (CHR ''?'') ''statsd_prefix'' ''Prefix of statsd metrics.'' sc_statsd_prefix (\<lambda>v c. c\<lparr>sc_statsd_prefix := v\<rparr>),
        Str_option (CHR ''?'') ''log_level'' ''Level of logging (trace, debug, info, warn, err, critical, off).'' sc_log_level (\<lambda>v c. c\<lparr>sc_log_level := v\<rparr>)])]"

section \<open>The main function\<close>

text \<open>
  What libraries do when \<open>main\<close> calls them: the exception they throw, if any; the next
  character of the standard input; the backups on disk; the clock.
\<close>

record ('db, 'bk) main_env =
  me_rocksdb :: "('db, 'bk) rocksdb_env"
  me_peek :: int
  me_backups :: 'bk
  me_logger :: "exn option"
  me_statsd :: "exn option"
  me_tcp_bind :: "exn option"
  me_http_bind :: "exn option"
  me_now :: int

text \<open>
  The outcomes: returning an exit code, an exception that leaves \<open>main\<close>, undefined behaviour
  in the store's destructor, or serving: the TCP server, the number of its threads and of the
  HTTP server's. A process that serves returns 0 once both servers have been stopped.
\<close>

datatype 'db outcome =
    Exited int
  | Terminated exn
  | Undefined_behaviour
  | Serving "'db rocks server" nat int

record 'db main_result =
  mr_outcome :: "'db outcome"
  mr_stdout :: string
  mr_log :: "log_event list"

text \<open>
  \<open>mr_stdout\<close> is what parsing the options prints; the prompt of a restore is not recorded.
  Leaving \<open>main\<close> early destroys the store.
\<close>

definition exit_main :: "int \<Rightarrow> 'db rocks \<Rightarrow> 'db outcome" where
  "exit_main code db = (case rocks_destroy db of None \<Rightarrow> Undefined_behaviour | Some _ \<Rightarrow> Exited code)"

definition listen_events :: "'db service \<Rightarrow> log_event list" where
  "listen_events c =
     [(info, ''REST API listening at http://{}:{}{} with {} threads.'',
        [sc_http_address c, sc_http_port c, sc_http_prefix c, show_int (sc_n_http_threads c)]),
      (info, ''Memcached API listening at tcp://{}:{} with {} threads.'',
        [sc_tcp_address c, sc_tcp_port c, show_int (sc_n_tcp_threads c)])]"

definition create_stats :: "('db, 'bk) main_env \<Rightarrow> 'db service \<Rightarrow> log_event list \<times> (exn + aggregator)" where
  "create_stats env c =
     (if length (sc_statsd_address c) > 0
      then ([(info, ''Attempting to connect to statsd server at {}:{}'', [sc_statsd_address c, sc_statsd_port c])],
            case me_statsd env of
              Some e \<Rightarrow> Inl e
            | None \<Rightarrow> Inr (Statsd_aggregator (statsd_aggregator_new (sc_statsd_prefix c) 1)))
      else ([], Inr Null_aggregator))"

text \<open>
  The part of \<open>main\<close> after the store is open: the multiplexer's endpoints are registered, the
  TCP server is created and its thread started, then the HTTP server is created and run. When
  that throws, the joinable thread is destroyed, which terminates the process.
\<close>

definition start_servers :: "('db, 'bk) main_env \<Rightarrow> 'db rocksdb \<Rightarrow> 'db service \<Rightarrow> 'db rocks \<Rightarrow> 'db outcome" where
  "start_servers env api c db =
     (case server_new (me_tcp_bind env) (Some (rocks_store api)) db (me_now env) of
        Inl e \<Rightarrow> Terminated e
      | Inr srv \<Rightarrow>
          (case me_http_bind env of
             Some e \<Rightarrow> Terminated e
           | None \<Rightarrow> Serving srv (run_threads (to_int32 (sc_n_tcp_threads c))) (to_int32 (sc_n_http_threads c))))"

text \<open>What \<open>main\<close> does once the options are parsed.\<close>

definition run_main :: "('db, 'bk) main_env \<Rightarrow> 'db rocksdb \<Rightarrow> 'db service \<Rightarrow> 'db outcome \<times> log_event list" where
  "run_main env api c =
     (case me_logger env of
        Some e \<Rightarrow> (Terminated e, [])
      | None \<Rightarrow>
          (case create_level (sc_log_level c) of
             Inl e \<Rightarrow> (Terminated e, [])
           | Inr lvl \<Rightarrow>
               (case create_stats env c of
                  (l1, Inl e) \<Rightarrow> (Terminated e, listen_events c @ l1)
                | (l1, Inr stats) \<Rightarrow>
                    (case rocks_open (me_rocksdb env) (me_peek env) (me_backups env) (sc_db c) stats of
                       (Inl e, db, _) \<Rightarrow>
                         (exit_main 1 db, listen_events c @ l1 @ rk_log db @
                            [(err, ''Failed to open database: {}, terminating application.'', [what e])])
                     | (Inr _, db, _) \<Rightarrow>
                         (start_servers env api c db, listen_events c @ l1 @ rk_log db)))))"

definition service_main :: "('db, 'bk) main_env \<Rightarrow> 'db rocksdb \<Rightarrow> string list \<Rightarrow> 'db main_result" where
  "service_main env api argv =
     (case parse_arg_options argv service_options service_new of (ok, c, out) \<Rightarrow>
        if \<not> ok then \<lparr>mr_outcome = exit_main 1 (sc_db c), mr_stdout = out, mr_log = []\<rparr>
        else (case run_main env api c of (res, l) \<Rightarrow> \<lparr>mr_outcome = res, mr_stdout = out, mr_log = l\<rparr>))"

section \<open>Lemmas\<close>

fun opt_keeps :: "('c \<Rightarrow> bool) \<Rightarrow> 'c opt \<Rightarrow> bool" where
  "opt_keeps P (Bool_option s n d rd wr) = (\<forall>v c. P c \<longrightarrow> P (wr v c))"
| "opt_keeps P (Int_option s n d rd wr) = (\<forall>v c. P c \<longrightarrow> P (wr v c))"
| "opt_keeps P (Str_option s n d rd wr) = (\<forall>v c. P c \<longrightarrow> P (wr v c))"

lemma read_option_keeps: "opt_keeps P opt \<Longrightarrow> P c \<Longrightarrow> read_option opt h c = Inr c' \<Longrightarrow> P c'"
proof (cases opt)
  case (Int_option s n d rd wr)
  then show "opt_keeps P opt \<Longrightarrow> P c \<Longrightarrow> read_option opt h c = Inr c' \<Longrightarrow> P c'"
    by (cases "stoll (get_argument h n)") (auto split: if_splits)
qed (auto split: if_splits)

lemma read_all_keeps:
  "list_all (opt_keeps P) opts \<Longrightarrow> P c \<Longrightarrow> read_all opts h c = (ex, c') \<Longrightarrow> P c'"
  by (induction opts arbitrary: c) (auto split: sum.splits dest: read_option_keeps)

lemma parse_keeps:
  assumes "list_all (opt_keeps P) (concat (map snd options))" "P c" "parse_arg_options argv options c = (ok, c', out)"
  shows "P c'"
  using assms read_all_keeps [OF assms(1,2)]
  by (auto simp: parse_arg_options_def split: sum.splits if_splits prod.splits option.splits)

text \<open>Parsing the options leaves the store unopened and its mutex free.\<close>

definition store_untouched :: "'db service \<Rightarrow> bool" where
  "store_untouched c \<longleftrightarrow> rk_db (sc_db c) = Uninit \<and> \<not> rk_db_mutex (sc_db c)"

lemma service_parse_untouched:
  assumes "parse_arg_options argv service_options service_new = (ok, c, out)"
  shows "store_untouched c"
  by (rule parse_keeps [OF _ _ assms])
    (simp_all add: service_options_def rocks_register_options_def store_untouched_def service_new_def rocks_new_def)

lemma rocks_open_opened:
  assumes "rocks_open env peek bk db stats = (Inr u, db', bk')" "\<not> rk_db_mutex db"
  shows "rocks_opened db' \<and> \<not> rk_db_mutex db'"
  using assms
  by (auto simp: rocks_open_def rocks_restore_def rocks_open_db_def rk_note_def rocks_opened_def Let_def
      split: if_splits sum.splits prod.splits)

section \<open>Properties\<close>

text \<open>
  (C20) The server never runs without a database. Whenever \<open>main\<close> gets as far as serving,
  whatever the command line and whatever the libraries did, the TCP server is in an initial
  state on the RocksDB store, the store is open, its mutex is free and at least one thread
  serves, which is what the properties of requests and of the server assume.
\<close>

theorem main_serves_open_store:
  fixes env :: "('db, 'bk) main_env"
  assumes "mr_outcome (service_main env api argv) = Serving srv n m"
  shows "sv_store srv = Some (rocks_store api) \<and> rocks_opened (sv_db srv) \<and> \<not> rk_db_mutex (sv_db srv) \<and>
    server_reach (Some (rocks_store api)) (sv_db srv) srv \<and> 1 \<le> n"
proof -
  obtain ok and c :: "'db service" and out where p: "parse_arg_options argv service_options service_new = (ok, c, out)"
    by (metis prod_cases3)
  note u = service_parse_untouched [OF p]
  obtain stats db bk u' where o: "rocks_open (me_rocksdb env) (me_peek env) (me_backups env) (sc_db c) stats = (Inr u', db, bk)"
    and st: "start_servers env api c db = Serving srv n m"
    using assms p
    by (auto simp: service_main_def run_main_def exit_main_def split: if_splits option.splits sum.splits prod.splits)
  have db: "rocks_opened db" "\<not> rk_db_mutex db"
    using rocks_open_opened [OF o] u by (simp_all add: store_untouched_def)
  have new: "server_new None (Some (rocks_store api)) db (me_now env) = Inr srv" "1 \<le> n"
    using st by (auto simp: start_servers_def server_new_def Let_def run_threads_def split: sum.splits option.splits)
  have "sv_store srv = Some (rocks_store api)" "sv_db srv = db"
    using new(1) by (auto simp: server_new_def Let_def do_await_stop_def do_accept_def post_def)
  with db new server_reach.new [OF new(1)] show ?thesis by simp
qed

definition mem_main_env :: "((string, string) omap, backup_info list) main_env" where
  "mem_main_env = \<lparr>me_rocksdb = mem_env, me_peek = -1, me_backups = [], me_logger = None, me_statsd = None,
     me_tcp_bind = None, me_http_bind = None, me_now = 0\<rparr>"

lemma service_options_ok:
  "distinct (map opt_name (concat (map snd service_options)))" "''help'' \<notin> opt_name ` set (concat (map snd service_options))"
  "list_all (\<lambda>opt. opt_short_name opt \<noteq> CHR ''-'') (concat (map snd service_options))"
  by (simp_all add: service_options_def rocks_register_options_def)

lemma mem_main_serves:
  "\<exists>srv. mr_outcome (service_main mem_main_env mem_rocksdb [''quitsies'']) = Serving srv 10 1"
proof -
  let ?c = "service_new :: (string, string) omap service"
  have p: "parse_arg_options [''quitsies''] service_options ?c = (True, ?c, [])"
    by (simp add: parse_arg_options_def service_options_def rocks_register_options_def handler_new_def add_option_def
        Let_def get_option_def)
  show ?thesis
    unfolding service_main_def p
    by (simp add: run_main_def mem_main_env_def service_new_def create_level_def create_stats_def rocks_open_def
        rocks_new_def rocks_open_db_def mem_env_def mem_ok_def rk_note_def Let_def start_servers_def server_new_def
        run_threads_def to_int32_def)
qed

theorem main_serves_open_store_witness:
  "\<exists>srv. mr_outcome (service_main mem_main_env mem_rocksdb [''quitsies'']) = Serving srv 10 1 \<and> rocks_opened (sv_db srv)"
  using mem_main_serves main_serves_open_store by metis

text \<open>
  An early exit is not clean. Whenever parsing the command line fails, for the help page
  just as for a mistake, \<open>main\<close> returns before the store was opened, and destroying the
  store then deletes a pointer that was never initialised.
\<close>

lemma early_exit_undefined:
  fixes env :: "('db, 'bk) main_env" and c :: "'db service"
  assumes "parse_arg_options argv service_options service_new = (False, c, out)"
  shows "mr_outcome (service_main env api argv) = Undefined_behaviour"
  using service_parse_untouched [OF assms] assms
  by (simp add: service_main_def exit_main_def rocks_destroy_def store_untouched_def Let_def)

text \<open>
  The documented value of \<open>--db_max_open_files\<close> cannot be given: the option's help text
  says that -1 is unlimited, but an argument that starts with a dash is taken for an option,
  and the line is rejected.
\<close>

theorem negative_argument_rejected:
  "fst (parse_arg_options [''quitsies'', ''--db_max_open_files'', ''-1''] service_options service_new) = False \<and>
   snd (snd (parse_arg_options [''quitsies'', ''--db_max_open_files'', ''-1''] service_options service_new)) =
     parse_error (no_argument_for_required ''db_max_open_files'')"
  by (simp add: parse_arg_options_def service_options_def rocks_register_options_def handler_new_def add_option_def
      Let_def update_at_def option_matches_def is_option_def is_long_def is_short_def string_at_def update_required_def)

end
