(* ===== verification/Fmt_Digits.thy ===== *)
theory Fmt_Digits
  imports Prelude "HOL-Library.Monad_Syntax"
begin

unbundle bit_operations_syntax

text \<open>
  The integer printing of the bundled fmt library: digit counting by bit length and by
  division, the two-digits-at-a-time loop with its thousands separator, and \<open>FormatInt\<close>.
  A character buffer is a string and a pointer into it an index; a write outside of the buffer
  is \<open>None\<close>. The lemmas show that the optimised routines print what \<open>show_nat\<close> prints and
  stay inside the memory reserved for them.
\<close>

section \<open>Buffers\<close>

text \<open>\<open>std::uninitialized_copy\<close> of \<open>s\<close> to \<open>p\<close>, and \<open>*--p = c\<close>.\<close>

definition copy_to :: "nat \<Rightarrow> string \<Rightarrow> string \<Rightarrow> string option" where
  "copy_to p s b = (if p + length s \<le> length b then Some (take p b @ s @ drop (p + length s) b) else None)"

definition store_before :: "nat \<Rightarrow> char \<Rightarrow> string \<Rightarrow> string option" where
  "store_before p c b = (if p = 0 then None else copy_to (p - 1) [c] b)"

section \<open>Counting digits\<close>

definition DIGITS :: string where
  "DIGITS = ''0001020304050607080910111213141516171819'' @
            ''2021222324252627282930313233343536373839'' @
            ''4041424344454647484950515253545556575859'' @
            ''6061626364656667686970717273747576777879'' @
            ''8081828384858687888990919293949596979899''"

definition FMT_POWERS_OF_10 :: "nat \<Rightarrow> nat list" where
  "FMT_POWERS_OF_10 factor =
     [factor * 10, factor * 100, factor * 1000, factor * 10000, factor * 100000, factor * 1000000,
      factor * 10000000, factor * 100000000, factor * 1000000000]"

definition POWERS_OF_10_32 :: "nat list" where
  "POWERS_OF_10_32 = 0 # FMT_POWERS_OF_10 1"

definition POWERS_OF_10_64 :: "nat list" where
  "POWERS_OF_10_64 = 0 # FMT_POWERS_OF_10 1 @ FMT_POWERS_OF_10 1000000000 @ [1000000000 * 1000000000 * 10]"

text \<open>The compiler's count of leading zero bits of a nonzero \<open>w\<close>-bit number.\<close>

fun bit_length :: "nat \<Rightarrow> nat" where
  "bit_length n = (if n = 0 then 0 else Suc (bit_length (n div 2)))"

declare bit_length.simps [simp del]

definition clz :: "nat \<Rightarrow> nat \<Rightarrow> nat" where
  "clz w n = w - bit_length n"

definition count_digits64 :: "nat \<Rightarrow> nat" where
  "count_digits64 n =
     (let t = drop_bit 12 ((64 - clz 64 (n OR 1)) * 1233) in
      t - of_bool (n < POWERS_OF_10_64 ! t) + 1)"

definition count_digits32 :: "nat \<Rightarrow> nat" where
  "count_digits32 n =
     (let t = drop_bit 12 ((32 - clz 32 (n OR 1)) * 1233) in
      t - of_bool (n < POWERS_OF_10_32 ! t) + 1)"

text \<open>The version for compilers without that builtin.\<close>

fun count_digits_loop :: "nat \<Rightarrow> nat \<Rightarrow> nat" where
  "count_digits_loop count n =
     (if n < 10 then count
      else if n < 100 then count + 1
      else if n < 1000 then count + 2
      else if n < 10000 then count + 3
      else count_digits_loop (count + 4) (n div 10000))"

definition count_digits_fallback :: "nat \<Rightarrow> nat" where
  "count_digits_fallback n = count_digits_loop 1 n"

section \<open>Writing digits\<close>

text \<open>The functors called after each digit: none, or the separator with its digit index.\<close>

datatype thousands_sep = NoThousandsSep | ThousandsSep string nat

fun call_sep :: "thousands_sep \<Rightarrow> nat \<Rightarrow> string \<Rightarrow> (thousands_sep \<times> nat \<times> string) option" where
  "call_sep NoThousandsSep p b = Some (NoThousandsSep, p, b)"
| "call_sep (ThousandsSep sep i) p b =
     (if (i + 1) mod 3 \<noteq> 0 then Some (ThousandsSep sep (i + 1), p, b)
      else if p < length sep then None
      else do {
        b \<leftarrow> copy_to (p - length sep) sep b;
        Some (ThousandsSep sep (i + 1), p - length sep, b)
      })"

text \<open>
  The loop from the end pointer \<open>p\<close> downwards. The pointer to the first character written is
  returned with the buffer; \<open>format_decimal\<close> drops it, \<open>FormatInt\<close> keeps it.
\<close>

fun format_decimal_loop :: "nat \<Rightarrow> nat \<Rightarrow> thousands_sep \<Rightarrow> string \<Rightarrow> (nat \<times> string) option" where
  "format_decimal_loop p v ts b =
     (if v \<ge> 100 then do {
        let index = (v mod 100) * 2;
        b \<leftarrow> store_before p (DIGITS ! (index + 1)) b;
        (ts, p, b) \<leftarrow> call_sep ts (p - 1) b;
        b \<leftarrow> store_before p (DIGITS ! index) b;
        (ts, p, b) \<leftarrow> call_sep ts (p - 1) b;
        format_decimal_loop p (v div 100) ts b
      }
      else if v < 10 then do {
        b \<leftarrow> store_before p (digit_char v) b;
        Some (p - 1, b)
      }
      else do {
        let index = v * 2;
        b \<leftarrow> store_before p (DIGITS ! (index + 1)) b;
        (ts, p, b) \<leftarrow> call_sep ts (p - 1) b;
        b \<leftarrow> store_before p (DIGITS ! index) b;
        Some (p - 1, b)
      })"

declare format_decimal_loop.simps [simp del] count_digits_loop.simps [simp del]

definition format_decimal :: "nat \<Rightarrow> nat \<Rightarrow> nat \<Rightarrow> thousands_sep \<Rightarrow> string \<Rightarrow> string option" where
  "format_decimal buffer v num_digits ts b = map_option snd (format_decimal_loop (buffer + num_digits) v ts b)"

section \<open>Integer types\<close>

text \<open>
  The types an integer argument can have; \<open>IntTraits::MainType\<close> is the unsigned type of 32 or
  64 bits it is printed with, and \<open>abs_value\<close> the conversion to it with the negation of
  negative values.
\<close>

datatype int_type = Int_t | UInt_t | LongLong_t | ULongLong_t

fun main_bits :: "int_type \<Rightarrow> nat" where
  "main_bits Int_t = 32"
| "main_bits UInt_t = 32"
| "main_bits LongLong_t = 64"
| "main_bits ULongLong_t = 64"

fun int_in_range :: "int_type \<Rightarrow> int \<Rightarrow> bool" where
  "int_in_range Int_t v \<longleftrightarrow> - (2 ^ 31) \<le> v \<and> v < 2 ^ 31"
| "int_in_range UInt_t v \<longleftrightarrow> 0 \<le> v \<and> v < 2 ^ 32"
| "int_in_range LongLong_t v \<longleftrightarrow> - (2 ^ 63) \<le> v \<and> v < 2 ^ 63"
| "int_in_range ULongLong_t v \<longleftrightarrow> 0 \<le> v \<and> v < 2 ^ 64"

definition abs_value :: "int_type \<Rightarrow> int \<Rightarrow> nat" where
  "abs_value t v =
     (let a = v mod 2 ^ main_bits t in
      nat (if v < 0 then (0 - a) mod 2 ^ main_bits t else a))"

definition count_digits :: "int_type \<Rightarrow> nat \<Rightarrow> nat" where
  "count_digits t n = (if main_bits t = 32 then count_digits32 n else count_digits64 n)"

text \<open>
  \<open>FormatInt\<close>: a buffer of \<open>digits10 + 3\<close> characters with indeterminate contents \<open>b\<close>, written
  from the end; the pointer to the text is the first component.
\<close>

definition BUFFER_SIZE :: nat where
  "BUFFER_SIZE = 19 + 3"

definition FormatInt_format_decimal :: "nat \<Rightarrow> string \<Rightarrow> (nat \<times> string) option" where
  "FormatInt_format_decimal v b = format_decimal_loop (BUFFER_SIZE - 1) v NoThousandsSep b"

definition FormatSigned :: "int \<Rightarrow> string \<Rightarrow> (nat \<times> string) option" where
  "FormatSigned v b = do {
     (p, b) \<leftarrow> FormatInt_format_decimal (abs_value LongLong_t v) b;
     if v < 0 then do { b \<leftarrow> store_before p (CHR ''-'') b; Some (p - 1, b) } else Some (p, b)
   }"

definition FormatInt :: "int_type \<Rightarrow> int \<Rightarrow> string \<Rightarrow> (nat \<times> string) option" where
  "FormatInt t v b =
     (if t = Int_t \<or> t = LongLong_t then FormatSigned v b else FormatInt_format_decimal (nat v) b)"

definition FormatInt_size :: "nat \<Rightarrow> nat" where
  "FormatInt_size str = BUFFER_SIZE - 1 - str"

definition FormatInt_str :: "nat \<times> string \<Rightarrow> string" where
  "FormatInt_str = (\<lambda>(str, b). take (FormatInt_size str) (drop str b))"

text \<open>\<open>format_decimal(char *&buffer, T value)\<close>, with the advanced pointer.\<close>

definition format_decimal_abs :: "int_type \<Rightarrow> nat \<Rightarrow> nat \<Rightarrow> string \<Rightarrow> (nat \<times> string) option" where
  "format_decimal_abs t a buffer b =
     (if a < 100 then
       (if a < 10 then do { b \<leftarrow> copy_to buffer [digit_char a] b; Some (buffer + 1, b) }
        else do {
          let index = a * 2;
          b \<leftarrow> copy_to buffer [DIGITS ! index] b;
          b \<leftarrow> copy_to (buffer + 1) [DIGITS ! (index + 1)] b;
          Some (buffer + 2, b)
        })
     else do {
       let num_digits = count_digits t a;
       b \<leftarrow> format_decimal buffer a num_digits NoThousandsSep b;
       Some (buffer + num_digits, b)
     })"

definition format_decimal_at :: "int_type \<Rightarrow> int \<Rightarrow> nat \<Rightarrow> string \<Rightarrow> (nat \<times> string) option" where
  "format_decimal_at t v buffer b =
     (if v < 0 then do { b \<leftarrow> copy_to buffer ''-'' b; format_decimal_abs t (abs_value t v) (buffer + 1) b }
      else format_decimal_abs t (abs_value t v) buffer b)"

section \<open>Number of digits\<close>

lemma show_nat_small [simp]: "n < 10 \<Longrightarrow> show_nat n = [digit_char n]"
  by (simp add: show_nat.simps [of n])

lemma show_nat_large: "\<not> n < 10 \<Longrightarrow> show_nat n = show_nat (n div 10) @ [digit_char (n mod 10)]"
  by (simp add: show_nat.simps [of n])

lemma show_nat_two: "n \<ge> 100 \<Longrightarrow> show_nat n = show_nat (n div 100) @ [digit_char (n mod 100 div 10), digit_char (n mod 10)]"
proof -
  assume n: "n \<ge> 100"
  then have "\<not> n < 10" "\<not> n div 10 < 10" by simp_all
  moreover have "n div 10 mod 10 = n mod 100 div 10" using mod_mult2_eq [of n 10 10] by simp
  ultimately show ?thesis by (simp add: show_nat_large [of n] show_nat_large [of "n div 10"] div_mult2_eq [symmetric])
qed

lemma length_show_nat: "(k = 0 \<or> 10 ^ k \<le> n) \<Longrightarrow> n < 10 ^ Suc k \<Longrightarrow> length (show_nat n) = Suc k"
proof (induction k arbitrary: n)
  case (Suc k)
  then have n: "10 * 10 ^ k \<le> n" "n < 10 * (10 * 10 ^ k)" by simp_all
  then have "10 ^ k \<le> n div 10" "n div 10 < 10 ^ Suc k"
    by (simp_all add: less_mult_imp_div_less less_eq_div_iff_mult_less_eq)
  moreover have "(1 :: nat) \<le> 10 ^ k" by simp
  with n(1) have "\<not> n < 10" by linarith
  ultimately have "10 ^ k \<le> n div 10" "n div 10 < 10 ^ Suc k" "\<not> n < 10" by simp_all
  with Suc.IH [of "n div 10"] show ?case by (simp add: show_nat_large)
qed simp

lemma bit_length_bounds: "n > 0 \<Longrightarrow> 2 ^ (bit_length n - 1) \<le> n \<and> n < 2 ^ bit_length n"
proof (induction n rule: bit_length.induct)
  case (1 n)
  show ?case
  proof (cases "n div 2 = 0")
    case True
    with "1.prems" have "n = 1" by simp
    then show ?thesis by (simp add: bit_length.simps)
  next
    case False
    with "1" have IH: "2 ^ (bit_length (n div 2) - 1) \<le> n div 2" "n div 2 < 2 ^ bit_length (n div 2)" by simp_all
    obtain k where k: "bit_length (n div 2) = Suc k" using False by (subst (asm) bit_length.simps) (auto simp: bit_length.simps [of "n div 2"])
    then have L: "bit_length n = Suc (Suc k)" using "1.prems" by (simp add: bit_length.simps [of n])
    have "2 * 2 ^ k \<le> n" "n < 4 * 2 ^ k" using IH unfolding k by simp_all
    then show ?thesis unfolding L by simp
  qed
qed

lemma bit_length_le: "n < 2 ^ w \<Longrightarrow> bit_length n \<le> w"
proof (cases "n = 0")
  case False
  assume n: "n < 2 ^ w"
  from False have "2 ^ (bit_length n - 1) \<le> n" using bit_length_bounds by simp
  then have "(2 :: nat) ^ (bit_length n - 1) < 2 ^ w" using n by (rule le_less_trans)
  from power_less_imp_less_exp [OF _ this] have "bit_length n - 1 < w" by simp
  then show ?thesis by simp
qed (simp add: bit_length.simps)

lemma bit_length_or_one: "bit_length (n OR 1) = (if n = 0 then 1 else bit_length n)"
proof -
  have o: "n OR 1 = n + of_bool (even n)" by (rule or_one_eq)
  then have "n OR 1 \<noteq> 0" "(n OR 1) div 2 = n div 2" by (auto elim!: oddE)
  then have "bit_length (n OR 1) = Suc (bit_length (n div 2))" by (simp only: bit_length.simps [of "n OR 1"] if_False)
  then show ?thesis by (simp only: bit_length.simps [of n]) (simp add: bit_length.simps [of 0])
qed

text \<open>The estimate of the decimal logarithm from the bit length is off by at most one.\<close>

lemma estimate_table:
  "list_all (\<lambda>L. let t = drop_bit 12 (L * 1233) in
      (t = 0 \<or> (10 :: nat) ^ (t - 1) \<le> 2 ^ (L - 1)) \<and> (2 :: nat) ^ L \<le> 10 ^ (t + 1) \<and>
      POWERS_OF_10_64 ! t = (if t = 0 then 0 else 10 ^ t) \<and> t < 20) (upt 1 65)"
  unfolding upt_rec_numeral Let_def POWERS_OF_10_64_def FMT_POWERS_OF_10_def drop_bit_eq_div
  by (simp add: upt_rec)

lemma powers_32_64: "t < 10 \<Longrightarrow> POWERS_OF_10_32 ! t = POWERS_OF_10_64 ! t"
  by (simp add: POWERS_OF_10_32_def POWERS_OF_10_64_def FMT_POWERS_OF_10_def nth_append nth_Cons')

lemma estimate_digits:
  assumes "1 \<le> L" "L \<le> 64" "n < 2 ^ L" "n = 0 \<and> L = 1 \<or> 2 ^ (L - 1) \<le> n" "t = drop_bit 12 (L * 1233)"
  shows "t - of_bool (n < POWERS_OF_10_64 ! t) + 1 = length (show_nat n)"
proof -
  have tab: "(t = 0 \<or> (10 :: nat) ^ (t - 1) \<le> 2 ^ (L - 1)) \<and> (2 :: nat) ^ L \<le> 10 ^ (t + 1) \<and>
      POWERS_OF_10_64 ! t = (if t = 0 then 0 else 10 ^ t)"
    using assms estimate_table unfolding list_all_iff Let_def by fastforce
  consider (zero) "t = 0" | (less) "t > 0" "n < 10 ^ t" | (ge) "t > 0" "n \<ge> 10 ^ t" by linarith
  then show ?thesis
  proof cases
    case zero
    with tab assms(3) have "length (show_nat n) = Suc 0" by (intro length_show_nat) simp_all
    with zero tab show ?thesis by simp
  next
    case less
    then have "2 ^ (L - 1) \<le> n" using assms(4,5) by (auto simp: drop_bit_eq_div)
    then have "10 ^ (t - 1) \<le> n" using tab less(1) by (meson le_trans neq0_conv)
    with less have "length (show_nat n) = Suc (t - 1)" by (intro length_show_nat) simp_all
    with less tab show ?thesis by simp
  next
    case ge
    with tab assms(3) have "length (show_nat n) = Suc t" by (intro length_show_nat) simp_all
    with ge tab show ?thesis by simp
  qed
qed

lemma count_digits_log:
  assumes "n < 2 ^ w" "1 \<le> w" "w \<le> 64"
  shows "(let t = drop_bit 12 ((w - clz w (n OR 1)) * 1233) in t - of_bool (n < POWERS_OF_10_64 ! t) + 1) = length (show_nat n)"
proof -
  let ?L = "if n = 0 then 1 else bit_length n"
  have le: "bit_length n \<le> w" using assms(1) by (rule bit_length_le)
  have pos: "n \<noteq> 0 \<Longrightarrow> 1 \<le> bit_length n" by (simp add: bit_length.simps [of n])
  have "w - clz w (n OR 1) = ?L" using assms le pos by (auto simp: clz_def bit_length_or_one [unfolded One_nat_def])
  moreover have "n < 2 ^ ?L" "n = 0 \<and> ?L = 1 \<or> 2 ^ (?L - 1) \<le> n" using bit_length_bounds [of n] by auto
  moreover have "1 \<le> ?L" "?L \<le> 64" using le pos assms by auto
  ultimately show ?thesis using estimate_digits [of ?L n] by (simp only: Let_def)
qed

lemma count_digits64_eq: "n < 2 ^ 64 \<Longrightarrow> count_digits64 n = length (show_nat n)"
  unfolding count_digits64_def by (rule count_digits_log) simp_all

lemma count_digits32_eq: "n < 2 ^ 32 \<Longrightarrow> count_digits32 n = length (show_nat n)"
proof -
  assume n: "n < 2 ^ 32"
  then have "bit_length (n OR 1) \<le> 32" using bit_length_le [of n 32] by (simp add: bit_length_or_one [unfolded One_nat_def])
  then have "drop_bit 12 ((32 - clz 32 (n OR 1)) * 1233) < 10" by (simp add: clz_def drop_bit_eq_div)
  then have "count_digits32 n = (let t = drop_bit 12 ((32 - clz 32 (n OR 1)) * 1233) in t - of_bool (n < POWERS_OF_10_64 ! t) + 1)"
    by (simp only: count_digits32_def Let_def powers_32_64)
  with count_digits_log [OF n] show ?thesis by simp
qed

lemma count_digits_loop_eq: "count_digits_loop c n + 1 = c + length (show_nat n)"
proof (induction c n rule: count_digits_loop.induct)
  case (1 c n)
  consider "n < 10" | "10 ^ 1 \<le> n" "n < 10 ^ Suc 1" | "10 ^ 2 \<le> n" "n < 10 ^ Suc 2" | "10 ^ 3 \<le> n" "n < 10 ^ Suc 3"
    | (more) "n \<ge> 10000" by fastforce
  then show ?case
  proof cases
    case more
    then have "show_nat n = show_nat (n div 100 div 100) @ [digit_char (n div 100 mod 100 div 10), digit_char (n div 100 mod 10),
        digit_char (n mod 100 div 10), digit_char (n mod 10)]"
      by (simp add: show_nat_two [of n] show_nat_two [of "n div 100"])
    moreover have "n div 100 div 100 = n div 10000" by (simp add: div_mult2_eq [symmetric])
    ultimately show ?thesis using more "1.IH" by (simp add: count_digits_loop.simps [of c n])
  qed (simp_all add: count_digits_loop.simps [of c n] length_show_nat [of 1] length_show_nat [of 2] length_show_nat [of 3])
qed

lemma count_digits_fallback_eq: "count_digits_fallback n = length (show_nat n)"
  using count_digits_loop_eq [of 1 n] by (simp add: count_digits_fallback_def)

lemma count_digits_eq: "n < 2 ^ main_bits t \<Longrightarrow> count_digits t n = length (show_nat n)"
  by (cases t) (simp_all add: count_digits_def count_digits32_eq count_digits64_eq)

section \<open>Writing backwards\<close>

text \<open>The buffer after \<open>s\<close> was written so that it ends before \<open>p\<close>.\<close>

definition put_before :: "nat \<Rightarrow> string \<Rightarrow> string \<Rightarrow> string" where
  "put_before p s b = take (p - length s) b @ s @ drop p b"

lemma length_put_before [simp]: "length s \<le> p \<Longrightarrow> p \<le> length b \<Longrightarrow> length (put_before p s b) = length b"
  by (simp add: put_before_def)

lemma put_before_Nil [simp]: "put_before p [] b = b"
  by (simp add: put_before_def)

lemma put_before_put_before:
  assumes "length s + length s' \<le> p" "p \<le> length b"
  shows "put_before (p - length s) s' (put_before p s b) = put_before p (s' @ s) b"
  using assms by (simp add: put_before_def min_def add.commute)

lemma copy_to_before: "length s \<le> p \<Longrightarrow> p \<le> length b \<Longrightarrow> copy_to (p - length s) s b = Some (put_before p s b)"
  by (simp add: copy_to_def put_before_def)

lemma store_before_eq: "0 < p \<Longrightarrow> p \<le> length b \<Longrightarrow> store_before p c b = Some (put_before p [c] b)"
  using copy_to_before [of "[c]" p b] by (simp add: store_before_def)

fun next_sep :: "thousands_sep \<Rightarrow> thousands_sep" where
  "next_sep NoThousandsSep = NoThousandsSep"
| "next_sep (ThousandsSep sep i) = ThousandsSep sep (i + 1)"

fun sep_out :: "thousands_sep \<Rightarrow> string" where
  "sep_out NoThousandsSep = []"
| "sep_out (ThousandsSep sep i) = (if (i + 1) mod 3 = 0 then sep else [])"

lemma call_sep_eq:
  "length (sep_out ts) \<le> p \<Longrightarrow> p \<le> length b \<Longrightarrow>
   call_sep ts p b = Some (next_sep ts, p - length (sep_out ts), put_before p (sep_out ts) b)"
  by (cases ts) (auto simp: copy_to_before split: if_splits)

text \<open>The text of a number: the separator follows every third digit from the right but the last.\<close>

fun dec_text :: "thousands_sep \<Rightarrow> nat \<Rightarrow> string" where
  "dec_text ts n =
     (if n < 10 then [digit_char n] else dec_text (next_sep ts) (n div 10) @ sep_out ts @ [digit_char (n mod 10)])"

declare dec_text.simps [simp del]

lemma dec_text_plain [simp]: "dec_text NoThousandsSep n = show_nat n"
  by (induction n rule: show_nat.induct) (simp add: dec_text.simps show_nat.simps)

lemma dec_text_two:
  "n \<ge> 100 \<Longrightarrow> dec_text ts n = dec_text (next_sep (next_sep ts)) (n div 100) @ sep_out (next_sep ts) @
     [digit_char (n mod 100 div 10)] @ sep_out ts @ [digit_char (n mod 10)]"
proof -
  assume n: "n \<ge> 100"
  then have "\<not> n < 10" "\<not> n div 10 < 10" by simp_all
  moreover have "n div 10 mod 10 = n mod 100 div 10" using mod_mult2_eq [of n 10 10] by simp
  ultimately show ?thesis
    by (simp add: dec_text.simps [of _ n] dec_text.simps [of _ "n div 10"] div_mult2_eq [symmetric])
qed

lemma digit_chars:
  "digit_char 0 = CHR ''0''" "digit_char (Suc 0) = CHR ''1''" "digit_char 2 = CHR ''2''" "digit_char 3 = CHR ''3''"
  "digit_char 4 = CHR ''4''" "digit_char 5 = CHR ''5''" "digit_char 6 = CHR ''6''" "digit_char 7 = CHR ''7''"
  "digit_char 8 = CHR ''8''" "digit_char 9 = CHR ''9''"
  by (simp_all add: digit_char_def char_of_def bit_Suc_0_iff)

lemma DIGITS_table:
  "list_all (\<lambda>v. DIGITS ! (v * 2) = digit_char (v div 10) \<and> DIGITS ! (v * 2 + 1) = digit_char (v mod 10)) (upt 0 100)"
  unfolding DIGITS_def by (simp add: upt_rec digit_chars digit_chars(3) [unfolded numeral_2_eq_2])

lemma DIGITS_nth:
  assumes "v < 100"
  shows "DIGITS ! (v * 2) = digit_char (v div 10)" "DIGITS ! (v * 2 + 1) = digit_char (v mod 10)"
  using DIGITS_table assms by (simp_all add: list_all_iff)

section \<open>What the routines print\<close>

lemma digit_and_sep:
  assumes "length (sep_out ts) < p" "p \<le> length b" "q = p - 1"
  shows "(store_before p c b \<bind> (\<lambda>b. call_sep ts q b \<bind> k)) =
     k (next_sep ts, p - Suc (length (sep_out ts)), put_before p (sep_out ts @ [c]) b)"
proof -
  have "call_sep ts (p - 1) (put_before p [c] b) =
      Some (next_sep ts, p - 1 - length (sep_out ts), put_before (p - 1) (sep_out ts) (put_before p [c] b))"
    using assms by (intro call_sep_eq) simp_all
  then show ?thesis using assms put_before_put_before [of "[c]" "sep_out ts" p b] by (simp add: store_before_eq)
qed

lemma format_decimal_loop_eq:
  "length (dec_text ts v) \<le> p \<Longrightarrow> p \<le> length b \<Longrightarrow>
   format_decimal_loop p v ts b = Some (p - length (dec_text ts v), put_before p (dec_text ts v) b)"
proof (induction v arbitrary: p ts b rule: less_induct)
  case (less v)
  let ?c1 = "digit_char (v mod 10)" and ?c2 = "digit_char (v mod 100 div 10)"
  let ?s1 = "sep_out ts" and ?s2 = "sep_out (next_sep ts)"
  have digits: "DIGITS ! Suc (v mod 100 * 2) = ?c1" "DIGITS ! (v mod 100 * 2) = ?c2"
    using DIGITS_nth [of "v mod 100"] by (simp_all add: mod_mod_cancel)
  consider (loop) "v \<ge> 100" | (one) "v < 10" | (two) "10 \<le> v" "v < 100" by linarith
  then show ?case
  proof cases
    case loop
    let ?w = "?s2 @ ?c2 # ?s1 @ [?c1]" and ?t = "dec_text (next_sep (next_sep ts)) (v div 100)"
    have tx: "dec_text ts v = ?t @ ?w" using dec_text_two [OF loop] by simp
    have len: "length ?t + length ?w \<le> p" "p \<le> length b" using less.prems by (simp_all add: tx)
    let ?p = "p - Suc (length ?s1)"
    have "put_before ?p (?s2 @ [?c2]) (put_before p (?s1 @ [?c1]) b) = put_before p ?w b"
      using len put_before_put_before [of "?s1 @ [?c1]" "?s2 @ [?c2]" p b] by simp
    then have "format_decimal_loop p v ts b =
        format_decimal_loop (p - length ?w) (v div 100) (next_sep (next_sep ts)) (put_before p ?w b)"
      using loop len by (simp add: format_decimal_loop.simps [of p v] Let_def digits digit_and_sep add.commute)
    with loop len less.IH [of "v div 100" "next_sep (next_sep ts)" "p - length ?w" "put_before p ?w b"]
    show ?thesis using put_before_put_before [of ?w ?t p b] by (simp add: tx)
  next
    case one
    then show ?thesis using less.prems by (simp add: format_decimal_loop.simps [of p v] dec_text.simps [of ts v] store_before_eq)
  next
    case two
    then have "v div 10 < 10" by simp
    with two have tx: "dec_text ts v = ?c2 # ?s1 @ [?c1]"
      by (simp add: dec_text.simps [of ts v] dec_text.simps [of "next_sep ts"])
    with two less.prems have "format_decimal_loop p v ts b =
        Some (p - Suc (length ?s1) - 1, put_before (p - Suc (length ?s1)) [?c2] (put_before p (?s1 @ [?c1]) b))"
      using digits by (simp add: format_decimal_loop.simps [of p v] Let_def digit_and_sep) (simp add: store_before_eq)
    with tx less.prems show ?thesis using put_before_put_before [of "?s1 @ [?c1]" "[?c2]" p b] by simp
  qed
qed

lemma format_decimal_eq:
  "length (dec_text ts v) \<le> p + k \<Longrightarrow> p + k \<le> length b \<Longrightarrow>
   format_decimal p v k ts b = Some (put_before (p + k) (dec_text ts v) b)"
  by (simp add: format_decimal_def format_decimal_loop_eq)


lemma abs_value_eq: "int_in_range t v \<Longrightarrow> abs_value t v = nat \<bar>v\<bar>"
proof (cases "v < 0")
  case True
  assume r: "int_in_range t v"
  have "(0 - v mod 2 ^ main_bits t) mod 2 ^ main_bits t = - v mod 2 ^ main_bits t" by (simp add: mod_minus_eq)
  moreover have "- v mod 2 ^ main_bits t = - v" using r True by (cases t) (auto intro!: mod_pos_pos_trivial)
  ultimately show ?thesis using True by (simp add: abs_value_def Let_def)
next
  case False
  assume r: "int_in_range t v"
  then have "v mod 2 ^ main_bits t = v" using False by (cases t) (auto intro!: mod_pos_pos_trivial)
  with False show ?thesis by (simp add: abs_value_def Let_def)
qed

lemma abs_value_less: "int_in_range t v \<Longrightarrow> abs_value t v < 2 ^ main_bits t"
  by (cases t) (auto simp: abs_value_eq nat_less_iff)

lemma show_int_abs: "show_int v = (if v < 0 then ''-'' else []) @ show_nat (nat \<bar>v\<bar>)"
  by (simp add: show_int_def)

lemma length_show_nat_le: "n < 10 ^ k \<Longrightarrow> 0 < k \<Longrightarrow> length (show_nat n) \<le> k"
proof (induction k arbitrary: n)
  case (Suc k)
  show ?case
  proof (cases "n < 10 ^ k \<and> 0 < k")
    case True
    with Suc.IH [of n] show ?thesis by simp
  next
    case False
    then have "length (show_nat n) = Suc k" using Suc.prems by (intro length_show_nat) auto
    then show ?thesis by simp
  qed
qed simp

text \<open>
  Optimised digit counting is exact: counting by bit length with the 32-bit and with the
  64-bit table of powers of ten, and counting by division, all give the number of digits of
  the decimal representation.
\<close>

lemma digit_counts_agree:
  "n < 2 ^ 64 \<Longrightarrow> count_digits64 n = length (show_nat n) \<and> count_digits_fallback n = count_digits64 n \<and>
     (n < 2 ^ 32 \<longrightarrow> count_digits32 n = count_digits64 n)"
  by (simp add: count_digits64_eq count_digits32_eq count_digits_fallback_eq)

lemma FormatInt_decimal_eq:
  assumes "v < 2 ^ 64" "length b = BUFFER_SIZE"
  shows "FormatInt_format_decimal v b = Some (BUFFER_SIZE - 1 - length (show_nat v), put_before (BUFFER_SIZE - 1) (show_nat v) b)"
    and "length (show_nat v) \<le> 20"
proof -
  show l: "length (show_nat v) \<le> 20" using assms(1) by (intro length_show_nat_le) simp_all
  show "FormatInt_format_decimal v b = Some (BUFFER_SIZE - 1 - length (show_nat v), put_before (BUFFER_SIZE - 1) (show_nat v) b)"
    using l assms(2) format_decimal_loop_eq [of NoThousandsSep v "BUFFER_SIZE - 1" b]
    by (simp add: FormatInt_format_decimal_def BUFFER_SIZE_def)
qed

lemma FormatInt_str_put:
  "length s \<le> BUFFER_SIZE - 1 \<Longrightarrow> length b = BUFFER_SIZE \<Longrightarrow>
   FormatInt_str (BUFFER_SIZE - 1 - length s, put_before (BUFFER_SIZE - 1) s b) = s"
  by (simp add: FormatInt_str_def FormatInt_size_def put_before_def)

text \<open>
  \<open>FormatInt\<close> prints every integer: for a value of any of the integer types, whatever the
  fixed buffer held before, no write leaves the buffer and \<open>str\<close> is the decimal
  representation; the most negative value is included.
\<close>

theorem FormatInt_prints:
  assumes "int_in_range t v" "length b = BUFFER_SIZE"
  shows "\<exists>r. FormatInt t v b = Some r \<and> FormatInt_str r = show_int v \<and> length (snd r) = BUFFER_SIZE"
proof -
  have sz: "BUFFER_SIZE = 22" by (simp add: BUFFER_SIZE_def)
  let ?n = "show_nat (nat \<bar>v\<bar>)"
  have "nat \<bar>v\<bar> < 2 ^ 64" using assms(1) by (cases t) (auto simp: nat_less_iff)
  note dec = FormatInt_decimal_eq [OF this assms(2)]
  have put: "put_before (BUFFER_SIZE - 1 - length ?n) ''-'' (put_before (BUFFER_SIZE - 1) ?n b) = put_before (BUFFER_SIZE - 1) (CHR ''-'' # ?n) b"
    using dec(2) assms(2) put_before_put_before [of ?n "''-''" "BUFFER_SIZE - 1" b] by (simp add: sz)
  show ?thesis
  proof (cases "v < 0")
    case True
    with assms(1) have t: "t = Int_t \<or> t = LongLong_t" and a: "abs_value LongLong_t v = nat \<bar>v\<bar>"
      by (cases t; simp add: abs_value_eq)+
    have "FormatInt t v b = Some (BUFFER_SIZE - 1 - length (show_int v), put_before (BUFFER_SIZE - 1) (show_int v) b)"
      using t a True dec assms(2) put by (simp add: FormatInt_def FormatSigned_def store_before_eq show_int_abs sz)
    moreover have "length (show_int v) \<le> BUFFER_SIZE - 1" using dec(2) True by (simp add: show_int_abs sz)
    ultimately show ?thesis using assms(2) FormatInt_str_put [of "show_int v" b] by simp
  next
    case False
    with assms(1) have a: "t = LongLong_t \<or> t = Int_t \<Longrightarrow> abs_value LongLong_t v = nat \<bar>v\<bar>"
      by (auto simp: abs_value_eq)
    have "FormatInt t v b = Some (BUFFER_SIZE - 1 - length (show_int v), put_before (BUFFER_SIZE - 1) (show_int v) b)"
      using a False dec assms(2) by (auto simp: FormatInt_def FormatSigned_def show_int_abs)
    moreover have "length (show_int v) \<le> BUFFER_SIZE - 1" using dec(2) False by (simp add: show_int_abs sz)
    ultimately show ?thesis using assms(2) FormatInt_str_put [of "show_int v" b] by simp
  qed
qed

theorem FormatInt_prints_witness:
  "\<exists>r. FormatInt LongLong_t (- 9223372036854775808) (replicate BUFFER_SIZE (CHR ''?'')) = Some r \<and>
     FormatInt_str r = show_int (- 9223372036854775808) \<and> length (snd r) = BUFFER_SIZE"
  using FormatInt_prints [of LongLong_t "- 9223372036854775808" "replicate BUFFER_SIZE (CHR ''?'')"] by simp

text \<open>What the pointer variant writes, given room for the text.\<close>

lemma copy_to_room: "p + length s \<le> length b \<Longrightarrow> copy_to p s b = Some (put_before (p + length s) s b)"
  by (simp add: copy_to_def put_before_def)

lemma put_forward:
  assumes "p + length s + length s' \<le> length b"
  shows "put_before (p + length s + length s') s' (put_before (p + length s) s b) = put_before (p + length s + length s') (s @ s') b"
  using assms by (simp add: put_before_def ac_simps)

lemma format_decimal_abs_eq:
  assumes "a < 2 ^ main_bits t" "p + length (show_nat a) \<le> length b"
  shows "format_decimal_abs t a p b = Some (p + length (show_nat a), put_before (p + length (show_nat a)) (show_nat a) b)"
proof -
  have two: "show_nat a = [DIGITS ! (a * 2), DIGITS ! (a * 2 + 1)]" if "\<not> a < 10" "a < 100"
    using that DIGITS_nth [of a] by (simp add: show_nat_large)
  show ?thesis
    using assms put_forward [of p "[DIGITS ! (a * 2)]" "[DIGITS ! (a * 2 + 1)]" b]
    by (auto simp: format_decimal_abs_def Let_def count_digits_eq two copy_to_room format_decimal_eq)
qed

lemma format_decimal_at_eq:
  assumes r: "int_in_range t v" and room: "p + length (show_int v) \<le> length b"
  shows "format_decimal_at t v p b = Some (p + length (show_int v), put_before (p + length (show_int v)) (show_int v) b)"
proof (cases "v < 0")
  case True
  let ?n = "show_nat (nat \<bar>v\<bar>)"
  from True have s: "show_int v = ''-'' @ ?n" by (simp add: show_int_abs)
  with room have "p + 1 + length ?n \<le> length (put_before (p + 1) ''-'' b)" by simp
  from format_decimal_abs_eq [OF abs_value_less [OF r], of "p + 1" "put_before (p + 1) ''-'' b"] this
  show ?thesis
    using True s room copy_to_room [of p "''-''" b] put_forward [of p "''-''" ?n b]
    by (simp add: format_decimal_at_def abs_value_eq [OF r])
next
  case False
  then have s: "show_int v = show_nat (nat \<bar>v\<bar>)" by (simp add: show_int_abs)
  with room False abs_value_less [OF r] show ?thesis
    by (simp add: format_decimal_at_def format_decimal_abs_eq abs_value_eq [OF r])
qed

lemma drop_bit_less [termination_simp]: "0 < k \<Longrightarrow> 0 < drop_bit k n \<Longrightarrow> drop_bit k n < (n :: nat)"
proof -
  assume "0 < k" "0 < drop_bit k n"
  then have "1 < (2 :: nat) ^ k" "0 < n" using one_less_power [of "2 :: nat" k] by (auto intro: gr0I)
  then show ?thesis by (simp only: drop_bit_eq_div div_less_dividend)
qed

end
