(* ===== verification/Fmt_Writer.thy ===== *)
theory Fmt_Writer
  imports Fmt_Digits
begin

text \<open>
  \<open>BasicWriter\<close> of the bundled fmt library: format specifiers, integers in every presentation
  and strings, written with padding into a growing buffer. What a grown buffer holds before it
  is written is indeterminate, and growing may move the buffer to other memory: both are given
  by the environment \<open>g\<close> of every operation. The lemmas show that no byte of the fresh contents
  remains, and where a pointer from before the move would be used.
\<close>

section \<open>Specifiers\<close>

datatype Alignment = ALIGN_DEFAULT | ALIGN_LEFT | ALIGN_RIGHT | ALIGN_CENTER | ALIGN_NUMERIC

definition SIGN_FLAG :: nat where "SIGN_FLAG = 1"
definition PLUS_FLAG :: nat where "PLUS_FLAG = 2"
definition MINUS_FLAG :: nat where "MINUS_FLAG = 4"
definition HASH_FLAG :: nat where "HASH_FLAG = 8"
definition CHAR_FLAG :: nat where "CHAR_FLAG = 16"

text \<open>The type character is \<open>CHR 0x00\<close> when there is none.\<close>

record FormatSpec =
  fs_width :: nat
  fs_fill :: char
  fs_align :: Alignment
  fs_flags :: nat
  fs_precision :: int
  fs_type :: char

definition FormatSpec_new :: FormatSpec where
  "FormatSpec_new = \<lparr>fs_width = 0, fs_fill = CHR '' '', fs_align = ALIGN_DEFAULT, fs_flags = 0, fs_precision = - 1, fs_type = CHR 0x00\<rparr>"

definition fs_flag :: "FormatSpec \<Rightarrow> nat \<Rightarrow> bool" where
  "fs_flag spec f \<longleftrightarrow> (fs_flags spec AND f) \<noteq> 0"

definition TypeSpec :: "char \<Rightarrow> FormatSpec" where
  "TypeSpec t = FormatSpec_new\<lparr>fs_type := t\<rparr>"

definition AlignTypeSpec :: "char \<Rightarrow> nat \<Rightarrow> char \<Rightarrow> FormatSpec" where
  "AlignTypeSpec t width fill = FormatSpec_new\<lparr>fs_width := width, fs_fill := fill, fs_type := t\<rparr>"

text \<open>\<open>report_unknown_type\<close>: a printable code is shown, another one as its hexadecimal value.\<close>

definition hex_digit :: "bool \<Rightarrow> nat \<Rightarrow> char" where
  "hex_digit upper d = (if upper then ''0123456789ABCDEF'' else ''0123456789abcdef'') ! d"

fun radix_text :: "nat \<Rightarrow> (nat \<Rightarrow> char) \<Rightarrow> nat \<Rightarrow> string" where
  "radix_text k digit n =
     (if k = 0 \<or> drop_bit k n = 0 then [] else radix_text k digit (drop_bit k n)) @ [digit (n AND mask k)]"

declare radix_text.simps [simp del]

definition char_unsigned :: "char \<Rightarrow> nat" where
  "char_unsigned c = (let n = of_char c in if n < 128 then n else 2 ^ 32 - 256 + n)"

definition report_unknown_type :: "char \<Rightarrow> string \<Rightarrow> exn" where
  "report_unknown_type code type =
     (let n = (of_char code :: nat); hex = radix_text 4 (hex_digit False) (char_unsigned code) in
      Format_error (''unknown format code '' @ [CHR 0x27] @
        (if 32 \<le> n \<and> n < 127 then [code] else [CHR 0x5C, CHR ''x''] @ replicate (2 - length hex) (CHR ''0'') @ hex) @
        [CHR 0x27] @ '' for '' @ type))"

section \<open>Buffers\<close>

text \<open>
  \<open>be_moves n m\<close>: growing a buffer of size \<open>n\<close> to size \<open>m\<close>, which no earlier \<open>reserve\<close> made room
  for, moves it. \<open>grow_buffer\<close> returns the pointer to the new area.
\<close>

record buffer_env =
  be_fresh :: "nat \<Rightarrow> char"
  be_moves :: "nat \<Rightarrow> nat \<Rightarrow> bool"

definition grow_buffer :: "buffer_env \<Rightarrow> nat \<Rightarrow> string \<Rightarrow> nat \<times> string" where
  "grow_buffer g n b = (length b, b @ map (be_fresh g) [length b ..< length b + n])"

definition fill_to :: "nat \<Rightarrow> nat \<Rightarrow> char \<Rightarrow> string \<Rightarrow> string option" where
  "fill_to p n c b = copy_to p (replicate n c) b"

definition fill_padding :: "nat \<Rightarrow> nat \<Rightarrow> nat \<Rightarrow> char \<Rightarrow> string \<Rightarrow> (nat \<times> string) option" where
  "fill_padding buffer total_size content_size fill b = do {
     let padding = total_size - content_size;
     let left_padding = padding div 2;
     b \<leftarrow> fill_to buffer left_padding fill b;
     let content = buffer + left_padding;
     b \<leftarrow> fill_to (content + content_size) (padding - left_padding) fill b;
     Some (content, b)
   }"

section \<open>Integers\<close>

definition write_unsigned_decimal :: "buffer_env \<Rightarrow> int_type \<Rightarrow> nat \<Rightarrow> nat \<Rightarrow> string \<Rightarrow> (nat \<times> string) option" where
  "write_unsigned_decimal g t v prefix_size b = do {
     let num_digits = count_digits t v;
     let (ptr, b) = grow_buffer g (prefix_size + num_digits) b;
     b \<leftarrow> format_decimal (ptr + prefix_size) v num_digits NoThousandsSep b;
     Some (ptr, b)
   }"

definition write_decimal :: "buffer_env \<Rightarrow> int_type \<Rightarrow> int \<Rightarrow> string \<Rightarrow> string option" where
  "write_decimal g t v b =
     (if v < 0 then do {
        (ptr, b) \<leftarrow> write_unsigned_decimal g t (abs_value t v) 1 b;
        copy_to ptr ''-'' b
      }
      else map_option snd (write_unsigned_decimal g t (abs_value t v) 0 b))"

text \<open>
  \<open>prepare_int_buffer\<close> for a specifier without precision, with the width, alignment and fill
  it looks at; the pointer is to the last character of the number.
\<close>

definition prepare_aligned ::
    "buffer_env \<Rightarrow> nat \<Rightarrow> nat \<Rightarrow> Alignment \<Rightarrow> char \<Rightarrow> string \<Rightarrow> string \<Rightarrow> (nat \<times> string) option" where
  "prepare_aligned g num_digits width align fill prefix b = (
     let prefix_size = length prefix; size = prefix_size + num_digits in
     if width \<le> size then do {
       let (p, b) = grow_buffer g size b;
       b \<leftarrow> copy_to p prefix b;
       Some (p + size - 1, b)
     }
     else do {
       let (p, b) = grow_buffer g width b;
       let end_p = p + width;
       if align = ALIGN_LEFT then do {
         b \<leftarrow> copy_to p prefix b;
         let p = p + size;
         b \<leftarrow> fill_to p (end_p - p) fill b;
         Some (p - 1, b)
       }
       else if align = ALIGN_CENTER then do {
         (p, b) \<leftarrow> fill_padding p width size fill b;
         b \<leftarrow> copy_to p prefix b;
         Some (p + size - 1, b)
       }
       else do {
         (p, size, b) \<leftarrow>
           (if align = ALIGN_NUMERIC then
              (if prefix_size \<noteq> 0 then do {
                 b \<leftarrow> copy_to p prefix b;
                 Some (p + prefix_size, size - prefix_size, b)
               }
               else Some (p, size, b))
            else do {
              b \<leftarrow> copy_to (end_p - size) prefix b;
              Some (p, size, b)
            });
         b \<leftarrow> fill_to p (end_p - size - p) fill b;
         Some (end_p - 1, b)
       }
     })"

definition prepare_int_buffer ::
    "buffer_env \<Rightarrow> nat \<Rightarrow> FormatSpec \<Rightarrow> string \<Rightarrow> string \<Rightarrow> (nat \<times> string) option" where
  "prepare_int_buffer g num_digits spec prefix b = (
     let width = fs_width spec; align = fs_align spec; fill = fs_fill spec in
     if fs_precision spec > int num_digits then (
       let prefix = (if prefix \<noteq> [] \<and> last prefix = CHR ''0'' then butlast prefix else prefix);
           number_size = length prefix + nat (fs_precision spec) in
       if number_size \<ge> width then prepare_aligned g num_digits number_size ALIGN_NUMERIC (CHR ''0'') prefix b
       else do {
         let fill_size = width - number_size;
         b \<leftarrow> (if align \<noteq> ALIGN_LEFT then (let (p, b) = grow_buffer g fill_size b in fill_to p fill_size fill b) else Some b);
         (result, b) \<leftarrow> prepare_aligned g num_digits number_size ALIGN_NUMERIC (CHR ''0'') prefix b;
         if align = ALIGN_LEFT then do {
           let moved = (length b + fill_size > width \<and> be_moves g (length b) (length b + fill_size));
           let (p, b) = grow_buffer g fill_size b;
           b \<leftarrow> fill_to p fill_size fill b;
           if moved then None else Some (result, b)
         }
         else Some (result, b)
       })
     else prepare_aligned g num_digits width align fill prefix b)"

text \<open>
  The pointer that a left-aligned number with a precision is written through is from before the
  buffer grew by the padding: \<open>prepare_int_buffer\<close> gives \<open>None\<close> when it moved. A specifier and
  buffer are \<open>steady\<close> when this cannot happen.
\<close>

definition steady :: "buffer_env \<Rightarrow> FormatSpec \<Rightarrow> string \<Rightarrow> bool" where
  "steady g spec b \<longleftrightarrow> fs_precision spec \<le> 0 \<or> fs_align spec \<noteq> ALIGN_LEFT \<or> b = [] \<or> (\<forall>n m. \<not> be_moves g n m)"

text \<open>
  The loops that count and write the digits of a power-of-two base: \<open>k\<close> bits per digit, 4, 1
  or 3. The write loop starts behind the last character.
\<close>

fun num_digits_loop :: "nat \<Rightarrow> nat \<Rightarrow> nat" where
  "num_digits_loop k n = Suc (if k = 0 \<or> drop_bit k n = 0 then 0 else num_digits_loop k (drop_bit k n))"

fun write_digits_loop :: "nat \<Rightarrow> (nat \<Rightarrow> char) \<Rightarrow> nat \<Rightarrow> nat \<Rightarrow> string \<Rightarrow> string option" where
  "write_digits_loop k digit p n b = do {
     b \<leftarrow> store_before p (digit (n AND mask k)) b;
     if k = 0 \<or> drop_bit k n = 0 then Some b else write_digits_loop k digit (p - 1) (drop_bit k n) b
   }"

declare num_digits_loop.simps [simp del] write_digits_loop.simps [simp del]

definition sign_prefix :: "int \<Rightarrow> FormatSpec \<Rightarrow> string" where
  "sign_prefix v spec =
     (if v < 0 then ''-''
      else if fs_flag spec SIGN_FLAG then (if fs_flag spec PLUS_FLAG then ''+'' else '' '')
      else [])"

definition write_radix ::
    "buffer_env \<Rightarrow> nat \<Rightarrow> (nat \<Rightarrow> char) \<Rightarrow> FormatSpec \<Rightarrow> string \<Rightarrow> nat \<Rightarrow> string \<Rightarrow> (exn + string) option" where
  "write_radix g k digit spec prefix n b = do {
     (p, b) \<leftarrow> prepare_int_buffer g (num_digits_loop k n) spec prefix b;
     b \<leftarrow> write_digits_loop k digit (p + 1) n b;
     Some (Inr b)
   }"

text \<open>
  \<open>write_int\<close>; \<open>sep\<close> is the thousands separator of the C locale. The outer option is undefined
  behaviour, the sum an exception.
\<close>

definition write_int ::
    "buffer_env \<Rightarrow> string \<Rightarrow> int_type \<Rightarrow> int \<Rightarrow> FormatSpec \<Rightarrow> string \<Rightarrow> (exn + string) option" where
  "write_int g sep t v spec b = (
     let a = abs_value t v; prefix = sign_prefix v spec; ty = fs_type spec;
         hashed = (\<lambda>s. if fs_flag spec HASH_FLAG then prefix @ s else prefix) in
     if ty = CHR 0x00 \<or> ty = CHR ''d'' then do {
       let num_digits = count_digits t a;
       (p, b) \<leftarrow> prepare_int_buffer g num_digits spec prefix b;
       b \<leftarrow> format_decimal (p + 1) a 0 NoThousandsSep b;
       Some (Inr b)
     }
     else if ty = CHR ''x'' \<or> ty = CHR ''X'' then
       write_radix g 4 (hex_digit (ty \<noteq> CHR ''x'')) spec (hashed [CHR ''0'', ty]) a b
     else if ty = CHR ''b'' \<or> ty = CHR ''B'' then
       write_radix g 1 digit_char spec (hashed [CHR ''0'', ty]) a b
     else if ty = CHR ''o'' then
       write_radix g 3 digit_char spec (hashed ''0'') a b
     else if ty = CHR ''n'' then do {
       let num_digits = count_digits t a;
       let size = num_digits + length sep * ((num_digits - 1) div 3);
       (p, b) \<leftarrow> prepare_int_buffer g size spec prefix b;
       b \<leftarrow> format_decimal (p + 1) a 0 (ThousandsSep sep 0) b;
       Some (Inr b)
     }
     else Some (Inl (report_unknown_type ty (if fs_flag spec CHAR_FLAG then ''char'' else ''integer''))))"

section \<open>Strings\<close>

definition write_str :: "buffer_env \<Rightarrow> string \<Rightarrow> FormatSpec \<Rightarrow> string \<Rightarrow> string option" where
  "write_str g s spec b = (
     let size = length s; width = fs_width spec; fill = fs_fill spec in do {
     (out, b) \<leftarrow>
       (if width > size then (
          let (out, b) = grow_buffer g width b in
          if fs_align spec = ALIGN_RIGHT then do {
            b \<leftarrow> fill_to out (width - size) fill b;
            Some (out + (width - size), b)
          }
          else if fs_align spec = ALIGN_CENTER then fill_padding out width size fill b
          else do {
            b \<leftarrow> fill_to (out + size) (width - size) fill b;
            Some (out, b)
          })
        else Some (grow_buffer g size b));
     copy_to out s b
   })"

text \<open>A string value is \<open>None\<close> for a null pointer.\<close>

definition write_str_value :: "buffer_env \<Rightarrow> string option \<Rightarrow> FormatSpec \<Rightarrow> string \<Rightarrow> (exn + string) option" where
  "write_str_value g sv spec b =
     (if fs_type spec \<noteq> CHR 0x00 \<and> fs_type spec \<noteq> CHR ''s'' then Some (Inl (report_unknown_type (fs_type spec) ''string''))
      else case sv of
        None \<Rightarrow> Some (Inl (Format_error ''string pointer is null''))
      | Some s \<Rightarrow> map_option Inr (write_str g
            (if fs_precision spec \<ge> 0 \<and> nat (fs_precision spec) < length s then take (nat (fs_precision spec)) s else s)
            spec b))"

section \<open>Stream operators\<close>

text \<open>\<open>w << value\<close> for integers, and \<open>pad(value, width, fill)\<close>.\<close>

definition write_value :: "buffer_env \<Rightarrow> string \<Rightarrow> int_type \<Rightarrow> int \<Rightarrow> string \<Rightarrow> (exn + string) option" where
  "write_value g sep t v b =
     (if t = Int_t \<or> t = LongLong_t then map_option Inr (write_decimal g t v b)
      else write_int g sep t v (TypeSpec (CHR 0x00)) b)"

definition write_pad :: "buffer_env \<Rightarrow> string \<Rightarrow> int_type \<Rightarrow> int \<Rightarrow> nat \<Rightarrow> char \<Rightarrow> string \<Rightarrow> (exn + string) option" where
  "write_pad g sep t v width fill b = write_int g sep t v (AlignTypeSpec (CHR 0x00) width fill) b"

section \<open>Texts\<close>

text \<open>What a padded number looks like, given its prefix and its digits.\<close>

definition aligned_text :: "nat \<Rightarrow> Alignment \<Rightarrow> char \<Rightarrow> string \<Rightarrow> string \<Rightarrow> string" where
  "aligned_text width align fill prefix ds = (
     let n = width - (length prefix + length ds); pad = replicate n fill in
     case align of
       ALIGN_LEFT \<Rightarrow> prefix @ ds @ pad
     | ALIGN_CENTER \<Rightarrow> replicate (n div 2) fill @ prefix @ ds @ replicate (n - n div 2) fill
     | ALIGN_NUMERIC \<Rightarrow> prefix @ pad @ ds
     | _ \<Rightarrow> pad @ prefix @ ds)"

definition number_text :: "FormatSpec \<Rightarrow> string \<Rightarrow> string \<Rightarrow> string" where
  "number_text spec prefix ds =
     (if fs_precision spec > int (length ds) then (
        let prefix = (if prefix \<noteq> [] \<and> last prefix = CHR ''0'' then butlast prefix else prefix);
            number = prefix @ replicate (nat (fs_precision spec) - length ds) (CHR ''0'') @ ds in
        aligned_text (fs_width spec) (if fs_align spec = ALIGN_LEFT then ALIGN_LEFT else ALIGN_RIGHT) (fs_fill spec) [] number)
      else aligned_text (fs_width spec) (fs_align spec) (fs_fill spec) prefix ds)"

lemma copy_mid: "p = length x \<Longrightarrow> length s = length y \<Longrightarrow> copy_to p s (x @ y @ z) = Some (x @ s @ z)"
  by (simp add: copy_to_def)

lemma copy_second: "length A = n \<Longrightarrow> length B = length s \<Longrightarrow> copy_to (length b + n) s (b @ A @ B @ C) = Some (b @ A @ s @ C)"
  using copy_mid [of "length b + n" "b @ A" s B C] by simp

lemma fill_mid: "p = length x \<Longrightarrow> n = length y \<Longrightarrow> fill_to p n c (x @ y @ z) = Some (x @ replicate n c @ z)"
  by (simp add: fill_to_def copy_mid)

lemma grow_pieces:
  assumes "n = i + j + k + l"
  obtains A B C D where "grow_buffer g n b = (length b, b @ A @ B @ C @ D)"
    "length A = i" "length B = j" "length C = k" "length D = l"
proof
  let ?G = "map (be_fresh g) [length b ..< length b + n]"
  have "?G = take i ?G @ take j (drop i ?G) @ take k (drop (i + j) ?G) @ drop (i + j + k) ?G"
    by (metis add.commute append_take_drop_id drop_drop)
  then show "grow_buffer g n b = (length b, b @ take i ?G @ take j (drop i ?G) @ take k (drop (i + j) ?G) @ drop (i + j + k) ?G)"
    unfolding grow_buffer_def by simp
qed (use assms in simp_all)

text \<open>A buffer prepared for \<open>k\<close> characters between the texts \<open>pre\<close> and \<open>post\<close>.\<close>

definition prepared :: "nat \<Rightarrow> string \<Rightarrow> (string \<Rightarrow> string) \<Rightarrow> (nat \<times> string) option \<Rightarrow> bool" where
  "prepared k b txt r \<longleftrightarrow> (\<exists>pre J post. r = Some (length b + length pre + k - 1, b @ pre @ J @ post) \<and> length J = k \<and>
     (\<forall>ds. length ds = k \<longrightarrow> txt ds = pre @ ds @ post))"

lemma preparedI:
  "r = Some (length b + length pre + k - 1, b @ pre @ J @ post) \<Longrightarrow> length J = k \<Longrightarrow>
   (\<And>ds. length ds = k \<Longrightarrow> txt ds = pre @ ds @ post) \<Longrightarrow> prepared k b txt r"
  unfolding prepared_def by blast

lemma prepare_aligned_ok:
  "prepared k b (aligned_text width align fill prefix) (prepare_aligned g k width align fill prefix b)"
proof -
  let ?size = "length prefix + k"
  consider (tight) "width \<le> ?size" | (left) "width > ?size" "align = ALIGN_LEFT" | (center) "width > ?size" "align = ALIGN_CENTER"
    | (numeric) "width > ?size" "align = ALIGN_NUMERIC" | (right) "width > ?size" "align = ALIGN_RIGHT \<or> align = ALIGN_DEFAULT"
    by (cases align) linarith+
  then show ?thesis
  proof cases
    case tight
    obtain A B C D where G: "grow_buffer g ?size b = (length b, b @ A @ B @ C @ D)" "length A = length prefix" "length B = k" "length C = 0" "length D = 0"
      by (rule grow_pieces [of ?size "length prefix" k 0 0 g b]) simp_all
    show ?thesis
      by (rule preparedI [of _ b prefix k B "[]"])
        (use tight G in \<open>auto simp: prepare_aligned_def aligned_text_def Let_def copy_mid split: Alignment.splits\<close>)
  next
    case left
    obtain A B C D where G: "grow_buffer g width b = (length b, b @ A @ B @ C @ D)" "length A = length prefix" "length B = k" "length C = width - ?size" "length D = 0"
      by (rule grow_pieces [of width "length prefix" k "width - ?size" 0 g b]) (use left in simp_all)
    have "fill_to (length b + ?size) (width - ?size) fill (b @ prefix @ B @ C) = Some (b @ prefix @ B @ replicate (width - ?size) fill)"
      using fill_mid [of "length b + ?size" "b @ prefix @ B" "width - ?size" C fill "[]"] G by simp
    then show ?thesis using left G
      by (intro preparedI [of _ b prefix k B "replicate (width - ?size) fill"])
        (auto simp: prepare_aligned_def aligned_text_def Let_def copy_mid add.assoc)
  next
    case center
    define n where "n = width - ?size"
    obtain A B C D where G: "grow_buffer g width b = (length b, b @ A @ B @ C @ D)" "length A = n div 2" "length B = length prefix" "length C = k" "length D = n - n div 2"
      by (rule grow_pieces [of width "n div 2" "length prefix" k "n - n div 2" g b]) (use center n_def in simp_all)
    let ?L = "replicate (n div 2) fill" and ?R = "replicate (n - n div 2) fill"
    have "fill_to (length b + n div 2 + ?size) (n - n div 2) fill (b @ ?L @ B @ C @ D) = Some (b @ ?L @ B @ C @ ?R)"
      using fill_mid [of "length b + n div 2 + ?size" "b @ ?L @ B @ C" "n - n div 2" D fill "[]"] G by simp
    moreover have "copy_to (length b + n div 2) prefix (b @ ?L @ B @ C @ ?R) = Some (b @ ?L @ prefix @ C @ ?R)"
      using copy_mid [of "length b + n div 2" "b @ ?L" prefix B "C @ ?R"] G by simp
    ultimately show ?thesis using center G
      by (intro preparedI [of _ b "?L @ prefix" k C ?R])
        (auto simp: prepare_aligned_def aligned_text_def Let_def fill_mid fill_padding_def n_def [symmetric] add.assoc)
  next
    case numeric
    let ?n = "width - ?size"
    obtain A B C D where G: "grow_buffer g width b = (length b, b @ A @ B @ C @ D)" "length A = length prefix" "length B = ?n" "length C = k" "length D = 0"
      by (rule grow_pieces [of width "length prefix" ?n k 0 g b]) (use numeric in simp_all)
    have "copy_to (length b) prefix (b @ A @ B @ C) = Some (b @ prefix @ B @ C)"
      using copy_mid [of "length b" b prefix A "B @ C"] G by simp
    moreover have "fill_to (length b + length prefix) ?n fill (b @ prefix @ B @ C) = Some (b @ prefix @ replicate ?n fill @ C)"
      using fill_mid [of "length b + length prefix" "b @ prefix" ?n B fill C] G by simp
    moreover have "length b + width - (?size - length prefix) - (length b + length prefix) = ?n"
      "length b + width - ?size - length b = ?n" using numeric by simp_all
    ultimately have "prepare_aligned g k width align fill prefix b = Some (length b + width - 1, b @ prefix @ replicate ?n fill @ C)"
      using numeric G unfolding prepare_aligned_def Let_def by (cases "prefix = []") simp_all
    then show ?thesis using numeric G
      by (intro preparedI [of _ b "prefix @ replicate ?n fill" k C "[]"]) (auto simp: aligned_text_def)
  next
    case right
    let ?n = "width - ?size"
    have "width = ?n + length prefix + k + 0" using right(1) by simp
    then obtain A B C D where G: "grow_buffer g width b = (length b, b @ A @ B @ C @ D)"
      "length A = ?n" "length B = length prefix" "length C = k" "length D = 0"
      by (rule grow_pieces)
    have p: "length b + width - ?size = length b + ?n" using right(1) by simp
    have c: "copy_to (length b + width - ?size) prefix (b @ A @ B @ C) = Some (b @ A @ prefix @ C)"
      unfolding p by (rule copy_second [OF G(2,3)])
    have f: "fill_to (length b) (length b + width - ?size - length b) fill (b @ A @ prefix @ C) = Some (b @ replicate ?n fill @ prefix @ C)"
      unfolding p add_diff_cancel_left' by (rule fill_mid [OF refl G(2) [symmetric]])
    have "align \<noteq> ALIGN_LEFT" "align \<noteq> ALIGN_CENTER" "align \<noteq> ALIGN_NUMERIC" using right(2) by auto
    then have "prepare_aligned g k width align fill prefix b = Some (length b + width - 1, b @ replicate ?n fill @ prefix @ C)"
      using right(1) G(1,5) c f by (simp add: prepare_aligned_def Let_def)
    moreover have "length b + width - 1 = length b + length (replicate ?n fill @ prefix) + k - 1" using right(1) by simp
    ultimately have "prepare_aligned g k width align fill prefix b =
        Some (length b + length (replicate ?n fill @ prefix) + k - 1, b @ (replicate ?n fill @ prefix) @ C @ [])" by simp
    then show ?thesis by (rule preparedI) (use G(4) right(2) in \<open>auto simp: aligned_text_def\<close>)
  qed
qed

lemma preparedE:
  assumes "prepared k b txt r"
  obtains pre J post where "r = Some (length b + length pre + k - 1, b @ pre @ J @ post)" "length J = k"
    "\<And>ds. length ds = k \<Longrightarrow> txt ds = pre @ ds @ post"
  using assms unfolding prepared_def by blast

lemma prepare_int_buffer_ok:
  assumes "steady g spec b"
  shows "prepared k b (number_text spec prefix) (prepare_int_buffer g k spec prefix b)"
proof (cases "fs_precision spec > int k")
  case False
  have "prepared k b (number_text spec prefix) (prepare_aligned g k (fs_width spec) (fs_align spec) (fs_fill spec) prefix b)"
    using prepare_aligned_ok [of k b "fs_width spec" "fs_align spec" "fs_fill spec" prefix g] False
    by (elim preparedE) (auto intro!: preparedI simp: number_text_def)
  with False show ?thesis by (simp add: prepare_int_buffer_def Let_def)
next
  case True
  define px where "px = (if prefix \<noteq> [] \<and> last prefix = CHR ''0'' then butlast prefix else prefix)"
  define ns where "ns = length px + nat (fs_precision spec)"
  let ?zeros = "\<lambda>ds. px @ replicate (nat (fs_precision spec) - k) (CHR ''0'') @ ds"
  let ?n = "fs_width spec - ns" and ?fill = "replicate (fs_width spec - ns) (fs_fill spec)"
  have num: "number_text spec prefix ds = (if fs_align spec = ALIGN_LEFT then ?zeros ds @ ?fill else ?fill @ ?zeros ds)"
    if "length ds = k" for ds
    using True that by (simp add: number_text_def Let_def aligned_text_def px_def [symmetric] ns_def)
  have tx: "aligned_text ns ALIGN_NUMERIC (CHR ''0'') px ds = ?zeros ds" if "length ds = k" for ds
    using True that by (simp add: aligned_text_def ns_def)
  have sub: "prepared k c ?zeros (prepare_aligned g k ns ALIGN_NUMERIC (CHR ''0'') px c)" for c
    using prepare_aligned_ok [of k c ns ALIGN_NUMERIC "CHR ''0''" px g] by (elim preparedE) (auto intro!: preparedI simp: tx)
  have fill: "(case grow_buffer g m c of (p, c) \<Rightarrow> fill_to p m x c) = Some (c @ replicate m x)" for m and x :: char and c
    using fill_mid [of "length c" c m "map (be_fresh g) [length c ..< length c + m]" x "[]"] by (simp add: grow_buffer_def)
  show ?thesis
  proof (cases "fs_align spec = ALIGN_LEFT")
    case left: True
    obtain pre J post where P: "prepare_aligned g k ns ALIGN_NUMERIC (CHR ''0'') px b = Some (length b + length pre + k - 1, b @ pre @ J @ post)"
      "length J = k" "\<And>ds. length ds = k \<Longrightarrow> ?zeros ds = pre @ ds @ post"
      using sub [of b] by (rule preparedE) blast
    have "length (?zeros (replicate k x)) = length (pre @ replicate k x @ post)" for x :: char using P(3) by simp
    then have ns: "length pre + (k + length post) = ns" using True by (simp add: ns_def)
    have room: "\<not> (fs_width spec < length (b @ pre @ J @ post) + (fs_width spec - ns) \<and> be_moves g x y)" if "ns < fs_width spec" for x y
      using assms True left that ns P(2) by (auto simp: steady_def)
    have fill': "fill_to (length c) m x (c @ map (be_fresh g) [length c ..< length c + m]) = Some (c @ replicate m x)" for m and x :: char and c
      using fill [of m x c] by (simp add: grow_buffer_def)
    have "prepare_int_buffer g k spec prefix b = Some (length b + length pre + k - 1, b @ pre @ J @ post @ ?fill)"
    proof (cases "fs_width spec \<le> ns")
      case wide: False
      with room have "\<not> (fs_width spec < length (b @ pre @ J @ post) + (fs_width spec - ns) \<and>
          be_moves g (length (b @ pre @ J @ post)) (length (b @ pre @ J @ post) + (fs_width spec - ns)))" by simp
      with wide show ?thesis
        unfolding prepare_int_buffer_def Let_def px_def [symmetric] ns_def [symmetric] grow_buffer_def
        using True left P(1) fill' [of "b @ pre @ J @ post" "fs_width spec - ns" "fs_fill spec"] by (simp del: length_append)
    qed (use True left P(1) in \<open>simp add: prepare_int_buffer_def px_def [symmetric] ns_def [symmetric] Let_def\<close>)
    then show ?thesis by (rule preparedI) (use P left num in simp_all)
  next
    case right: False
    obtain pre J post where P: "prepare_aligned g k ns ALIGN_NUMERIC (CHR ''0'') px (b @ ?fill) =
        Some (length (b @ ?fill) + length pre + k - 1, (b @ ?fill) @ pre @ J @ post)"
      "length J = k" "\<And>ds. length ds = k \<Longrightarrow> ?zeros ds = pre @ ds @ post"
      using sub [of "b @ ?fill"] by (rule preparedE) blast
    have "prepare_int_buffer g k spec prefix b = Some (length b + length (?fill @ pre) + k - 1, b @ (?fill @ pre) @ J @ post)"
      using True right P(1) by (cases "fs_width spec \<le> ns")
        (simp_all add: prepare_int_buffer_def px_def [symmetric] ns_def [symmetric] Let_def fill add.assoc)
    then show ?thesis by (rule preparedI) (use P right num in simp_all)
  qed
qed

lemma prepared_put:
  assumes "prepared k b txt r" "length ds = k" "0 < k"
  obtains p b' where "r = Some (p, b')" "k \<le> p + 1" "p + 1 \<le> length b'" "put_before (p + 1) ds b' = b @ txt ds"
proof -
  from assms(1) obtain pre J post where P: "r = Some (length b + length pre + k - 1, b @ pre @ J @ post)" "length J = k"
    "\<And>ds. length ds = k \<Longrightarrow> txt ds = pre @ ds @ post"
    by (rule preparedE) blast
  have "put_before (length b + length pre + k) ds (b @ pre @ J @ post) = b @ txt ds"
    using P assms(2) by (simp add: put_before_def)
  with P that [of "length b + length pre + k - 1" "b @ pre @ J @ post"] assms(3) show ?thesis by simp
qed

section \<open>What the writer appends\<close>

definition int_code :: "char \<Rightarrow> bool" where
  "int_code ty \<longleftrightarrow> ty \<in> {CHR 0x00, CHR ''d'', CHR ''x'', CHR ''X'', CHR ''b'', CHR ''B'', CHR ''o'', CHR ''n''}"

definition int_digits :: "string \<Rightarrow> char \<Rightarrow> nat \<Rightarrow> string" where
  "int_digits sep ty n =
     (if ty = CHR ''x'' \<or> ty = CHR ''X'' then radix_text 4 (hex_digit (ty = CHR ''X'')) n
      else if ty = CHR ''b'' \<or> ty = CHR ''B'' then radix_text 1 digit_char n
      else if ty = CHR ''o'' then radix_text 3 digit_char n
      else if ty = CHR ''n'' then dec_text (ThousandsSep sep 0) n
      else show_nat n)"

definition int_prefix :: "int \<Rightarrow> FormatSpec \<Rightarrow> string" where
  "int_prefix v spec = sign_prefix v spec @
     (if \<not> fs_flag spec HASH_FLAG then []
      else if fs_type spec = CHR ''o'' then ''0''
      else if fs_type spec \<in> {CHR ''x'', CHR ''X'', CHR ''b'', CHR ''B''} then [CHR ''0'', fs_type spec]
      else [])"

lemma length_radix_text: "length (radix_text k digit n) = num_digits_loop k n"
  by (induction k n rule: num_digits_loop.induct) (simp add: radix_text.simps num_digits_loop.simps)

lemma num_digits_pos: "0 < num_digits_loop k n"
  by (simp add: num_digits_loop.simps [of k n])

lemma radix_text_nonempty [simp]: "radix_text k digit n \<noteq> []"
  by (simp add: radix_text.simps [of k])

lemma write_digits_loop_eq:
  "length (radix_text k digit n) \<le> p \<Longrightarrow> p \<le> length b \<Longrightarrow>
   write_digits_loop k digit p n b = Some (put_before p (radix_text k digit n) b)"
proof (induction k digit p n b rule: write_digits_loop.induct)
  case (1 k digit p n b)
  let ?c = "digit (n AND mask k)"
  show ?case
  proof (cases "k = 0 \<or> drop_bit k n = 0")
    case True
    with "1.prems" show ?thesis by (auto simp: write_digits_loop.simps [of k] radix_text.simps [of k] store_before_eq)
  next
    case False
    let ?t = "radix_text k digit (drop_bit k n)"
    have tx: "radix_text k digit n = ?t @ [?c]" using False by (simp add: radix_text.simps [of k digit n])
    have "write_digits_loop k digit (p - 1) (drop_bit k n) (put_before p [?c] b) = Some (put_before (p - 1) ?t (put_before p [?c] b))"
      using "1.IH" [of "put_before p [?c] b"] False "1.prems" by (simp add: tx store_before_eq)
    with False "1.prems" put_before_put_before [of "[?c]" ?t p b] show ?thesis
      by (simp add: write_digits_loop.simps [of k digit p n] tx store_before_eq)
  qed
qed

lemma write_radix_eq:
  assumes "steady g spec b"
  shows "write_radix g k digit spec prefix n b = Some (Inr (b @ number_text spec prefix (radix_text k digit n)))"
proof -
  let ?ds = "radix_text k digit n"
  obtain p b' where P: "prepare_int_buffer g (num_digits_loop k n) spec prefix b = Some (p, b')" "num_digits_loop k n \<le> p + 1"
    "p + 1 \<le> length b'" "put_before (p + 1) ?ds b' = b @ number_text spec prefix ?ds"
    using prepare_int_buffer_ok [OF assms] length_radix_text num_digits_pos by (rule prepared_put)
  then show ?thesis by (simp add: write_radix_def write_digits_loop_eq length_radix_text)
qed

lemma write_dec_eq:
  assumes "length (dec_text ts n) = k" "steady g spec b"
  shows "do { (p, b) \<leftarrow> prepare_int_buffer g k spec prefix b; b \<leftarrow> format_decimal (p + 1) n 0 ts b; Some (Inr b :: exn + string) } =
    Some (Inr (b @ number_text spec prefix (dec_text ts n)))"
proof -
  have "0 < k" unfolding assms(1) [symmetric] by (simp add: dec_text.simps [of ts n])
  with prepare_int_buffer_ok [OF assms(2)] assms(1)
  obtain p b' where P: "prepare_int_buffer g k spec prefix b = Some (p, b')" "k \<le> p + 1"
    "p + 1 \<le> length b'" "put_before (p + 1) (dec_text ts n) b' = b @ number_text spec prefix (dec_text ts n)"
    by (rule prepared_put)
  then show ?thesis using assms(1) by (simp add: format_decimal_eq)
qed

lemma length_dec_text_sep:
  "length (dec_text (ThousandsSep sep i) n) =
   length (show_nat n) + length sep * ((i + length (show_nat n) - 1) div 3 - i div 3)"
proof (induction n arbitrary: i rule: show_nat.induct)
  case (1 n)
  show ?case
  proof (cases "n < 10")
    case True
    then show ?thesis by (simp add: dec_text.simps [of _ n])
  next
    case False
    let ?L = "length (show_nat (n div 10))"
    have L: "?L > 0" by simp
    have IH: "length (dec_text (ThousandsSep sep (Suc i)) (n div 10)) = ?L + length sep * ((i + ?L) div 3 - Suc i div 3)"
      using "1.IH" [OF False, of "Suc i"] L by simp
    have "(i + ?L) div 3 - i div 3 = (i + ?L) div 3 - Suc i div 3 + (if Suc i mod 3 = 0 then 1 else 0)"
      using div_le_mono [of "Suc i" "i + ?L" 3] L by (simp add: div_Suc)
    then have "length sep * ((i + ?L) div 3 - i div 3) =
        length sep * ((i + ?L) div 3 - Suc i div 3) + (if Suc i mod 3 = 0 then length sep else 0)" by (simp add: distrib_left)
    then show ?thesis using False IH by (simp add: dec_text.simps [of _ n] show_nat_large [of n])
  qed
qed

definition str_text :: "FormatSpec \<Rightarrow> string \<Rightarrow> string" where
  "str_text spec s = aligned_text (fs_width spec)
     (if fs_align spec = ALIGN_RIGHT \<or> fs_align spec = ALIGN_CENTER then fs_align spec else ALIGN_LEFT) (fs_fill spec) [] s"

lemma write_str_eq: "write_str g s spec b = Some (b @ str_text spec s)"
proof (cases "fs_width spec > length s")
  case False
  then have "write_str g s spec b = copy_to (length b) s (b @ map (be_fresh g) [length b ..< length b + length s] @ [])"
    by (simp add: write_str_def grow_buffer_def Let_def)
  also have "\<dots> = Some (b @ s @ [])" by (rule copy_mid) simp_all
  finally show ?thesis using False by (auto simp: str_text_def aligned_text_def)
next
  case True
  define n where "n = fs_width spec - length s"
  have w: "fs_width spec = n + length s + 0 + 0" "fs_width spec = length s + n + 0 + 0"
    "fs_width spec = n div 2 + length s + (n - n div 2) + 0" using True by (simp_all add: n_def)
  consider (right) "fs_align spec = ALIGN_RIGHT" | (center) "fs_align spec = ALIGN_CENTER"
    | (left) "fs_align spec \<noteq> ALIGN_RIGHT" "fs_align spec \<noteq> ALIGN_CENTER" by blast
  then show ?thesis
  proof cases
    case right
    from w(1) obtain A B C D where G: "grow_buffer g (fs_width spec) b = (length b, b @ A @ B @ C @ D)" "length A = n" "length B = length s" "length C = 0" "length D = 0"
      by (rule grow_pieces)
    from right True G copy_second [of "replicate n (fs_fill spec)" n B s b "[]"] show ?thesis
      by (simp add: write_str_def Let_def n_def [symmetric] fill_mid str_text_def aligned_text_def)
  next
    case left
    from w(2) obtain A B C D where G: "grow_buffer g (fs_width spec) b = (length b, b @ A @ B @ C @ D)" "length A = length s" "length B = n" "length C = 0" "length D = 0"
      by (rule grow_pieces)
    from left True G fill_mid [of "length b + length s" "b @ A" n B "fs_fill spec" "[]"] show ?thesis
      by (simp add: write_str_def Let_def n_def [symmetric] copy_mid str_text_def aligned_text_def)
  next
    case center
    from w(3) obtain A B C D where G: "grow_buffer g (fs_width spec) b = (length b, b @ A @ B @ C @ D)" "length A = n div 2" "length B = length s" "length C = n - n div 2" "length D = 0"
      by (rule grow_pieces)
    let ?L = "replicate (n div 2) (fs_fill spec)"
    from center True G fill_mid [of "length b + n div 2 + length s" "b @ ?L @ B" "n - n div 2" C "fs_fill spec" "[]"]
      copy_second [of ?L "n div 2" B s b "replicate (n - n div 2) (fs_fill spec)"] show ?thesis
      by (simp add: write_str_def fill_padding_def Let_def n_def [symmetric] fill_mid str_text_def aligned_text_def)
  qed
qed

lemma write_decimal_eq:
  assumes "int_in_range t v"
  shows "write_decimal g t v b = Some (b @ show_int v)"
proof -
  define n where "n = nat \<bar>v\<bar>"
  have less: "n < 2 ^ main_bits t" and a: "abs_value t v = n" using abs_value_less [OF assms] abs_value_eq [OF assms] by (simp_all add: n_def)
  have w: "write_unsigned_decimal g t n (length J) b = Some (length b, b @ map (be_fresh g) [length b ..< length b + length J] @ show_nat n)" for J :: string
    using less by (simp add: write_unsigned_decimal_def Let_def grow_buffer_def count_digits_eq format_decimal_eq put_before_def take_map)
  have "copy_to (length b) ''-'' (b @ map (be_fresh g) [length b ..< length b + 1] @ show_nat n) = Some (b @ ''-'' @ show_nat n)"
    by (rule copy_mid) simp_all
  with w [of "''-''"] have "write_unsigned_decimal g t n 1 b \<bind> (\<lambda>(ptr, b). copy_to ptr ''-'' b) = Some (b @ ''-'' @ show_nat n)"
    by simp
  moreover have "map_option snd (write_unsigned_decimal g t n 0 b) = Some (b @ show_nat n)" using w [of "[]"] by simp
  ultimately show ?thesis unfolding write_decimal_def a show_int_abs n_def [symmetric] by simp
qed

lemma write_int_eq:
  assumes "int_in_range t v" "steady g spec b"
  shows "write_int g sep t v spec b =
    Some (if int_code (fs_type spec)
      then Inr (b @ number_text spec (int_prefix v spec) (int_digits sep (fs_type spec) (nat \<bar>v\<bar>)))
      else Inl (report_unknown_type (fs_type spec) (if fs_flag spec CHAR_FLAG then ''char'' else ''integer'')))"
proof -
  let ?n = "nat \<bar>v\<bar>" and ?ty = "fs_type spec"
  have a: "abs_value t v = ?n" and c: "count_digits t ?n = length (show_nat ?n)"
    using abs_value_eq [OF assms(1)] abs_value_less [OF assms(1)] by (simp_all add: count_digits_eq)
  have l: "length (dec_text (ThousandsSep sep 0) ?n) = length (show_nat ?n) + length sep * ((length (show_nat ?n) - 1) div 3)"
    by (simp add: length_dec_text_sep)
  consider (dec) "?ty = CHR 0x00 \<or> ?ty = CHR ''d''" | (radix) "?ty \<in> {CHR ''x'', CHR ''X'', CHR ''b'', CHR ''B'', CHR ''o''}"
    | (sep) "?ty = CHR ''n''" | (none) "\<not> int_code ?ty" by (auto simp: int_code_def)
  then show ?thesis
  proof cases
    case dec
    then show ?thesis using write_dec_eq [of NoThousandsSep ?n "length (show_nat ?n)" g spec b]
      using assms(2) by (auto simp: write_int_def Let_def a c int_code_def int_digits_def int_prefix_def)
  next
    case radix
    then show ?thesis
      by (auto simp: write_int_def Let_def a write_radix_eq [OF assms(2)] int_code_def int_digits_def int_prefix_def)
  next
    case sep
    then show ?thesis using write_dec_eq [OF l assms(2)]
      by (simp add: write_int_def Let_def a c int_code_def int_digits_def int_prefix_def)
  next
    case none
    then show ?thesis by (auto simp: write_int_def Let_def int_code_def)
  qed
qed

lemma write_value_eq: "int_in_range t v \<Longrightarrow> write_value g sep t v b = Some (Inr (b @ show_int v))"
  by (cases t) (simp_all add: write_value_def write_decimal_eq write_int_eq steady_def TypeSpec_def FormatSpec_new_def int_code_def int_digits_def
      int_prefix_def sign_prefix_def fs_flag_def number_text_def aligned_text_def show_int_abs)

definition pad_text :: "int \<Rightarrow> nat \<Rightarrow> char \<Rightarrow> string" where
  "pad_text v width fill = replicate (width - length (show_int v)) fill @ show_int v"

lemma write_pad_eq: "int_in_range t v \<Longrightarrow> write_pad g sep t v width fill b = Some (Inr (b @ pad_text v width fill))"
  by (simp add: write_pad_def write_int_eq steady_def AlignTypeSpec_def FormatSpec_new_def int_code_def int_digits_def int_prefix_def
      sign_prefix_def fs_flag_def number_text_def aligned_text_def show_int_abs pad_text_def)

text \<open>
  (C29) Formatted integer output is memory-safe and exact. For every value of an integer type
  and every specifier, a left alignment together with a precision in a buffer that moves
  excepted, \<open>write_int\<close> writes only inside the area it grew the buffer by, leaves
  what was in the buffer, appends the sign or base prefix, digits and padding the specifier asks
  for, and nothing of the indeterminate contents of the new area remains; an unknown type
  character is reported as an exception.
\<close>

theorem write_int_appends:
  assumes "int_in_range t v" and "steady g spec b"
  shows "write_int g sep t v spec b =
    Some (if int_code (fs_type spec)
      then Inr (b @ number_text spec (int_prefix v spec) (int_digits sep (fs_type spec) (nat \<bar>v\<bar>)))
      else Inl (report_unknown_type (fs_type spec) (if fs_flag spec CHAR_FLAG then ''char'' else ''integer'')))"
  using assms by (rule write_int_eq)

theorem write_int_appends_witness:
  "write_int \<lparr>be_fresh = (\<lambda>_. CHR ''?''), be_moves = (\<lambda>_ _. True)\<rparr> '','' Int_t (- 255) (FormatSpec_new\<lparr>fs_width := 8, fs_flags := 8, fs_type := CHR ''x'', fs_align := ALIGN_NUMERIC, fs_fill := CHR ''0''\<rparr>) ''v=''
   = Some (Inr ''v=-0x000ff'')"
proof -
  have r: "replicate 3 (CHR ''0'') = ''000''" by (simp add: numeral_3_eq_3)
  show ?thesis
  using write_int_appends [of Int_t "- 255" "\<lparr>be_fresh = (\<lambda>_. CHR ''?''), be_moves = (\<lambda>_ _. True)\<rparr>"
      "FormatSpec_new\<lparr>fs_width := 8, fs_flags := 8, fs_type := CHR ''x'', fs_align := ALIGN_NUMERIC, fs_fill := CHR ''0''\<rparr>" "''v=''" "'',''"]
  by (simp add: steady_def FormatSpec_new_def int_code_def int_digits_def int_prefix_def sign_prefix_def fs_flag_def HASH_FLAG_def SIGN_FLAG_def
      number_text_def aligned_text_def radix_text.simps hex_digit_def mask_eq_exp_minus_1 drop_bit_eq_div Let_def r)
qed

text \<open>
  The exception is real: \<open>-7\<close> left-aligned in 8 columns with precision 3, after other text, in
  memory that moves, is written through a pointer into the old memory.
\<close>

lemma left_precision_dangles:
  "write_int \<lparr>be_fresh = (\<lambda>_. CHR ''?''), be_moves = (\<lambda>_ _. True)\<rparr> '','' Int_t (- 7)
     (FormatSpec_new\<lparr>fs_width := 8, fs_align := ALIGN_LEFT, fs_precision := 3\<rparr>) ''v='' = None"
proof -
  have c: "count_digits Int_t 7 = 1" by (simp add: count_digits_eq show_nat.simps)
  have a: "abs_value Int_t (- 7) = 7" by (simp add: abs_value_def)
  show ?thesis
    by (simp add: write_int_def prepare_int_buffer_def prepare_aligned_def grow_buffer_def fill_to_def copy_to_def sign_prefix_def
        FormatSpec_new_def Let_def a c)
qed

end
