(* ===== verification/Fmt_Format.thy ===== *)
theory Fmt_Format
  imports Fmt_Writer
begin

text \<open>
  \<open>BasicFormatter::format\<close> of the bundled fmt library: argument lists with automatic, numbered
  and named references, the format specification mini-language, and the dispatch on the type of
  the argument. Floating-point output goes through \<open>snprintf\<close>: the values have the type
  parameter \<open>'d\<close> and \<open>write_double\<close> is a parameter \<open>wd\<close> (\<open>Fmt_Float\<close>). Arguments of user-defined
  types are in \<open>Fmt_Stream\<close>; wide strings are left out. A format string is the text up to its terminating zero.
\<close>

section \<open>Arguments\<close>

datatype 'd Arg =
    Arg_NONE
  | Arg_NAMED_ARG string "'d Arg"
  | Arg_INT int
  | Arg_UINT int
  | Arg_LONG_LONG int
  | Arg_ULONG_LONG int
  | Arg_BOOL bool
  | Arg_CHAR char
  | Arg_DOUBLE 'd
  | Arg_CSTRING nat "string option"
  | Arg_STRING string
  | Arg_POINTER nat

text \<open>The position of an argument's type in the enumeration, on which the code compares types.\<close>

fun Arg_type :: "'d Arg \<Rightarrow> nat" where
  "Arg_type Arg_NONE = 0"
| "Arg_type (Arg_NAMED_ARG n a) = 1"
| "Arg_type (Arg_INT v) = 2"
| "Arg_type (Arg_UINT v) = 3"
| "Arg_type (Arg_LONG_LONG v) = 4"
| "Arg_type (Arg_ULONG_LONG v) = 5"
| "Arg_type (Arg_BOOL v) = 6"
| "Arg_type (Arg_CHAR v) = 7"
| "Arg_type (Arg_DOUBLE v) = 8"
| "Arg_type (Arg_CSTRING p s) = 10"
| "Arg_type (Arg_STRING s) = 11"
| "Arg_type (Arg_POINTER p) = 13"

definition LAST_INTEGER_TYPE :: nat where "LAST_INTEGER_TYPE = 7"
definition LAST_NUMERIC_TYPE :: nat where "LAST_NUMERIC_TYPE = 9"

text \<open>\<open>ArgMap\<close>: the named arguments in their order; the first of a name is found.\<close>

fun ArgMap_init :: "'d Arg list \<Rightarrow> (string \<times> 'd Arg) list" where
  "ArgMap_init [] = []"
| "ArgMap_init (a # as) = (case a of Arg_NAMED_ARG n v \<Rightarrow> [(n, v)] | _ \<Rightarrow> []) @ ArgMap_init as"

definition ArgMap_find :: "(string \<times> 'd Arg) list \<Rightarrow> string \<Rightarrow> 'd Arg option" where
  "ArgMap_find m name = map_of m name"

text \<open>\<open>FormatterBase\<close>: looking up an argument gives an error text or the argument.\<close>

definition do_get_arg :: "'d Arg list \<Rightarrow> nat \<Rightarrow> string + 'd Arg" where
  "do_get_arg args i =
     (case (if i < length args then args ! i else Arg_NONE) of
        Arg_NONE \<Rightarrow> Inl ''argument index out of range''
      | Arg_NAMED_ARG n a \<Rightarrow> Inr a
      | a \<Rightarrow> Inr a)"

definition next_arg :: "'d Arg list \<Rightarrow> int \<Rightarrow> (string + 'd Arg) \<times> int" where
  "next_arg args next_arg_index =
     (if next_arg_index \<ge> 0 then (do_get_arg args (nat next_arg_index), next_arg_index + 1)
      else (Inl ''cannot switch from manual to automatic argument indexing'', next_arg_index))"

definition check_no_auto_index :: "int \<Rightarrow> string + int" where
  "check_no_auto_index next_arg_index =
     (if next_arg_index > 0 then Inl ''cannot switch from automatic to manual argument indexing'' else Inr (- 1))"

definition get_arg :: "'d Arg list \<Rightarrow> nat \<Rightarrow> int \<Rightarrow> (string + 'd Arg) \<times> int" where
  "get_arg args i next_arg_index = (case check_no_auto_index next_arg_index of
       Inl e \<Rightarrow> (Inl e, next_arg_index)
     | Inr n \<Rightarrow> (do_get_arg args i, n))"

definition get_arg_named :: "'d Arg list \<Rightarrow> string \<Rightarrow> int \<Rightarrow> (string + 'd Arg) \<times> int" where
  "get_arg_named args name next_arg_index = (case check_no_auto_index next_arg_index of
       Inl e \<Rightarrow> (Inl e, next_arg_index)
     | Inr n \<Rightarrow> (case ArgMap_find (ArgMap_init args) name of Some a \<Rightarrow> Inr a | None \<Rightarrow> Inl ''argument not found'', n))"

section \<open>Parsing references\<close>

definition peek :: "string \<Rightarrow> char" where
  "peek s = (case s of [] \<Rightarrow> CHR 0x00 | c # _ \<Rightarrow> c)"

definition is_name_start :: "char \<Rightarrow> bool" where
  "is_name_start c \<longleftrightarrow> c \<in> {CHR ''a'' .. CHR ''z''} \<or> c \<in> {CHR ''A'' .. CHR ''Z''} \<or> CHR ''_'' = c"

text \<open>The digit loop on 32-bit unsigned integers, with the check for a wrapped value.\<close>

fun parse_int_loop :: "nat \<Rightarrow> string \<Rightarrow> nat \<times> string" where
  "parse_int_loop value [] = (value, [])"
| "parse_int_loop value (c # s) =
     (let new_value = (value * 10 + digit_val c) mod 2 ^ 32 in
      if new_value < value then (2 ^ 32 - 1, s)
      else if isdigit (peek s) then parse_int_loop new_value s
      else (new_value, s))"

definition parse_nonnegative_int :: "string \<Rightarrow> exn + (nat \<times> string)" where
  "parse_nonnegative_int s = (case parse_int_loop 0 s of (value, s) \<Rightarrow>
     if value > 2 ^ 31 - 1 then Inl (Format_error ''number is too big'') else Inr (value, s))"

definition require_numeric_argument :: "'d Arg \<Rightarrow> char \<Rightarrow> exn + unit" where
  "require_numeric_argument arg spec =
     (if Arg_type arg > LAST_NUMERIC_TYPE
      then Inl (Format_error (''format specifier '' @ [CHR 0x27, spec, CHR 0x27] @ '' requires numeric argument''))
      else Inr ())"

definition check_sign :: "string \<Rightarrow> 'd Arg \<Rightarrow> exn + string" where
  "check_sign s arg =
     bind_exn (require_numeric_argument arg (peek s)) (\<lambda>_.
       if Arg_type arg = 3 \<or> Arg_type arg = 5
       then Inl (Format_error (''format specifier '' @ [CHR 0x27, peek s, CHR 0x27] @ '' requires signed argument''))
       else Inr (tl s))"

definition parse_arg_index :: "'d Arg list \<Rightarrow> int \<Rightarrow> string \<Rightarrow> exn + ('d Arg \<times> int \<times> string)" where
  "parse_arg_index args n s =
     bind_exn
       (if \<not> isdigit (peek s) then Inr (next_arg args n, s)
        else bind_exn (parse_nonnegative_int s) (\<lambda>(i, s). Inr (get_arg args i n, s)))
       (\<lambda>((r, n), s). case r of
            Inl e \<Rightarrow> Inl (Format_error (if peek s \<noteq> CHR ''}'' \<and> peek s \<noteq> CHR '':'' then ''invalid format string'' else e))
          | Inr a \<Rightarrow> Inr (a, n, s))"

definition parse_arg_name :: "'d Arg list \<Rightarrow> int \<Rightarrow> string \<Rightarrow> exn + ('d Arg \<times> int \<times> string)" where
  "parse_arg_name args n s =
     (let name_char = (\<lambda>c. is_name_start c \<or> isdigit c);
          start = peek s # takeWhile name_char (tl s); s = dropWhile name_char (tl s) in
      case get_arg_named args start n of
        (Inl e, n) \<Rightarrow> Inl (Format_error e)
      | (Inr a, n) \<Rightarrow> Inr (a, n, s))"

definition parse_arg :: "'d Arg list \<Rightarrow> int \<Rightarrow> string \<Rightarrow> exn + ('d Arg \<times> int \<times> string)" where
  "parse_arg args n s = (if is_name_start (peek s) then parse_arg_name args n s else parse_arg_index args n s)"

section \<open>Parsing specifications\<close>

definition align_of :: "char \<Rightarrow> Alignment option" where
  "align_of c =
     (if c = CHR ''<'' then Some ALIGN_LEFT
      else if c = CHR ''>'' then Some ALIGN_RIGHT
      else if c = CHR ''='' then Some ALIGN_NUMERIC
      else if c = CHR ''^'' then Some ALIGN_CENTER
      else None)"

definition check_align :: "Alignment \<Rightarrow> 'd Arg \<Rightarrow> exn + unit" where
  "check_align a arg = (if a = ALIGN_NUMERIC then require_numeric_argument arg (CHR ''='') else Inr ())"

text \<open>Fill and alignment: the second character is looked at first, then the first.\<close>

definition parse_align :: "'d Arg \<Rightarrow> string \<Rightarrow> FormatSpec \<Rightarrow> exn + (string \<times> FormatSpec)" where
  "parse_align arg s spec = (case s of
       [] \<Rightarrow> Inr (s, spec)
     | c # s1 \<Rightarrow> (case align_of (peek s1) of
           Some a \<Rightarrow>
             if c = CHR ''}'' then Inr (s, spec\<lparr>fs_align := a\<rparr>)
             else if c = CHR ''{'' then Inl (Format_error (''invalid fill character '' @ [CHR 0x27, CHR ''{'', CHR 0x27]))
             else bind_exn (check_align a arg) (\<lambda>_. Inr (tl s1, spec\<lparr>fs_align := a, fs_fill := c\<rparr>))
         | None \<Rightarrow> (case align_of c of
               Some a \<Rightarrow> bind_exn (check_align a arg) (\<lambda>_. Inr (s1, spec\<lparr>fs_align := a\<rparr>))
             | None \<Rightarrow> Inr (s, spec))))"

definition add_flag :: "nat \<Rightarrow> FormatSpec \<Rightarrow> FormatSpec" where
  "add_flag f spec = spec\<lparr>fs_flags := fs_flags spec OR f\<rparr>"

definition parse_sign :: "'d Arg \<Rightarrow> string \<Rightarrow> FormatSpec \<Rightarrow> exn + (string \<times> FormatSpec)" where
  "parse_sign arg s spec =
     (if peek s = CHR ''+'' then bind_exn (check_sign s arg) (\<lambda>s. Inr (s, add_flag (SIGN_FLAG OR PLUS_FLAG) spec))
      else if peek s = CHR ''-'' then bind_exn (check_sign s arg) (\<lambda>s. Inr (s, add_flag MINUS_FLAG spec))
      else if peek s = CHR '' '' then bind_exn (check_sign s arg) (\<lambda>s. Inr (s, add_flag SIGN_FLAG spec))
      else Inr (s, spec))"

definition parse_hash :: "'d Arg \<Rightarrow> string \<Rightarrow> FormatSpec \<Rightarrow> exn + (string \<times> FormatSpec)" where
  "parse_hash arg s spec =
     (if peek s = CHR ''#'' then
        bind_exn (require_numeric_argument arg (CHR ''#'')) (\<lambda>_. Inr (tl s, add_flag HASH_FLAG spec))
      else Inr (s, spec))"

definition parse_zero :: "'d Arg \<Rightarrow> string \<Rightarrow> FormatSpec \<Rightarrow> exn + (string \<times> FormatSpec)" where
  "parse_zero arg s spec =
     (if peek s = CHR ''0'' then
        bind_exn (require_numeric_argument arg (CHR ''0''))
          (\<lambda>_. Inr (tl s, spec\<lparr>fs_align := ALIGN_NUMERIC, fs_fill := CHR ''0''\<rparr>))
      else Inr (s, spec))"

text \<open>A width or precision taken from an argument; \<open>what\<close> names it in the messages.\<close>

definition dynamic_value :: "string \<Rightarrow> 'd Arg \<Rightarrow> exn + nat" where
  "dynamic_value wh arg =
     bind_exn
       (case arg of
          Arg_INT v \<Rightarrow> if v < 0 then Inl (Format_error (''negative '' @ wh)) else Inr v
        | Arg_UINT v \<Rightarrow> Inr v
        | Arg_LONG_LONG v \<Rightarrow> if v < 0 then Inl (Format_error (''negative '' @ wh)) else Inr v
        | Arg_ULONG_LONG v \<Rightarrow> Inr v
        | _ \<Rightarrow> Inl (Format_error (wh @ '' is not integer'')))
       (\<lambda>v. if v > int_max then Inl (Format_error ''number is too big'') else Inr (nat v))"

definition parse_dynamic :: "string \<Rightarrow> 'd Arg list \<Rightarrow> int \<Rightarrow> string \<Rightarrow> exn + (nat \<times> int \<times> string)" where
  "parse_dynamic wh args n s =
     bind_exn (parse_arg args n s) (\<lambda>(a, n, s).
       if peek s \<noteq> CHR ''}'' then Inl (Format_error ''invalid format string'')
       else bind_exn (dynamic_value wh a) (\<lambda>v. Inr (v, n, tl s)))"

definition parse_width :: "'d Arg list \<Rightarrow> int \<Rightarrow> string \<Rightarrow> FormatSpec \<Rightarrow> exn + (int \<times> string \<times> FormatSpec)" where
  "parse_width args n s spec =
     (if isdigit (peek s) then bind_exn (parse_nonnegative_int s) (\<lambda>(v, s). Inr (n, s, spec\<lparr>fs_width := v\<rparr>))
      else if peek s = CHR ''{'' then
        bind_exn (parse_dynamic ''width'' args n (tl s)) (\<lambda>(v, n, s). Inr (n, s, spec\<lparr>fs_width := v\<rparr>))
      else Inr (n, s, spec))"

definition parse_precision :: "'d Arg list \<Rightarrow> 'd Arg \<Rightarrow> int \<Rightarrow> string \<Rightarrow> FormatSpec \<Rightarrow> exn + (int \<times> string \<times> FormatSpec)" where
  "parse_precision args arg n s spec =
     (if peek s \<noteq> CHR ''.'' then Inr (n, s, spec)
      else
        bind_exn
          (let s = tl s in
           if isdigit (peek s) then bind_exn (parse_nonnegative_int s) (\<lambda>(v, s). Inr (v, n, s))
           else if peek s = CHR ''{'' then parse_dynamic ''precision'' args n (tl s)
           else Inl (Format_error ''missing precision specifier''))
          (\<lambda>(v, n, s).
             if Arg_type arg \<le> LAST_INTEGER_TYPE \<or> Arg_type arg = 13
             then Inl (Format_error (''precision not allowed in '' @
                    (if Arg_type arg = 13 then ''pointer'' else ''integer'') @ '' format specifier''))
             else Inr (n, s, spec\<lparr>fs_precision := int v\<rparr>)))"

definition parse_type :: "string \<Rightarrow> FormatSpec \<Rightarrow> string \<times> FormatSpec" where
  "parse_type s spec = (if peek s \<noteq> CHR ''}'' \<and> s \<noteq> [] then (tl s, spec\<lparr>fs_type := peek s\<rparr>) else (s, spec))"

definition parse_spec :: "'d Arg list \<Rightarrow> 'd Arg \<Rightarrow> int \<Rightarrow> string \<Rightarrow> exn + (int \<times> string \<times> FormatSpec)" where
  "parse_spec args arg n s =
     (if peek s \<noteq> CHR '':'' then Inr (n, s, FormatSpec_new)
      else
        bind_exn (parse_align arg (tl s) FormatSpec_new) (\<lambda>(s, spec).
        bind_exn (parse_sign arg s spec) (\<lambda>(s, spec).
        bind_exn (parse_hash arg s spec) (\<lambda>(s, spec).
        bind_exn (parse_zero arg s spec) (\<lambda>(s, spec).
        bind_exn (parse_width args n s spec) (\<lambda>(n, s, spec).
        bind_exn (parse_precision args arg n s spec) (\<lambda>(n, s, spec).
        Inr (n, parse_type s spec))))))))"

section \<open>Formatting an argument\<close>

definition char_int :: "char \<Rightarrow> int" where
  "char_int c = (let n = of_char c in if n < 128 then n else n - 256)"

definition write_pointer :: "buffer_env \<Rightarrow> string \<Rightarrow> nat \<Rightarrow> FormatSpec \<Rightarrow> string \<Rightarrow> (exn + string) option" where
  "write_pointer g sep p spec b = write_int g sep ULongLong_t (int p) (spec\<lparr>fs_flags := HASH_FLAG, fs_type := CHR ''x''\<rparr>) b"

definition write_bool :: "buffer_env \<Rightarrow> bool \<Rightarrow> FormatSpec \<Rightarrow> string \<Rightarrow> (exn + string) option" where
  "write_bool g v spec b = write_str_value g (Some (if v then ''true'' else ''false'')) spec b"

definition visit_bool :: "buffer_env \<Rightarrow> string \<Rightarrow> bool \<Rightarrow> FormatSpec \<Rightarrow> string \<Rightarrow> (exn + string) option" where
  "visit_bool g sep v spec b =
     (if fs_type spec \<noteq> CHR 0x00 then write_int g sep UInt_t (of_bool v) spec b else write_bool g v spec b)"

definition visit_char :: "buffer_env \<Rightarrow> string \<Rightarrow> char \<Rightarrow> FormatSpec \<Rightarrow> string \<Rightarrow> (exn + string) option" where
  "visit_char g sep c spec b =
     (if fs_type spec \<noteq> CHR 0x00 \<and> fs_type spec \<noteq> CHR ''c''
      then write_int g sep Int_t (char_int c) (spec\<lparr>fs_flags := fs_flags spec OR CHAR_FLAG\<rparr>) b
      else if fs_align spec = ALIGN_NUMERIC \<or> fs_flags spec \<noteq> 0
      then Some (Inl (Format_error ''invalid format specifier for char''))
      else (
        let fill = fs_fill spec; width = fs_width spec; CHAR_SIZE = 1 in do {
        (out, b) \<leftarrow>
          (if width > CHAR_SIZE then (
             let (out, b) = grow_buffer g width b in
             if fs_align spec = ALIGN_RIGHT then do {
               b \<leftarrow> fill_to out (width - CHAR_SIZE) fill b;
               Some (out + (width - CHAR_SIZE), b)
             }
             else if fs_align spec = ALIGN_CENTER then fill_padding out width CHAR_SIZE fill b
             else do {
               b \<leftarrow> fill_to (out + CHAR_SIZE) (width - CHAR_SIZE) fill b;
               Some (out, b)
             })
           else Some (grow_buffer g CHAR_SIZE b));
        map_option Inr (copy_to out [c] b)
      }))"

definition visit_cstring :: "buffer_env \<Rightarrow> string \<Rightarrow> nat \<Rightarrow> string option \<Rightarrow> FormatSpec \<Rightarrow> string \<Rightarrow> (exn + string) option" where
  "visit_cstring g sep p s spec b =
     (if fs_type spec = CHR ''p'' then write_pointer g sep p spec b else write_str_value g s spec b)"

definition visit_pointer :: "buffer_env \<Rightarrow> string \<Rightarrow> nat \<Rightarrow> FormatSpec \<Rightarrow> string \<Rightarrow> (exn + string) option" where
  "visit_pointer g sep p spec b =
     (if fs_type spec \<noteq> CHR 0x00 \<and> fs_type spec \<noteq> CHR ''p'' then Some (Inl (report_unknown_type (fs_type spec) ''pointer''))
      else write_pointer g sep p spec b)"

text \<open>\<open>ArgVisitor::visit\<close>; an argument of no type or a nested named one breaks its assertion.\<close>

fun visit ::
    "buffer_env \<Rightarrow> string \<Rightarrow> ('d \<Rightarrow> FormatSpec \<Rightarrow> string \<Rightarrow> (exn + string) option) \<Rightarrow> 'd Arg \<Rightarrow> FormatSpec \<Rightarrow> string \<Rightarrow>
     (exn + string) option" where
  "visit g sep wd Arg_NONE spec b = None"
| "visit g sep wd (Arg_NAMED_ARG n a) spec b = None"
| "visit g sep wd (Arg_INT v) spec b = write_int g sep Int_t v spec b"
| "visit g sep wd (Arg_UINT v) spec b = write_int g sep UInt_t v spec b"
| "visit g sep wd (Arg_LONG_LONG v) spec b = write_int g sep LongLong_t v spec b"
| "visit g sep wd (Arg_ULONG_LONG v) spec b = write_int g sep ULongLong_t v spec b"
| "visit g sep wd (Arg_BOOL v) spec b = visit_bool g sep v spec b"
| "visit g sep wd (Arg_CHAR c) spec b = visit_char g sep c spec b"
| "visit g sep wd (Arg_DOUBLE d) spec b = wd d spec b"
| "visit g sep wd (Arg_CSTRING p s) spec b = visit_cstring g sep p s spec b"
| "visit g sep wd (Arg_STRING s) spec b = write_str_value g (Some s) spec b"
| "visit g sep wd (Arg_POINTER p) spec b = visit_pointer g sep p spec b"

definition format_arg ::
    "buffer_env \<Rightarrow> string \<Rightarrow> ('d \<Rightarrow> FormatSpec \<Rightarrow> string \<Rightarrow> (exn + string) option) \<Rightarrow> 'd Arg list \<Rightarrow> 'd Arg \<Rightarrow> int \<Rightarrow> string \<Rightarrow> string \<Rightarrow>
     (exn + (int \<times> string \<times> string)) option" where
  "format_arg g sep wd args arg n s b = (case parse_spec args arg n s of
       Inl e \<Rightarrow> Some (Inl e)
     | Inr (n, s, spec) \<Rightarrow>
         if peek s \<noteq> CHR ''}'' then Some (Inl (Format_error (''missing '' @ [CHR 0x27, CHR ''}'', CHR 0x27] @ '' in format string'')))
         else (case visit g sep wd arg spec b of
             None \<Rightarrow> None
           | Some (Inl e) \<Rightarrow> Some (Inl e)
           | Some (Inr b) \<Rightarrow> Some (Inr (n, tl s, b))))"

text \<open>Parsing only moves forward.\<close>

lemma bind_exn_InrE:
  assumes "bind_exn m f = Inr y"
  obtains x where "m = Inr x" "f x = Inr y"
  using assms by (cases m) simp_all

lemma parse_int_loop_length: "parse_int_loop v s = (w, s') \<Longrightarrow> length s' \<le> length s"
  by (induction v s rule: parse_int_loop.induct) (auto simp: Let_def split: if_splits)

lemma parse_nonnegative_int_length: "parse_nonnegative_int s = Inr (v, s') \<Longrightarrow> length s' \<le> length s"
  by (auto simp: parse_nonnegative_int_def split: prod.splits if_splits dest: parse_int_loop_length)

lemma parse_arg_length: "parse_arg args n s = Inr (a, n', s') \<Longrightarrow> length s' \<le> length s"
  using length_dropWhile_le [of "\<lambda>c. is_name_start c \<or> isdigit c" "tl s"]
  by (auto simp: parse_arg_def parse_arg_name_def parse_arg_index_def Let_def split: if_splits prod.splits sum.splits
      elim!: bind_exn_InrE dest: parse_nonnegative_int_length)

lemma parse_dynamic_length: "parse_dynamic wh args n s = Inr (v, n', s') \<Longrightarrow> length s' \<le> length s"
  by (auto simp: parse_dynamic_def split: if_splits elim!: bind_exn_InrE dest!: parse_arg_length)

lemma parse_flags_length:
  "parse_align arg s spec = Inr (s', spec') \<Longrightarrow> length s' \<le> length s"
  "parse_sign arg s spec = Inr (s', spec') \<Longrightarrow> length s' \<le> length s"
  "parse_hash arg s spec = Inr (s', spec') \<Longrightarrow> length s' \<le> length s"
  "parse_zero arg s spec = Inr (s', spec') \<Longrightarrow> length s' \<le> length s"
  by (auto simp: parse_align_def parse_sign_def parse_hash_def parse_zero_def check_sign_def
      split: list.splits option.splits if_splits elim!: bind_exn_InrE)

lemma parse_numbers_length:
  "parse_width args n s spec = Inr (n', s', spec') \<Longrightarrow> length s' \<le> length s"
  "parse_precision args arg n s spec = Inr (n', s', spec') \<Longrightarrow> length s' \<le> length s"
  "parse_type s spec = (s', spec') \<Longrightarrow> length s' \<le> length s"
  by (auto simp: parse_width_def parse_precision_def parse_type_def Let_def split: if_splits
      elim!: bind_exn_InrE dest!: parse_nonnegative_int_length parse_dynamic_length)

lemma parse_spec_length: "parse_spec args arg n s = Inr (n', s', spec) \<Longrightarrow> length s' \<le> length s"
  unfolding parse_spec_def
  by (auto split: if_splits elim!: bind_exn_InrE dest!: parse_flags_length parse_numbers_length)

lemma format_arg_length: "format_arg g sep wd args arg n s b = Some (Inr (n', s', b')) \<Longrightarrow> length s' \<le> length s"
  by (auto simp: format_arg_def split: sum.splits if_splits option.splits dest!: parse_spec_length)

section \<open>The format string\<close>

text \<open>
  The loop over the format string, with the text between \<open>start\<close> and \<open>s\<close> that is still to be
  written. It ends because every step consumes a character.
\<close>

function (sequential) format_loop ::
    "buffer_env \<Rightarrow> string \<Rightarrow> ('d \<Rightarrow> FormatSpec \<Rightarrow> string \<Rightarrow> (exn + string) option) \<Rightarrow> 'd Arg list \<Rightarrow> int \<Rightarrow> string \<Rightarrow> string \<Rightarrow> string \<Rightarrow>
     (exn + string) option" where
  "format_loop g sep wd args n start [] b = Some (Inr (b @ start))"
| "format_loop g sep wd args n start (c # s) b =
     (if c \<noteq> CHR ''{'' \<and> c \<noteq> CHR ''}'' then format_loop g sep wd args n (start @ [c]) s b
      else if s \<noteq> [] \<and> peek s = c then format_loop g sep wd args n [] (tl s) (b @ start @ [c])
      else if c = CHR ''}'' then Some (Inl (Format_error (''unmatched '' @ [CHR 0x27, CHR ''}'', CHR 0x27] @ '' in format string'')))
      else (case parse_arg args n s of
          Inl e \<Rightarrow> Some (Inl e)
        | Inr (arg, n, s1) \<Rightarrow> (case format_arg g sep wd args arg n s1 (b @ start) of
              None \<Rightarrow> None
            | Some (Inl e) \<Rightarrow> Some (Inl e)
            | Some (Inr (n, s2, b)) \<Rightarrow> format_loop g sep wd args n [] s2 b)))"
  by pat_completeness auto
termination
  by (relation "measure (\<lambda>(g, sep, wd, args, n, start, s, b). length s)")
    (auto dest!: parse_arg_length format_arg_length simp: less_Suc_eq_le)

definition format ::
    "buffer_env \<Rightarrow> string \<Rightarrow> ('d \<Rightarrow> FormatSpec \<Rightarrow> string \<Rightarrow> (exn + string) option) \<Rightarrow> string \<Rightarrow> 'd Arg list \<Rightarrow> string \<Rightarrow> (exn + string) option" where
  "format g sep wd format_str args b = format_loop g sep wd args 0 [] (takeWhile (\<lambda>c. c \<noteq> CHR 0x00) format_str) b"

section \<open>No undefined behaviour\<close>

text \<open>
  Arguments as the argument list holds them: in range for their type, a pointer is a 64-bit
  address, and what a named argument holds is not itself named.
\<close>

fun plain_arg_ok :: "'d Arg \<Rightarrow> bool" where
  "plain_arg_ok Arg_NONE = False"
| "plain_arg_ok (Arg_NAMED_ARG n a) = False"
| "plain_arg_ok (Arg_INT v) = int_in_range Int_t v"
| "plain_arg_ok (Arg_UINT v) = int_in_range UInt_t v"
| "plain_arg_ok (Arg_LONG_LONG v) = int_in_range LongLong_t v"
| "plain_arg_ok (Arg_ULONG_LONG v) = int_in_range ULongLong_t v"
| "plain_arg_ok (Arg_CSTRING p s) = (p < 2 ^ 64)"
| "plain_arg_ok (Arg_POINTER p) = (p < 2 ^ 64)"
| "plain_arg_ok _ = True"

fun arg_ok :: "'d Arg \<Rightarrow> bool" where
  "arg_ok (Arg_NAMED_ARG n a) = plain_arg_ok a"
| "arg_ok a = plain_arg_ok a"

lemma char_int_range: "int_in_range Int_t (char_int c)"
proof -
  have "(of_char c :: int) = of_char c mod 256" by simp
  then have "0 \<le> (of_char c :: int)" "(of_char c :: int) < 256"
    using pos_mod_bound [of 256 "of_char c :: int"] pos_mod_sign [of 256 "of_char c :: int"] by simp_all
  then show ?thesis by (simp add: char_int_def Let_def)
qed

lemma visit_char_plain:
  assumes "\<not> (fs_type spec \<noteq> CHR 0x00 \<and> fs_type spec \<noteq> CHR ''c'')" "\<not> (fs_align spec = ALIGN_NUMERIC \<or> fs_flags spec \<noteq> 0)"
  shows "visit_char g sep c spec b = Some (Inr (b @ str_text spec [c]))"
proof -
  have "visit_char g sep c spec b = map_option Inr (write_str g [c] spec b)"
    unfolding visit_char_def write_str_def if_not_P [OF assms(1)] if_not_P [OF assms(2)]
    by (simp add: Let_def map_option_bind comp_def split_def)
  then show ?thesis by (simp add: write_str_eq)
qed

lemma write_str_value_defined: "\<exists>r. write_str_value g sv spec b = Some r"
  by (auto simp: write_str_value_def write_str_eq split: option.splits)

lemma write_int_defined: "int_in_range t v \<Longrightarrow> steady g spec b \<Longrightarrow> \<exists>r. write_int g sep t v spec b = Some r"
  by (simp add: write_int_eq)

lemma steady_pointer [simp]: "steady g (spec\<lparr>fs_flags := x, fs_type := t\<rparr>) b = steady g spec b" "steady g (spec\<lparr>fs_flags := x\<rparr>) b = steady g spec b"
  by (simp_all add: steady_def)

text \<open>
  Only a floating-point value or a string takes a precision, and only a C string, printed as a
  pointer, then reaches \<open>write_int\<close>.
\<close>

fun no_cstring :: "'d Arg \<Rightarrow> bool" where
  "no_cstring (Arg_CSTRING p s) = False"
| "no_cstring (Arg_NAMED_ARG n a) = no_cstring a"
| "no_cstring a = True"

definition takes_precision :: "'d Arg \<Rightarrow> bool" where
  "takes_precision a \<longleftrightarrow> \<not> (Arg_type a \<le> LAST_INTEGER_TYPE \<or> Arg_type a = 13)"

lemma parse_flags_precision:
  "parse_align arg s spec = Inr (s', spec') \<Longrightarrow> fs_precision spec' = fs_precision spec"
  "parse_sign arg s spec = Inr (s', spec') \<Longrightarrow> fs_precision spec' = fs_precision spec"
  "parse_hash arg s spec = Inr (s', spec') \<Longrightarrow> fs_precision spec' = fs_precision spec"
  "parse_zero arg s spec = Inr (s', spec') \<Longrightarrow> fs_precision spec' = fs_precision spec"
  by (auto simp: parse_align_def parse_sign_def parse_hash_def parse_zero_def add_flag_def
      split: list.splits option.splits if_splits elim!: bind_exn_InrE)

lemma parse_numbers_precision:
  "parse_width args n s spec = Inr (n', s', spec') \<Longrightarrow> fs_precision spec' = fs_precision spec"
  "parse_precision args arg n s spec = Inr (n', s', spec') \<Longrightarrow> \<not> takes_precision arg \<Longrightarrow> fs_precision spec' = fs_precision spec"
  "parse_type s spec = (s', spec') \<Longrightarrow> fs_precision spec' = fs_precision spec"
  by (auto simp: parse_width_def parse_precision_def parse_type_def takes_precision_def Let_def split: if_splits
      elim!: bind_exn_InrE)

lemma parse_spec_precision:
  assumes "parse_spec args a n s = Inr (n', s', spec)" "\<not> takes_precision a"
  shows "fs_precision spec = - 1"
  using assms
  by (auto simp: parse_spec_def FormatSpec_new_def parse_flags_precision parse_numbers_precision split: if_splits
      elim!: bind_exn_InrE dest!: parse_flags_precision parse_numbers_precision)

lemma visit_defined:
  assumes "plain_arg_ok a" "\<And>d spec b. \<exists>r. wd d spec b = Some r"
    and "takes_precision a \<or> fs_precision spec \<le> 0" "no_cstring a \<or> (\<forall>n m. \<not> be_moves g n m)"
  shows "\<exists>r. visit g sep wd a spec b = Some r"
proof -
  have st: "steady g spec b" if "\<not> takes_precision a \<or> \<not> no_cstring a"
    using assms(3,4) that by (auto simp: steady_def)
  show ?thesis
  proof (cases a)
    case (Arg_CHAR c)
    then have "steady g spec b" using st by (simp add: takes_precision_def LAST_INTEGER_TYPE_def)
    with Arg_CHAR show ?thesis
      by (cases "fs_type spec \<noteq> CHR 0x00 \<and> fs_type spec \<noteq> CHR ''c''"; cases "fs_align spec = ALIGN_NUMERIC \<or> fs_flags spec \<noteq> 0")
        (auto simp: visit_char_plain, auto simp: visit_char_def intro!: write_int_defined char_int_range simp del: int_in_range.simps)
  qed (use assms(1,2) st in \<open>auto simp: visit_bool_def write_bool_def visit_cstring_def visit_pointer_def write_pointer_def
    write_str_value_defined takes_precision_def LAST_INTEGER_TYPE_def intro!: write_int_defined\<close>)
qed

text \<open>An argument that was looked up is one of the list, or what a named one of the list holds.\<close>

definition held_by :: "'d Arg list \<Rightarrow> 'd Arg \<Rightarrow> bool" where
  "held_by args a \<longleftrightarrow> (\<exists>x \<in> set args. x = a \<and> (\<forall>n v. x \<noteq> Arg_NAMED_ARG n v) \<and> x \<noteq> Arg_NONE \<or> (\<exists>n. x = Arg_NAMED_ARG n a))"

lemma do_get_arg_held:
  assumes "do_get_arg args i = Inr a"
  shows "held_by args a"
proof -
  have "i < length args" using assms by (auto simp: do_get_arg_def split: if_splits)
  then have "args ! i \<in> set args" by simp
  with assms \<open>i < length args\<close> show ?thesis
    by (cases "args ! i") (auto simp: do_get_arg_def held_by_def intro: bexI [of _ "args ! i"])
qed

lemma ArgMap_held: "map_of (ArgMap_init args) name = Some a \<Longrightarrow> held_by args a"
  by (induction args) (auto simp: held_by_def split: Arg.splits if_splits)

lemma parse_arg_held:
  assumes p: "parse_arg args n s = Inr (a, n', s')"
  shows "held_by args a"
proof (cases "is_name_start (peek s)")
  case True
  with p show ?thesis
    by (auto simp: parse_arg_def parse_arg_name_def get_arg_named_def Let_def ArgMap_find_def intro: ArgMap_held
        split: sum.splits option.splits prod.splits)
next
  case False
  with p show ?thesis
    by (auto simp: parse_arg_def parse_arg_index_def next_arg_def get_arg_def elim!: bind_exn_InrE intro: do_get_arg_held
        split: sum.splits option.splits prod.splits if_splits)
qed

lemma held_by_ok: "held_by args a \<Longrightarrow> list_all arg_ok args \<Longrightarrow> plain_arg_ok a"
  by (cases a) (force simp: held_by_def list_all_iff)+

lemma held_by_no_cstring: "held_by args a \<Longrightarrow> list_all no_cstring args \<Longrightarrow> no_cstring a"
  by (auto simp: held_by_def list_all_iff)

lemma format_loop_defined:
  assumes "list_all arg_ok args" "\<And>d spec b. \<exists>r. wd d spec b = Some r"
    and "list_all no_cstring args \<or> (\<forall>n m. \<not> be_moves g n m)"
  shows "\<exists>r. format_loop g sep wd args n start s b = Some r"
  using assms
proof (induction g sep wd args n start s b rule: format_loop.induct)
  case (2 g sep wd args n start c s b)
  have f: "\<exists>r. format_arg g sep wd args a n s b = Some r" if a: "held_by args a" for a n s b
  proof (cases "parse_spec args a n s")
    case (Inr r)
    obtain n' s' spec where r: "r = (n', s', spec)" by (cases r)
    have "takes_precision a \<or> fs_precision spec \<le> 0"
      by (cases "takes_precision a") (simp_all add: parse_spec_precision [OF Inr [unfolded r]])
    moreover have "no_cstring a \<or> (\<forall>n m. \<not> be_moves g n m)" using "2.prems"(3) held_by_no_cstring [OF a] by blast
    ultimately obtain x where "visit g sep wd a spec b = Some x"
      using visit_defined [of a wd spec g sep b, OF held_by_ok [OF a "2.prems"(1)] "2.prems"(2)] by blast
    with Inr r show ?thesis by (cases x) (auto simp: format_arg_def)
  qed (simp add: format_arg_def)
  show ?case
  proof (cases "(c \<noteq> CHR ''{'' \<and> c \<noteq> CHR ''}'') \<or> s \<noteq> [] \<and> peek s = c \<or> c = CHR ''}''")
    case True
    with "2.IH"(1,2) "2.prems" show ?thesis by auto
  next
    case False
    then have e: "format_loop g sep wd args n start (c # s) b = (case parse_arg args n s of
          Inl e \<Rightarrow> Some (Inl e)
        | Inr (arg, n, s1) \<Rightarrow> (case format_arg g sep wd args arg n s1 (b @ start) of
              None \<Rightarrow> None
            | Some (Inl e) \<Rightarrow> Some (Inl e)
            | Some (Inr (n, s2, b)) \<Rightarrow> format_loop g sep wd args n [] s2 b))" by auto
    show ?thesis
    proof (cases "parse_arg args n s")
      case (Inr r)
      obtain a n1 s1 where r: "r = (a, n1, s1)" by (cases r)
      obtain x where x: "format_arg g sep wd args a n1 s1 (b @ start) = Some x"
        using f [OF parse_arg_held [OF Inr [unfolded r]]] by blast
      show ?thesis
      proof (cases x)
        case (Inr y)
        obtain n2 s2 b2 where y: "y = (n2, s2, b2)" by (cases y)
        have "\<exists>r. format_loop g sep wd args n2 [] s2 b2 = Some r"
          by (rule "2.IH"(3)) (use False \<open>parse_arg args n s = Inr r\<close> r x Inr y "2.prems" in auto)
        with e \<open>parse_arg args n s = Inr r\<close> r x Inr y show ?thesis by simp
      qed (use e Inr r x in simp)
    qed (use e in simp)
  qed
qed simp



section \<open>Templates\<close>

text \<open>
  A format string in the form the sources use: literal text with its braces doubled, and \<open>{}\<close>
  where the next argument goes.
\<close>

datatype piece = Lit string | Hole

fun escape :: "string \<Rightarrow> string" where
  "escape [] = []"
| "escape (c # s) = (if c = CHR ''{'' \<or> c = CHR ''}'' then [c, c] else [c]) @ escape s"

fun piece_src :: "piece \<Rightarrow> string" where
  "piece_src (Lit s) = escape s"
| "piece_src Hole = ''{}''"

definition template_src :: "piece list \<Rightarrow> string" where
  "template_src ps = concat (map piece_src ps)"

fun template_text :: "piece list \<Rightarrow> string list \<Rightarrow> string option" where
  "template_text [] ts = Some []"
| "template_text (Lit s # ps) ts = map_option ((@) s) (template_text ps ts)"
| "template_text (Hole # ps) [] = None"
| "template_text (Hole # ps) (t # ts) = map_option ((@) t) (template_text ps ts)"

text \<open>What an argument looks like without a specification.\<close>

fun arg_text :: "'d Arg \<Rightarrow> string option" where
  "arg_text (Arg_NAMED_ARG n a) = (if plain_arg_ok a then arg_text a else None)"
| "arg_text (Arg_INT v) = Some (show_int v)"
| "arg_text (Arg_UINT v) = Some (show_int v)"
| "arg_text (Arg_LONG_LONG v) = Some (show_int v)"
| "arg_text (Arg_ULONG_LONG v) = Some (show_int v)"
| "arg_text (Arg_BOOL v) = Some (if v then ''true'' else ''false'')"
| "arg_text (Arg_CHAR c) = Some [c]"
| "arg_text (Arg_CSTRING p s) = s"
| "arg_text (Arg_STRING s) = Some s"
| "arg_text (Arg_POINTER p) = Some (''0x'' @ radix_text 4 (hex_digit False) p)"
| "arg_text _ = None"

lemma FormatSpec_new_simps [simp]:
  "fs_type FormatSpec_new = CHR 0x00" "fs_align FormatSpec_new = ALIGN_DEFAULT" "fs_flags FormatSpec_new = 0"
  "fs_width FormatSpec_new = 0" "fs_precision FormatSpec_new = - 1" "fs_fill FormatSpec_new = CHR '' ''"
  by (simp_all add: FormatSpec_new_def)

lemma str_text_new [simp]: "str_text FormatSpec_new s = s"
  by (simp add: str_text_def aligned_text_def)

lemma number_text_plain [simp]: "fs_width spec = 0 \<Longrightarrow> fs_precision spec = - 1 \<Longrightarrow> number_text spec prefix ds = prefix @ ds"
  by (auto simp: number_text_def aligned_text_def split: Alignment.splits)

lemma steady_plain [simp]: "fs_precision spec = - 1 \<Longrightarrow> steady g spec b"
  by (simp add: steady_def)

lemma write_int_plain: "int_in_range t v \<Longrightarrow> write_int g sep t v FormatSpec_new b = Some (Inr (b @ show_int v))"
  by (simp add: write_int_eq int_code_def int_digits_def int_prefix_def sign_prefix_def fs_flag_def show_int_abs del: int_in_range.simps)

lemma write_pointer_plain:
  "p < 2 ^ 64 \<Longrightarrow> write_pointer g sep p FormatSpec_new b = Some (Inr (b @ ''0x'' @ radix_text 4 (hex_digit False) p))"
  by (simp add: write_pointer_def write_int_eq int_code_def int_digits_def int_prefix_def sign_prefix_def fs_flag_def HASH_FLAG_def
      SIGN_FLAG_def)

lemma visit_plain:
  "plain_arg_ok a \<Longrightarrow> arg_text a = Some t \<Longrightarrow> visit g sep wd a FormatSpec_new b = Some (Inr (b @ t))"
  by (cases a) (auto simp: write_int_plain visit_bool_def write_bool_def write_str_value_def write_str_eq visit_char_plain
      visit_cstring_def visit_pointer_def write_pointer_plain simp del: int_in_range.simps)

lemma format_loop_start: "format_loop g sep wd args n start s b = format_loop g sep wd args n [] s (b @ start)"
proof (induction s arbitrary: start b)
  case (Cons c s)
  show ?case
  proof (cases "c \<noteq> CHR ''{'' \<and> c \<noteq> CHR ''}''")
    case True
    have "format_loop g sep wd args n [c] s (b @ start) = format_loop g sep wd args n [] s ((b @ start) @ [c])" by (rule Cons.IH)
    moreover have "format_loop g sep wd args n (start @ [c]) s b = format_loop g sep wd args n [] s (b @ start @ [c])" by (rule Cons.IH)
    ultimately show ?thesis using True by simp
  next
    case False
    then show ?thesis unfolding format_loop.simps append_Nil append_Nil2 append_assoc by presburger
  qed
qed simp

lemma format_loop_escape: "format_loop g sep wd args n [] (escape t @ s) b = format_loop g sep wd args n [] s (b @ t)"
proof (induction t arbitrary: b)
  case (Cons c t)
  then show ?case by (auto simp: peek_def format_loop_start [of g sep wd args n "[c]"])
qed simp

lemma format_loop_hole:
  assumes "list_all2 (\<lambda>a t. arg_ok a \<and> arg_text a = Some t) args ts"
  shows "format_loop g sep wd args (int k) [] (''{}'' @ s) b =
    (if k < length ts then format_loop g sep wd args (int (Suc k)) [] s (b @ ts ! k)
     else Some (Inl (Format_error ''argument index out of range'')))"
proof (cases "k < length ts")
  case True
  with assms have a: "arg_ok (args ! k)" "arg_text (args ! k) = Some (ts ! k)" "k < length args"
    by (auto simp: list_all2_conv_all_nth)
  then obtain a where g: "do_get_arg args k = Inr a" "plain_arg_ok a" "arg_text a = Some (ts ! k)"
    by (cases "args ! k") (auto simp: do_get_arg_def split: if_splits)
  have "parse_arg args (int k) (CHR ''}'' # s) = Inr (a, int (Suc k), CHR ''}'' # s)"
    using g(1) by (simp add: parse_arg_def is_name_start_def parse_arg_index_def peek_def isdigit_def next_arg_def)
  moreover have "format_arg g sep wd args a (int (Suc k)) (CHR ''}'' # s) b = Some (Inr (int (Suc k), s, b @ ts ! k))"
    using visit_plain [OF g(2,3)] by (simp add: format_arg_def parse_spec_def peek_def)
  ultimately show ?thesis using True by (simp add: peek_def)
next
  case False
  with assms have "do_get_arg args k = Inl ''argument index out of range''"
    by (auto simp: do_get_arg_def dest: list_all2_lengthD)
  then have "parse_arg args (int k) (CHR ''}'' # s) = Inl (Format_error ''argument index out of range'')"
    by (simp add: parse_arg_def is_name_start_def parse_arg_index_def peek_def isdigit_def next_arg_def)
  with False show ?thesis by (simp add: peek_def)
qed

lemma format_loop_template:
  assumes "list_all2 (\<lambda>a t. arg_ok a \<and> arg_text a = Some t) args ts"
  shows "format_loop g sep wd args (int k) [] (template_src ps) b =
    Some (case template_text ps (drop k ts) of Some t \<Rightarrow> Inr (b @ t) | None \<Rightarrow> Inl (Format_error ''argument index out of range''))"
proof (induction ps arbitrary: k b)
  case Nil
  then show ?case by (simp add: template_src_def)
next
  case (Cons p ps)
  show ?case
  proof (cases p)
    case (Lit t)
    with Cons show ?thesis by (simp add: template_src_def format_loop_escape split: option.splits)
  next
    case Hole
    have src: "template_src (p # ps) = ''{}'' @ template_src ps" by (simp add: Hole template_src_def)
    have "drop k ts = (if k < length ts then ts ! k # drop (Suc k) ts else [])" by (simp add: Cons_nth_drop_Suc)
    with Hole show ?thesis unfolding src format_loop_hole [OF assms] Cons.IH by (simp split: option.splits)
  qed
qed

lemma escape_chars: "c \<in> set (escape t) \<Longrightarrow> c \<in> set t"
  by (induction t) (auto split: if_splits)

lemma format_template:
  assumes "list_all2 (\<lambda>a t. arg_ok a \<and> arg_text a = Some t) args ts"
    and "\<forall>s. Lit s \<in> set ps \<longrightarrow> CHR 0x00 \<notin> set s"
  shows "format g sep wd (template_src ps) args b =
    Some (case template_text ps ts of Some t \<Rightarrow> Inr (b @ t) | None \<Rightarrow> Inl (Format_error ''argument index out of range''))"
proof -
  have "\<forall>p \<in> set ps. CHR 0x00 \<notin> set (piece_src p)"
  proof
    fix p assume "p \<in> set ps"
    with assms(2) show "CHR 0x00 \<notin> set (piece_src p)" by (cases p) (auto dest: escape_chars)
  qed
  then have "CHR 0x00 \<notin> set (template_src ps)" unfolding template_src_def by auto
  then have t: "takeWhile (\<lambda>c. c \<noteq> CHR 0x00) (template_src ps) = template_src ps"
    by (intro takeWhile_eq_all_conv [THEN iffD2] ballI notI) simp
  show ?thesis using format_loop_template [OF assms(1), of g sep wd 0 ps b] unfolding format_def t by simp
qed

text \<open>
  (C28) Templates are filled in: for a format string made of literal text, with braces doubled,
  and \<open>{}\<close> places, the output is the text with each place replaced by the plain rendering of
  the next argument; when there are fewer arguments than places, the exception says so.
\<close>

theorem format_fills_template:
  assumes "list_all2 (\<lambda>a t. arg_ok a \<and> arg_text a = Some t) args ts"
    and "\<forall>s. Lit s \<in> set ps \<longrightarrow> CHR 0x00 \<notin> set s"
  shows "format g sep wd (template_src ps) args b =
    Some (case template_text ps ts of Some t \<Rightarrow> Inr (b @ t) | None \<Rightarrow> Inl (Format_error ''argument index out of range''))"
  using assms by (rule format_template)

theorem format_fills_template_witness:
  "format \<lparr>be_fresh = (\<lambda>i. CHR ''#''), be_moves = (\<lambda>n m. True)\<rparr> '','' (\<lambda>d spec b. None) ''{} {{x}} of {}'' [Arg_INT (- 3), Arg_STRING ''abc'' :: unit Arg] [] =
     Some (Inr ''-3 {x} of abc'')"
  using format_fills_template [of "[Arg_INT (- 3), Arg_STRING ''abc'' :: unit Arg]" "[''-3'', ''abc'']" "[Hole, Lit '' {x} of '', Hole]"
      "\<lparr>be_fresh = (\<lambda>i. CHR ''#''), be_moves = (\<lambda>n m. True)\<rparr>" "'',''" "\<lambda>d spec b. None" "[]"]
  by (simp add: template_src_def show_int_def digit_chars)

text \<open>
  The overflow check of \<open>parse_nonnegative_int\<close> misses values that wrap to a larger one: the
  width 10000000000 is read as 1410065408.
\<close>

lemma parse_int_overflow_missed: "parse_nonnegative_int ''10000000000}'' = Inr (1410065408, ''}'')"
  by (simp add: parse_nonnegative_int_def digit_val_def isdigit_def peek_def Let_def)

end
