(* ===== verification/Mpmc_Queue.thy ===== *)
theory Mpmc_Queue
  imports Log_Level
begin

text \<open>
  \<open>mpmc_bounded_queue\<close>, the ring buffer between the threads that log and the thread that
  writes. Positions are 64-bit and wrap around; each cell carries a sequence number that tells
  whether it may be written or read. A call is modelled as it runs when no other thread
  interferes, but the weak compare-and-exchange may still fail spuriously.
\<close>

unbundle bit_operations_syntax

section \<open>State and operations\<close>

record 'a cell =
  cl_sequence :: size_t
  cl_data :: 'a

record 'a mpmc_bounded_queue =
  mq_max_size :: size_t
  mq_buffer :: "'a cell list"
  mq_buffer_mask :: size_t
  mq_enqueue_pos :: size_t
  mq_dequeue_pos :: size_t

text \<open>\<open>dflt\<close> is the default-constructed element.\<close>

definition mpmc_new :: "'a \<Rightarrow> size_t \<Rightarrow> exn + 'a mpmc_bounded_queue" where
  "mpmc_new dflt buffer_size =
     (if \<not> (buffer_size \<ge> 2 \<and> buffer_size AND (buffer_size - 1) = 0)
      then Inl (Spdlog_ex ''async logger queue size must be power of two'')
      else Inr \<lparr>mq_max_size = buffer_size,
                mq_buffer = map (\<lambda>i. \<lparr>cl_sequence = word_of_nat i, cl_data = dflt\<rparr>) [0..<unat buffer_size],
                mq_buffer_mask = buffer_size - 1, mq_enqueue_pos = 0, mq_dequeue_pos = 0\<rparr>)"

definition cell_index :: "'a mpmc_bounded_queue \<Rightarrow> size_t \<Rightarrow> nat" where
  "cell_index q pos = unat (pos AND mq_buffer_mask q)"

text \<open>
  The loops of \<open>enqueue\<close> and \<open>dequeue\<close>. The difference of sequence number and position is
  taken modulo \<open>2 ^ 64\<close> and read as a signed number. \<open>fails\<close> counts the spurious failures
  of the exchange, after which the loop is run again. When the difference is positive the
  position is loaded again; without another thread it is the same and the loop does not end.
\<close>

fun enqueue :: "nat \<Rightarrow> 'a mpmc_bounded_queue \<Rightarrow> 'a \<Rightarrow> (bool \<times> 'a mpmc_bounded_queue) option" where
  "enqueue fails q x =
     (let pos = mq_enqueue_pos q;
          i = cell_index q pos;
          dif = sint (cl_sequence (mq_buffer q ! i) - pos)
      in if dif = 0 then
           (case fails of
              0 \<Rightarrow> Some (True, q\<lparr>mq_enqueue_pos := pos + 1,
                     mq_buffer := (mq_buffer q)[i := \<lparr>cl_sequence = pos + 1, cl_data = x\<rparr>]\<rparr>)
            | Suc k \<Rightarrow> enqueue k q x)
         else if dif < 0 then Some (False, q)
         else None)"

fun dequeue :: "nat \<Rightarrow> 'a mpmc_bounded_queue \<Rightarrow> ('a option \<times> 'a mpmc_bounded_queue) option" where
  "dequeue fails q =
     (let pos = mq_dequeue_pos q;
          i = cell_index q pos;
          cell = mq_buffer q ! i;
          dif = sint (cl_sequence cell - (pos + 1))
      in if dif = 0 then
           (case fails of
              0 \<Rightarrow> Some (Some (cl_data cell), q\<lparr>mq_dequeue_pos := pos + 1,
                     mq_buffer := (mq_buffer q)[i := cell\<lparr>cl_sequence := pos + mq_buffer_mask q + 1\<rparr>]\<rparr>)
            | Suc k \<Rightarrow> dequeue k q)
         else if dif < 0 then Some (None, q)
         else None)"

definition approx_size :: "'a mpmc_bounded_queue \<Rightarrow> size_t" where
  "approx_size q =
     (let first_pos = mq_dequeue_pos q; last_pos = mq_enqueue_pos q
      in if last_pos \<le> first_pos then 0
         else if last_pos - first_pos < mq_max_size q then last_pos - first_pos else mq_max_size q)"

declare enqueue.simps [simp del] dequeue.simps [simp del]

section \<open>The queue it stands for\<close>

text \<open>
  The buffer of size \<open>2 ^ b\<close> between the positions \<open>d\<close> and \<open>e\<close>, counted without wrapping:
  the cells of the positions from \<open>d\<close> up to \<open>e\<close> hold the elements and are marked as written
  for their position; the cells from \<open>e\<close> up to a full turn after \<open>d\<close> are free for theirs.
\<close>

definition holds_at :: "nat \<Rightarrow> nat \<Rightarrow> nat \<Rightarrow> 'a mpmc_bounded_queue \<Rightarrow> 'a list \<Rightarrow> bool" where
  "holds_at b d e q xs \<longleftrightarrow> 1 \<le> b \<and> b < 64 \<and>
     mq_max_size q = 2 ^ b \<and> mq_buffer_mask q = 2 ^ b - 1 \<and> length (mq_buffer q) = 2 ^ b \<and>
     mq_enqueue_pos q = word_of_nat e \<and> mq_dequeue_pos q = word_of_nat d \<and>
     e = d + length xs \<and> length xs \<le> 2 ^ b \<and>
     (\<forall>p. d \<le> p \<and> p < e \<longrightarrow>
        mq_buffer q ! (p mod 2 ^ b) = \<lparr>cl_sequence = word_of_nat (p + 1), cl_data = xs ! (p - d)\<rparr>) \<and>
     (\<forall>p. e \<le> p \<and> p < d + 2 ^ b \<longrightarrow> cl_sequence (mq_buffer q ! (p mod 2 ^ b)) = word_of_nat p)"

definition mpmc_holds :: "nat \<Rightarrow> 'a mpmc_bounded_queue \<Rightarrow> 'a list \<Rightarrow> bool" where
  "mpmc_holds b q xs \<longleftrightarrow> (\<exists>d e. holds_at b d e q xs)"

section \<open>Lemmas\<close>

lemma and_mask_mod:
  assumes "b < 64"
  shows "unat ((word_of_nat p :: size_t) AND (2 ^ b - 1)) = p mod 2 ^ b"
proof -
  have "(word_of_nat p :: size_t) AND (2 ^ b - 1) = take_bit b (word_of_nat p)"
    by (simp add: take_bit_eq_mask mask_eq_exp_minus_1)
  then have "unat ((word_of_nat p :: size_t) AND (2 ^ b - 1)) = take_bit b (p mod 2 ^ 64)"
    by (simp add: unsigned_take_bit_eq unat_of_nat)
  also have "\<dots> = p mod 2 ^ b"
    unfolding take_bit_eq_mod using assms by (intro mod_mod_cancel le_imp_power_dvd) simp
  finally show ?thesis .
qed

lemma cell_index_nat: "holds_at b d e q xs \<Longrightarrow> cell_index q (word_of_nat p) = p mod 2 ^ b"
  by (simp add: holds_at_def cell_index_def and_mask_mod)

lemma sint_small_neg:
  assumes "0 < n" "n \<le> 2 ^ 63"
  shows "sint (- word_of_nat n :: size_t) = - int n"
proof -
  have "(- word_of_nat n :: size_t) = word_of_int (- int n)" by simp
  then have "sint (- word_of_nat n :: size_t) = signed_take_bit 63 (- int n)"
    by (simp only: sint_sbintrunc') simp
  also have "\<dots> = - int n" using assms by (intro signed_take_bit_int_eq_self) auto
  finally show ?thesis .
qed

lemma mod_inj_window:
  assumes "p mod n = r mod n" "d \<le> p" "p < d + n" "d \<le> r" "r < d + (n::nat)"
  shows "p = r"
proof -
  have "x = y" if "x mod n = y mod n" "d \<le> x" "y < d + n" "x \<le> y" for x y
  proof -
    have "n dvd y - x" using that(1,4) by (metis mod_eq_dvd_iff_nat)
    moreover have "y - x < n" using that(2-4) by linarith
    ultimately show "x = y" using that(4) by (auto dest: dvd_imp_le)
  qed
  then show ?thesis using assms by (metis nat_le_linear)
qed

lemma power_of_two_nat:
  fixes m :: nat
  assumes "0 < m" "m AND (m - 1) = 0"
  shows "\<exists>b. m = 2 ^ b"
  using assms
proof (induction m rule: less_induct)
  case (less m)
  show ?case
  proof (cases "even m")
    case True
    then obtain k where k: "m = 2 * k" by blast
    with less.prems have "0 < k" by simp
    have "m - 1 = 2 * (k - 1) + 1" using k \<open>0 < k\<close> by simp
    then have "m AND (m - 1) = 2 * (k AND (k - 1))"
      using k and_nat_rec [of m "m - 1"] by simp
    with less.IH [of k] less.prems k \<open>0 < k\<close> obtain b where "k = 2 ^ b" by auto
    with k show ?thesis by (metis power_Suc)
  next
    case False
    then obtain k where k: "m = 2 * k + 1" by (metis oddE)
    then have "m AND (m - 1) = 2 * k"
      using and_nat_rec [of m "m - 1"] by simp
    with less.prems k have "m = 2 ^ 0" by simp
    then show ?thesis by blast
  qed
qed

lemma power_of_two_word:
  fixes n :: size_t
  assumes "2 \<le> n" "n AND (n - 1) = 0"
  shows "\<exists>b. 1 \<le> b \<and> b < 64 \<and> n = 2 ^ b \<and> unat n = 2 ^ b"
proof -
  have "1 \<le> n" using assms(1) by (simp add: word_le_nat_alt)
  then have "unat (n - 1) = unat n - 1" by (simp add: unat_sub)
  then have "unat n AND (unat n - 1) = 0"
    using arg_cong [OF assms(2), of unat] by (simp add: unsigned_and_eq)
  moreover have n2: "2 \<le> unat n" using assms(1) by (simp add: word_le_nat_alt)
  ultimately obtain b where b: "unat n = 2 ^ b" using power_of_two_nat [of "unat n"] by auto
  have "b < 64"
  proof (rule ccontr)
    assume "\<not> b < 64"
    then have "(2::nat) ^ 64 \<le> 2 ^ b" by (intro power_increasing) auto
    moreover have "unat n < 2 ^ 64" using unsigned_less [of n] by simp
    ultimately show False using b by simp
  qed
  moreover have "1 \<le> b" using b n2 by (cases b) auto
  moreover have "n = 2 ^ b"
  proof -
    have "n = word_of_nat (unat n)" by simp
    then show ?thesis unfolding b by simp
  qed
  ultimately show ?thesis using b by blast
qed

section \<open>The operations on the queue they stand for\<close>

lemma mpmc_new_holds:
  assumes "mpmc_new dflt n = Inr q"
  shows "\<exists>b. unat n = 2 ^ b \<and> mpmc_holds b q []"
proof -
  obtain b where b: "1 \<le> b" "b < 64" "n = 2 ^ b" "unat n = 2 ^ b"
    using assms power_of_two_word [of n] by (auto simp: mpmc_new_def split: if_splits)
  have "holds_at b 0 0 q []"
    using assms b by (auto simp: mpmc_new_def holds_at_def split: if_splits)
  with b(4) show ?thesis by (auto simp: mpmc_holds_def)
qed

lemma enqueue_room:
  assumes h: "holds_at b d e q xs" and room: "length xs < 2 ^ b"
  shows "\<exists>q'. enqueue fails q x = Some (True, q') \<and> holds_at b d (e + 1) q' (xs @ [x])"
proof -
  let ?q = "q\<lparr>mq_enqueue_pos := word_of_nat e + 1,
     mq_buffer := (mq_buffer q)[e mod 2 ^ b := \<lparr>cl_sequence = word_of_nat e + 1, cl_data = x\<rparr>]\<rparr>"
  have e: "mq_enqueue_pos q = word_of_nat e" "e = d + length xs" "length (mq_buffer q) = 2 ^ b"
    using h by (auto simp: holds_at_def)
  have seq: "cl_sequence (mq_buffer q ! (e mod 2 ^ b)) = word_of_nat e"
    using h room by (simp add: holds_at_def)
  have "enqueue fails q x = Some (True, ?q)"
    by (induction fails) (simp_all add: enqueue.simps e(1) cell_index_nat [OF h] seq Let_def)
  moreover have "holds_at b d (e + 1) ?q (xs @ [x])"
  proof -
    have other: "mq_buffer ?q ! (p mod 2 ^ b) = mq_buffer q ! (p mod 2 ^ b)" if "d \<le> p" "p < d + 2 ^ b" "p \<noteq> e" for p
    proof -
      have "e mod 2 ^ b \<noteq> p mod 2 ^ b" using that mod_inj_window [of p "2 ^ b" e d] e(2) room by auto
      then show ?thesis by simp
    qed
    have new: "mq_buffer ?q ! (e mod 2 ^ b) = \<lparr>cl_sequence = word_of_nat (e + 1), cl_data = x\<rparr>"
      using e(3) by (simp add: add.commute)
    have "mq_buffer ?q ! (p mod 2 ^ b) = \<lparr>cl_sequence = word_of_nat (p + 1), cl_data = (xs @ [x]) ! (p - d)\<rparr>"
      if "d \<le> p" "p < e + 1" for p
      using that h other [of p] new e(2) room
      by (cases "p = e") (auto simp: holds_at_def nth_append simp del: select_convs)
    moreover have "cl_sequence (mq_buffer ?q ! (p mod 2 ^ b)) = word_of_nat p" if "e + 1 \<le> p" "p < d + 2 ^ b" for p
      using that h other [of p] e(2) by (auto simp: holds_at_def simp del: select_convs)
    ultimately show ?thesis
      using h room e by (simp add: holds_at_def add.commute)
  qed
  ultimately show ?thesis by blast
qed

lemma enqueue_full:
  assumes h: "holds_at b d e q xs" and full: "length xs = 2 ^ b"
  shows "enqueue fails q x = Some (False, q)"
proof -
  have e: "mq_enqueue_pos q = word_of_nat e" "e = d + 2 ^ b" "1 \<le> b" "b < 64" using h full by (auto simp: holds_at_def)
  have "mq_buffer q ! (d mod 2 ^ b) = \<lparr>cl_sequence = word_of_nat (d + 1), cl_data = xs ! 0\<rparr>"
    using h full by (simp add: holds_at_def)
  then have seq: "cl_sequence (mq_buffer q ! (e mod 2 ^ b)) = word_of_nat (d + 1)" using e(2) by simp
  have "(2::nat) ^ 1 \<le> 2 ^ b" using e(3) by (intro power_increasing) auto
  moreover have "(2::nat) ^ b \<le> 2 ^ 63" using e(4) by (intro power_increasing) auto
  ultimately have big: "(2::nat) \<le> 2 ^ b" "(2::nat) ^ b \<le> 2 ^ 63" by simp_all
  define m where "m = (2::nat) ^ b - 1"
  have m: "0 < m" "m \<le> 2 ^ 63" "e = d + 1 + m" using big e(2) by (auto simp: m_def)
  have "word_of_nat (d + 1) - (word_of_nat e :: size_t) = - word_of_nat m" unfolding m(3) by simp
  then have "sint (cl_sequence (mq_buffer q ! (e mod 2 ^ b)) - word_of_nat e) = - int m"
    by (simp only: seq sint_small_neg [OF m(1,2)])
  then show ?thesis
    using m(1) by (simp add: enqueue.simps e(1) cell_index_nat [OF h] Let_def)
qed


lemma dequeue_some:
  assumes h: "holds_at b d e q (x # xs)"
  shows "\<exists>q'. dequeue fails q = Some (Some x, q') \<and> holds_at b (d + 1) e q' xs"
proof -
  let ?c = "mq_buffer q ! (d mod 2 ^ b)"
  let ?q = "q\<lparr>mq_dequeue_pos := word_of_nat d + 1,
     mq_buffer := (mq_buffer q)[d mod 2 ^ b := ?c\<lparr>cl_sequence := word_of_nat d + mq_buffer_mask q + 1\<rparr>]\<rparr>"
  have e: "mq_dequeue_pos q = word_of_nat d" "e = d + 1 + length xs" "length (mq_buffer q) = 2 ^ b" "length xs < 2 ^ b"
    "mq_buffer_mask q = 2 ^ b - 1"
    using h by (auto simp: holds_at_def)
  have c: "?c = \<lparr>cl_sequence = word_of_nat (d + 1), cl_data = x\<rparr>" using h by (simp add: holds_at_def)
  have "dequeue fails q = Some (Some x, ?q)"
    by (induction fails) (simp_all add: dequeue.simps e(1) cell_index_nat [OF h] c Let_def)
  moreover have "holds_at b (d + 1) e ?q xs"
  proof -
    have other: "mq_buffer ?q ! (p mod 2 ^ b) = mq_buffer q ! (p mod 2 ^ b)" if "d < p" "p < d + 2 ^ b" for p
    proof -
      have "d mod 2 ^ b \<noteq> p mod 2 ^ b" using that mod_inj_window [of p "2 ^ b" d d] by auto
      then show ?thesis by simp
    qed
    have new: "cl_sequence (mq_buffer ?q ! (d mod 2 ^ b)) = word_of_nat (d + 2 ^ b)"
      using e(3,5) by simp
    have "mq_buffer ?q ! (p mod 2 ^ b) = \<lparr>cl_sequence = word_of_nat (p + 1), cl_data = xs ! (p - (d + 1))\<rparr>"
      if "d + 1 \<le> p" "p < e" for p
    proof -
      have "mq_buffer q ! (p mod 2 ^ b) = \<lparr>cl_sequence = word_of_nat (p + 1), cl_data = (x # xs) ! (p - d)\<rparr>"
        using that h by (simp add: holds_at_def)
      moreover have "(x # xs) ! (p - d) = xs ! (p - (d + 1))" using that by (simp add: nth_Cons')
      ultimately show ?thesis using other [of p] that e(2,4) by (simp del: select_convs)
    qed
    moreover have "cl_sequence (mq_buffer ?q ! (p mod 2 ^ b)) = word_of_nat p" if "e \<le> p" "p < d + 1 + 2 ^ b" for p
    proof (cases "p = d + 2 ^ b")
      case True
      then show ?thesis using new by simp
    next
      case False
      then have "cl_sequence (mq_buffer q ! (p mod 2 ^ b)) = word_of_nat p" using that h by (simp add: holds_at_def)
      with other [of p] False that e(2) show ?thesis by (simp del: select_convs)
    qed
    ultimately show ?thesis
      using h e by (simp add: holds_at_def add.commute)
  qed
  ultimately show ?thesis by blast
qed

lemma dequeue_empty:
  assumes h: "holds_at b d e q []"
  shows "dequeue fails q = Some (None, q)"
proof -
  have "mq_dequeue_pos q = word_of_nat d" "cl_sequence (mq_buffer q ! (d mod 2 ^ b)) = word_of_nat d"
    using h by (auto simp: holds_at_def)
  moreover have "word_of_nat d - (word_of_nat d + 1 :: size_t) = - word_of_nat 1" by simp
  then have "sint (word_of_nat d - (word_of_nat d + 1 :: size_t)) = - int 1"
    using sint_small_neg [of 1] by (simp only:) simp
  ultimately show ?thesis by (simp add: dequeue.simps cell_index_nat [OF h] Let_def)
qed


section \<open>Bounded queues\<close>

text \<open>
  What the asynchronous logger relies on: a queue with a capacity whose \<open>enq\<close> appends or,
  when it is full, refuses and changes nothing, and whose \<open>deq\<close> takes the oldest element.
  \<open>None\<close> stands for a call that does not return.
\<close>

locale bounded_queue =
  fixes enq :: "'q \<Rightarrow> 'm \<Rightarrow> (bool \<times> 'q) option"
    and deq :: "'q \<Rightarrow> ('m option \<times> 'q) option"
    and holds :: "'q \<Rightarrow> 'm list \<Rightarrow> bool"
    and capacity :: nat
  assumes enq_room: "holds q xs \<Longrightarrow> length xs < capacity \<Longrightarrow> \<exists>q'. enq q x = Some (True, q') \<and> holds q' (xs @ [x])"
    and enq_full: "holds q xs \<Longrightarrow> length xs = capacity \<Longrightarrow> enq q x = Some (False, q)"
    and deq_some: "holds q (x # xs) \<Longrightarrow> \<exists>q'. deq q = Some (Some x, q') \<and> holds q' xs"
    and deq_empty: "holds q [] \<Longrightarrow> deq q = Some (None, q)"
    and within_capacity: "holds q xs \<Longrightarrow> length xs \<le> capacity"
begin

lemma enqE:
  assumes "holds q xs"
  obtains q' where "enq q x = Some (length xs < capacity, q')"
    "holds q' (if length xs < capacity then xs @ [x] else xs)"
proof (cases "length xs < capacity")
  case True
  with enq_room [OF assms True, of x] that show ?thesis by auto
next
  case False
  with within_capacity [OF assms] have "length xs = capacity" by simp
  from enq_full [OF assms this, of x] that assms False show ?thesis by simp
qed

lemma deqE:
  assumes "holds q xs"
  obtains q' where "deq q = Some (if xs = [] then None else Some (hd xs), q')" "holds q' (tl xs)"
proof (cases xs)
  case Nil
  with deq_empty assms that show ?thesis by simp
next
  case (Cons x ys)
  with deq_some [of q x ys] assms that show ?thesis by auto
qed

end

lemma mpmc_bounded_queue_ok: "bounded_queue (enqueue fails) (dequeue fails) (mpmc_holds b) (2 ^ b)"
proof
  fix q :: "'a mpmc_bounded_queue" and xs x
  show "mpmc_holds b q xs \<Longrightarrow> length xs < 2 ^ b \<Longrightarrow> \<exists>q'. enqueue fails q x = Some (True, q') \<and> mpmc_holds b q' (xs @ [x])"
    using enqueue_room unfolding mpmc_holds_def by metis
  show "mpmc_holds b q xs \<Longrightarrow> length xs = 2 ^ b \<Longrightarrow> enqueue fails q x = Some (False, q)"
    using enqueue_full unfolding mpmc_holds_def by metis
  show "mpmc_holds b q (x # xs) \<Longrightarrow> \<exists>q'. dequeue fails q = Some (Some x, q') \<and> mpmc_holds b q' xs"
    using dequeue_some unfolding mpmc_holds_def by metis
  show "mpmc_holds b q [] \<Longrightarrow> dequeue fails q = Some (None, q)"
    using dequeue_empty unfolding mpmc_holds_def by metis
  show "mpmc_holds b q xs \<Longrightarrow> length xs \<le> 2 ^ b"
    unfolding mpmc_holds_def holds_at_def by blast
qed

interpretation mpmc: bounded_queue "enqueue fails" "dequeue fails" "mpmc_holds b" "2 ^ b" for fails b
  by (rule mpmc_bounded_queue_ok)

section \<open>Properties\<close>

text \<open>
  (C21) The lock-free ring buffer is a bounded FIFO queue, across any number of turns and the
  wrap-around of its 64-bit positions. In every state that stands for the list \<open>xs\<close>, however
  often the exchange fails spuriously, \<open>enqueue\<close> returns, appends the element exactly when
  there is room and says so; \<open>dequeue\<close> returns and takes the oldest element.
\<close>

theorem mpmc_is_fifo:
  assumes "mpmc_holds b q xs"
  shows "(\<exists>q'. enqueue fails q x = Some (length xs < 2 ^ b, q') \<and>
            mpmc_holds b q' (if length xs < 2 ^ b then xs @ [x] else xs)) \<and>
         (\<exists>q'. dequeue fails q = Some (if xs = [] then None else Some (hd xs), q') \<and> mpmc_holds b q' (tl xs))"
  using mpmc.enqE [OF assms, of fails x] mpmc.deqE [OF assms, of fails] by metis

theorem mpmc_is_fifo_witness:
  "\<exists>q q'. mpmc_new (0::nat) 8192 = Inr q \<and> enqueue 2 q 7 = Some (True, q') \<and> mpmc_holds 13 q' [7]"
proof -
  have "(8192 :: size_t) AND (8192 - 1) = 0" by code_simp
  then obtain q where q: "mpmc_new (0::nat) 8192 = Inr q" by (simp add: mpmc_new_def)
  then obtain b where b: "unat (8192 :: size_t) = 2 ^ b" "mpmc_holds b q []" using mpmc_new_holds by metis
  have "(2::nat) ^ b = 2 ^ 13" using b(1) by simp
  then have "b = 13" by (simp only: power_inject_exp)
  with mpmc_is_fifo [OF b(2), of 2 7] q show ?thesis by auto
qed

text \<open>
  A queue can be created exactly with a size that is a power of two and at least two; it
  is then empty and has that capacity.
\<close>

theorem mpmc_size_power_of_two:
  "(\<exists>q. mpmc_new dflt n = Inr q) \<longleftrightarrow> (\<exists>b. 1 \<le> b \<and> b < 64 \<and> n = 2 ^ b)"
proof
  assume "\<exists>q. mpmc_new dflt n = Inr q"
  then show "\<exists>b. 1 \<le> b \<and> b < 64 \<and> n = 2 ^ b"
    using power_of_two_word [of n] by (auto simp: mpmc_new_def split: if_splits)
next
  assume "\<exists>b. 1 \<le> b \<and> b < 64 \<and> n = 2 ^ b"
  then obtain b where b: "1 \<le> b" "b < 64" "n = 2 ^ b" by blast
  have "n AND (n - 1) = 0"
    unfolding b(3) by (simp flip: mask_eq_exp_minus_1 take_bit_eq_mask add: take_bit_eq_0_iff)
  moreover have "2 \<le> n"
  proof -
    have "(2::nat) ^ 1 \<le> 2 ^ b" using b(1) by (intro power_increasing) auto
    moreover have "(2::nat) ^ b < 2 ^ 64" using b(2) by (intro power_strict_increasing) auto
    then have "unat n = 2 ^ b" using unat_size_t_of_nat [of "2 ^ b"] unfolding b(3) by simp
    ultimately show ?thesis by (simp add: word_le_nat_alt)
  qed
  ultimately show "\<exists>q. mpmc_new dflt n = Inr q" by (simp add: mpmc_new_def)
qed

end
