(* ===== verification/Async_Log.thy ===== *)
theory Async_Log
  imports Mpmc_Queue
begin

text \<open>
  Log messages, sinks and \<open>async_log_helper\<close>: the threads that log push messages into a
  bounded queue, a worker thread pops them, formats them and passes them to the sinks.
\<close>

section \<open>Messages and sinks\<close>

record log_msg =
  lm_logger_name :: string
  lm_level :: level_enum
  lm_time :: int
  lm_thread_id :: size_t
  lm_raw :: string
  lm_formatted :: string

datatype async_msg_type = Type_log | Type_flush | Type_terminate

record async_msg =
  am_logger_name :: string
  am_level :: level_enum
  am_time :: int
  am_thread_id :: size_t
  am_txt :: string
  am_msg_type :: async_msg_type

definition async_msg_of :: "log_msg \<Rightarrow> async_msg" where
  "async_msg_of m = \<lparr>am_logger_name = lm_logger_name m, am_level = lm_level m, am_time = lm_time m,
     am_thread_id = lm_thread_id m, am_txt = lm_raw m, am_msg_type = Type_log\<rparr>"

text \<open>A default-constructed message; its members are not looked at before they are assigned.\<close>

definition async_msg_of_type :: "async_msg_type \<Rightarrow> async_msg" where
  "async_msg_of_type t = \<lparr>am_logger_name = [], am_level = trace, am_time = 0, am_thread_id = 0, am_txt = [], am_msg_type = t\<rparr>"

definition fill_log_msg :: "async_msg \<Rightarrow> log_msg" where
  "fill_log_msg a = \<lparr>lm_logger_name = am_logger_name a, lm_level = am_level a, lm_time = am_time a,
     lm_thread_id = am_thread_id a, lm_raw = am_txt a, lm_formatted = []\<rparr>"

text \<open>The virtual functions of a sink whose state is \<open>'s\<close>; \<open>log\<close> and \<open>flush\<close> may throw.\<close>

record 's sink =
  sk_level :: "'s \<Rightarrow> level_enum"
  sk_log :: "'s \<Rightarrow> log_msg \<Rightarrow> exn option \<times> 's"
  sk_flush :: "'s \<Rightarrow> exn option \<times> 's"

definition sink_should_log :: "'s sink \<Rightarrow> 's \<Rightarrow> level_enum \<Rightarrow> bool" where
  "sink_should_log ops s l \<longleftrightarrow> l \<ge> sk_level ops s"

text \<open>The loops over the sinks; an exception leaves the rest of them out.\<close>

fun sinks_log :: "'s sink \<Rightarrow> log_msg \<Rightarrow> 's list \<Rightarrow> exn option \<times> 's list" where
  "sinks_log ops m [] = (None, [])"
| "sinks_log ops m (s # ss) =
     (if sink_should_log ops s (lm_level m) then
        (case sk_log ops s m of
           (Some e, s') \<Rightarrow> (Some e, s' # ss)
         | (None, s') \<Rightarrow> (case sinks_log ops m ss of (ex, ss') \<Rightarrow> (ex, s' # ss')))
      else (case sinks_log ops m ss of (ex, ss') \<Rightarrow> (ex, s # ss')))"

fun sinks_flush :: "'s sink \<Rightarrow> 's list \<Rightarrow> exn option \<times> 's list" where
  "sinks_flush ops [] = (None, [])"
| "sinks_flush ops (s # ss) =
     (case sk_flush ops s of
        (Some e, s') \<Rightarrow> (Some e, s' # ss)
      | (None, s') \<Rightarrow> (case sinks_flush ops ss of (ex, ss') \<Rightarrow> (ex, s' # ss')))"

section \<open>The helper\<close>

record ('q, 's) async_log_helper =
  al_formatter :: "log_msg \<Rightarrow> exn + log_msg"
  al_sinks :: "'s list"
  al_q :: 'q
  al_errors :: "string list"
  al_flush_requested :: bool
  al_terminate_requested :: bool
  al_overflow_policy :: async_overflow_policy
  al_flush_interval_ms :: int
  al_last_pop :: int
  al_last_flush :: int
  al_active :: bool

definition async_log_helper_new ::
    "(log_msg \<Rightarrow> exn + log_msg) \<Rightarrow> 's list \<Rightarrow> 'q \<Rightarrow> async_overflow_policy \<Rightarrow> int \<Rightarrow> int \<Rightarrow> ('q, 's) async_log_helper" where
  "async_log_helper_new formatter sinks q overflow_policy flush_interval_ms now =
     \<lparr>al_formatter = formatter, al_sinks = sinks, al_q = q, al_errors = [], al_flush_requested = False,
      al_terminate_requested = False, al_overflow_policy = overflow_policy,
      al_flush_interval_ms = flush_interval_ms, al_last_pop = now, al_last_flush = now, al_active = True\<rparr>"

text \<open>
  \<open>push_msg\<close>: with \<open>discard_log_msg\<close> a message that finds the queue full is dropped; otherwise
  the thread tries again until there is room, and \<open>None\<close> means that it has to go on trying.
  The flag tells whether the message was queued.
\<close>

definition push_msg ::
    "('q \<Rightarrow> async_msg \<Rightarrow> (bool \<times> 'q) option) \<Rightarrow> async_msg \<Rightarrow> ('q, 's) async_log_helper \<Rightarrow> (bool \<times> ('q, 's) async_log_helper) option" where
  "push_msg enq m h = (case enq (al_q h) m of
       None \<Rightarrow> None
     | Some (True, q) \<Rightarrow> Some (True, h\<lparr>al_q := q\<rparr>)
     | Some (False, q) \<Rightarrow>
         if al_overflow_policy h \<noteq> discard_log_msg then None else Some (False, h\<lparr>al_q := q\<rparr>))"

definition helper_log ::
    "('q \<Rightarrow> async_msg \<Rightarrow> (bool \<times> 'q) option) \<Rightarrow> log_msg \<Rightarrow> ('q, 's) async_log_helper \<Rightarrow> (bool \<times> ('q, 's) async_log_helper) option" where
  "helper_log enq m h = push_msg enq (async_msg_of m) h"

text \<open>\<open>flush\<close> without and \<open>wait_empty_q\<close> as the condition under which a waiting call returns.\<close>

definition helper_flush ::
    "('q \<Rightarrow> async_msg \<Rightarrow> (bool \<times> 'q) option) \<Rightarrow> ('q, 's) async_log_helper \<Rightarrow> (bool \<times> ('q, 's) async_log_helper) option" where
  "helper_flush enq h = push_msg enq (async_msg_of_type Type_flush) h"

definition wait_empty_q_returns :: "('q \<Rightarrow> size_t) \<Rightarrow> ('q, 's) async_log_helper \<Rightarrow> bool" where
  "wait_empty_q_returns size_of h \<longleftrightarrow> \<not> size_of (al_q h) > 0"

text \<open>The destructor asks the worker to stop, then joins it.\<close>

definition helper_terminate ::
    "('q \<Rightarrow> async_msg \<Rightarrow> (bool \<times> 'q) option) \<Rightarrow> ('q, 's) async_log_helper \<Rightarrow> (bool \<times> ('q, 's) async_log_helper) option" where
  "helper_terminate enq h = push_msg enq (async_msg_of_type Type_terminate) h"

definition helper_set_formatter :: "(log_msg \<Rightarrow> exn + log_msg) \<Rightarrow> ('q, 's) async_log_helper \<Rightarrow> ('q, 's) async_log_helper" where
  "helper_set_formatter f h = h\<lparr>al_formatter := f\<rparr>"

section \<open>The worker\<close>

definition handle_flush_interval ::
    "'s sink \<Rightarrow> int \<Rightarrow> ('q, 's) async_log_helper \<Rightarrow> exn option \<times> ('q, 's) async_log_helper" where
  "handle_flush_interval ops now h =
     (if al_flush_requested h \<or> (al_flush_interval_ms h \<noteq> 0 \<and> now - al_last_flush h \<ge> al_flush_interval_ms h)
      then (case sinks_flush ops (al_sinks h) of
              (Some e, ss) \<Rightarrow> (Some e, h\<lparr>al_sinks := ss\<rparr>)
            | (None, ss) \<Rightarrow> (None, h\<lparr>al_sinks := ss, al_last_flush := now, al_flush_requested := False\<rparr>))
      else (None, h))"

text \<open>
  \<open>process_next_msg\<close> at time \<open>now\<close>, in milliseconds: the result is the exception it throws or
  whether the worker stays active. \<open>sleep_or_yield\<close> has no effect on the state.
\<close>

definition process_next_msg ::
    "('q \<Rightarrow> (async_msg option \<times> 'q) option) \<Rightarrow> 's sink \<Rightarrow> int \<Rightarrow> ('q, 's) async_log_helper \<Rightarrow> (('q, 's) async_log_helper, bool) call" where
  "process_next_msg deq ops now h = (case deq (al_q h) of
       None \<Rightarrow> None
     | Some (Some m, q) \<Rightarrow>
         (let h1 = h\<lparr>al_q := q, al_last_pop := now\<rparr> in
          case am_msg_type m of
            Type_flush \<Rightarrow> Some (Inr True, h1\<lparr>al_flush_requested := True\<rparr>)
          | Type_terminate \<Rightarrow> Some (Inr True, h1\<lparr>al_flush_requested := True, al_terminate_requested := True\<rparr>)
          | Type_log \<Rightarrow>
              (case al_formatter h1 (fill_log_msg m) of
                 Inl e \<Rightarrow> Some (Inl e, h1)
               | Inr fm \<Rightarrow>
                   (case sinks_log ops fm (al_sinks h1) of
                      (Some e, ss) \<Rightarrow> Some (Inl e, h1\<lparr>al_sinks := ss\<rparr>)
                    | (None, ss) \<Rightarrow> Some (Inr True, h1\<lparr>al_sinks := ss\<rparr>))))
     | Some (None, q) \<Rightarrow>
         (case handle_flush_interval ops now (h\<lparr>al_q := q\<rparr>) of
            (Some e, h1) \<Rightarrow> Some (Inl e, h1)
          | (None, h1) \<Rightarrow> Some (Inr (\<not> al_terminate_requested h1), h1)))"

text \<open>One turn of \<open>worker_loop\<close>, which reports exceptions and goes on.\<close>

definition worker_step ::
    "('q \<Rightarrow> (async_msg option \<times> 'q) option) \<Rightarrow> 's sink \<Rightarrow> int \<Rightarrow> ('q, 's) async_log_helper \<Rightarrow> ('q, 's) async_log_helper option" where
  "worker_step deq ops now h = (case process_next_msg deq ops now h of
       None \<Rightarrow> None
     | Some (Inl e, h1) \<Rightarrow> Some (h1\<lparr>al_errors := al_errors h1 @ [what e]\<rparr>)
     | Some (Inr active, h1) \<Rightarrow> Some (h1\<lparr>al_active := active\<rparr>))"

section \<open>Standard output\<close>

text \<open>The state of \<open>stdout_sink\<close> and \<open>stderr_sink\<close>: the level, what was written, how much of it was flushed.\<close>

record std_sink =
  ss_level :: level_enum
  ss_written :: "string list"
  ss_flushed :: nat

definition std_flush :: "std_sink \<Rightarrow> exn option \<times> std_sink" where
  "std_flush s = (None, s\<lparr>ss_flushed := length (ss_written s)\<rparr>)"

definition std_sink_it :: "std_sink \<Rightarrow> log_msg \<Rightarrow> exn option \<times> std_sink" where
  "std_sink_it s m = std_flush (s\<lparr>ss_written := ss_written s @ [lm_formatted m]\<rparr>)"

definition std_sink_ops :: "std_sink sink" where
  "std_sink_ops = \<lparr>sk_level = ss_level, sk_log = std_sink_it, sk_flush = std_flush\<rparr>"

definition std_sink_new :: std_sink where
  "std_sink_new = \<lparr>ss_level = trace, ss_written = [], ss_flushed = 0\<rparr>"

end
