(* ===== verification/Pattern_Formatter.thy ===== *)
theory Pattern_Formatter
  imports Fmt_Format Async_Log "HOL-Library.Signed_Division"
begin

text \<open>
  \<open>pattern_formatter\<close>: a pattern is compiled into a list of flag formatters, each of which
  appends its part to the formatted text of a message; an end of line follows. C's \<open>localtime\<close>,
  the process id and the contents of fresh memory come from an environment. Times are
  nanoseconds since the epoch; \<open>sdiv\<close> and \<open>smod\<close> are C's \<open>/\<close> and \<open>%\<close>.
\<close>

section \<open>Environment\<close>

record tm =
  tm_sec :: int
  tm_min :: int
  tm_hour :: int
  tm_mday :: int
  tm_mon :: int
  tm_year :: int
  tm_wday :: int
  tm_gmtoff :: int

record format_env =
  fe_memory :: buffer_env
  fe_thousands_sep :: string
  fe_localtime :: "int \<Rightarrow> tm"
  fe_pid :: int

definition to_time_t :: "int \<Rightarrow> int" where
  "to_time_t time = time sdiv 1000000000"

definition utc_minutes_offset :: "tm \<Rightarrow> int" where
  "utc_minutes_offset t = tm_gmtoff t sdiv 60"

section \<open>Writing\<close>

type_synonym writer = "(exn + string) option"

text \<open>Chains of \<open><<\<close>: what follows is skipped after an exception or undefined behaviour.\<close>

fun and_then :: "writer \<Rightarrow> (string \<Rightarrow> writer) \<Rightarrow> writer" where
  "and_then None f = None"
| "and_then (Some (Inl e)) f = Some (Inl e)"
| "and_then (Some (Inr b)) f = f b"

definition put_str :: "string \<Rightarrow> string \<Rightarrow> writer" where
  "put_str s b = Some (Inr (b @ s))"

definition put_int :: "format_env \<Rightarrow> int_type \<Rightarrow> int \<Rightarrow> string \<Rightarrow> writer" where
  "put_int env t v b = write_value (fe_memory env) (fe_thousands_sep env) t v b"

definition put_pad :: "format_env \<Rightarrow> int_type \<Rightarrow> int \<Rightarrow> nat \<Rightarrow> string \<Rightarrow> writer" where
  "put_pad env t v width b = write_pad (fe_memory env) (fe_thousands_sep env) t v width (CHR ''0'') b"

text \<open>Indexing a \<open>std::array\<close> out of its range is undefined.\<close>

definition put_nth :: "string list \<Rightarrow> int \<Rightarrow> string \<Rightarrow> writer" where
  "put_nth names i b = (if 0 \<le> i \<and> nat i < length names then put_str (names ! nat i) b else None)"

section \<open>Date and time\<close>

definition ampm :: "tm \<Rightarrow> string" where
  "ampm t = (if tm_hour t \<ge> 12 then ''PM'' else ''AM'')"

definition to12h :: "tm \<Rightarrow> int" where
  "to12h t = (if tm_hour t > 12 then tm_hour t - 12 else tm_hour t)"

definition days :: "string list" where
  "days = [''Sun'', ''Mon'', ''Tue'', ''Wed'', ''Thu'', ''Fri'', ''Sat'']"

definition full_days :: "string list" where
  "full_days = [''Sunday'', ''Monday'', ''Tuesday'', ''Wednesday'', ''Thursday'', ''Friday'', ''Saturday'']"

definition months :: "string list" where
  "months = [''Jan'', ''Feb'', ''Mar'', ''Apr'', ''May'', ''June'', ''July'', ''Aug'', ''Sept'', ''Oct'', ''Nov'', ''Dec'']"

definition full_months :: "string list" where
  "full_months = [''January'', ''February'', ''March'', ''April'', ''May'', ''June'', ''July'', ''August'',
     ''September'', ''October'', ''November'', ''December'']"

definition pad_n_join2 :: "format_env \<Rightarrow> int \<Rightarrow> int \<Rightarrow> char \<Rightarrow> string \<Rightarrow> writer" where
  "pad_n_join2 env v1 v2 sep b =
     and_then (put_pad env Int_t v1 2 b) (\<lambda>b. and_then (put_str [sep] b) (put_pad env Int_t v2 2))"

definition pad_n_join3 :: "format_env \<Rightarrow> int \<Rightarrow> int \<Rightarrow> int \<Rightarrow> char \<Rightarrow> string \<Rightarrow> writer" where
  "pad_n_join3 env v1 v2 v3 sep b =
     and_then (put_pad env Int_t v1 2 b) (\<lambda>b. and_then (put_str [sep] b) (\<lambda>b. and_then (put_pad env Int_t v2 2 b)
       (\<lambda>b. and_then (put_str [sep] b) (put_pad env Int_t v3 2))))"

section \<open>Flag formatters\<close>

type_synonym flag_format = "format_env \<Rightarrow> log_msg \<Rightarrow> tm \<Rightarrow> string \<Rightarrow> writer"

definition name_formatter :: flag_format where
  "name_formatter env m t b = put_str (lm_logger_name m) b"

definition level_formatter :: flag_format where
  "level_formatter env m t b = put_str (to_str (lm_level m)) b"

definition short_level_formatter :: flag_format where
  "short_level_formatter env m t b = put_str (to_short_str (lm_level m)) b"

definition a_formatter :: flag_format where
  "a_formatter env m t b = put_nth days (tm_wday t) b"

definition A_formatter :: flag_format where
  "A_formatter env m t b = put_nth full_days (tm_wday t) b"

definition b_formatter :: flag_format where
  "b_formatter env m t b = put_nth months (tm_mon t) b"

definition B_formatter :: flag_format where
  "B_formatter env m t b = put_nth full_months (tm_mon t) b"

definition c_formatter :: flag_format where
  "c_formatter env m t b =
     and_then (put_nth days (tm_wday t) b) (\<lambda>b. and_then (put_str '' '' b) (\<lambda>b. and_then (put_nth months (tm_mon t) b)
     (\<lambda>b. and_then (put_str '' '' b) (\<lambda>b. and_then (put_int env Int_t (tm_mday t) b) (\<lambda>b. and_then (put_str '' '' b)
     (\<lambda>b. and_then (pad_n_join3 env (tm_hour t) (tm_min t) (tm_sec t) (CHR '':'') b)
     (\<lambda>b. and_then (put_str '' '' b) (put_int env Int_t (tm_year t + 1900)))))))))"

definition C_formatter :: flag_format where
  "C_formatter env m t b = put_pad env Int_t (tm_year t smod 100) 2 b"

definition D_formatter :: flag_format where
  "D_formatter env m t b = pad_n_join3 env (tm_mon t + 1) (tm_mday t) (tm_year t smod 100) (CHR ''/'') b"

definition Y_formatter :: flag_format where
  "Y_formatter env m t b = put_int env Int_t (tm_year t + 1900) b"

definition m_formatter :: flag_format where
  "m_formatter env m t b = put_pad env Int_t (tm_mon t + 1) 2 b"

definition d_formatter :: flag_format where
  "d_formatter env m t b = put_pad env Int_t (tm_mday t) 2 b"

definition H_formatter :: flag_format where
  "H_formatter env m t b = put_pad env Int_t (tm_hour t) 2 b"

definition I_formatter :: flag_format where
  "I_formatter env m t b = put_pad env Int_t (to12h t) 2 b"

definition M_formatter :: flag_format where
  "M_formatter env m t b = put_pad env Int_t (tm_min t) 2 b"

definition S_formatter :: flag_format where
  "S_formatter env m t b = put_pad env Int_t (tm_sec t) 2 b"

definition e_formatter :: flag_format where
  "e_formatter env m t b = put_pad env Int_t (lm_time m sdiv 1000000 smod 1000) 3 b"

definition f_formatter :: flag_format where
  "f_formatter env m t b = put_pad env Int_t (lm_time m sdiv 1000 smod 1000000) 6 b"

definition F_formatter :: flag_format where
  "F_formatter env m t b = put_pad env Int_t (lm_time m smod 1000000000) 9 b"

definition p_formatter :: flag_format where
  "p_formatter env m t b = put_str (ampm t) b"

definition r_formatter :: flag_format where
  "r_formatter env m t b =
     and_then (pad_n_join3 env (to12h t) (tm_min t) (tm_sec t) (CHR '':'') b) (\<lambda>b. and_then (put_str '' '' b) (put_str (ampm t)))"

definition R_formatter :: flag_format where
  "R_formatter env m t b = pad_n_join2 env (tm_hour t) (tm_min t) (CHR '':'') b"

definition T_formatter :: flag_format where
  "T_formatter env m t b = pad_n_join3 env (tm_hour t) (tm_min t) (tm_sec t) (CHR '':'') b"

definition z_formatter :: flag_format where
  "z_formatter env m t b = (
     let total_minutes = utc_minutes_offset t; is_negative = total_minutes < 0;
         sign = (if is_negative then ''-'' else ''+'');
         total_minutes = (if is_negative then - total_minutes else total_minutes) in
     and_then (put_str sign b) (pad_n_join2 env (total_minutes sdiv 60) (total_minutes smod 60) (CHR '':'')))"

definition t_formatter :: flag_format where
  "t_formatter env m t b = put_int env ULongLong_t (uint (lm_thread_id m)) b"

definition pid_formatter :: flag_format where
  "pid_formatter env m t b = put_int env Int_t (fe_pid env) b"

definition v_formatter :: flag_format where
  "v_formatter env m t b = put_str (lm_raw m) b"

definition to_unsigned :: "int \<Rightarrow> int" where
  "to_unsigned v = v mod 2 ^ 32"

definition full_formatter :: flag_format where
  "full_formatter env m t b = (
     let millis = lm_time m sdiv 1000000 smod 1000; num = (\<lambda>v width. put_pad env UInt_t (to_unsigned v) width) in
     and_then (put_str ''['' b) (\<lambda>b. and_then (put_int env UInt_t (to_unsigned (tm_year t + 1900)) b) (\<lambda>b. and_then (put_str ''-'' b)
     (\<lambda>b. and_then (num (tm_mon t + 1) 2 b) (\<lambda>b. and_then (put_str ''-'' b)
     (\<lambda>b. and_then (num (tm_mday t) 2 b) (\<lambda>b. and_then (put_str '' '' b)
     (\<lambda>b. and_then (num (tm_hour t) 2 b) (\<lambda>b. and_then (put_str '':'' b)
     (\<lambda>b. and_then (num (tm_min t) 2 b) (\<lambda>b. and_then (put_str '':'' b)
     (\<lambda>b. and_then (num (tm_sec t) 2 b) (\<lambda>b. and_then (put_str ''.'' b)
     (\<lambda>b. and_then (num millis 3 b) (\<lambda>b. and_then (put_str ''] '' b)
     (\<lambda>b. and_then (put_str ''['' b) (\<lambda>b. and_then (put_str (lm_logger_name m) b) (\<lambda>b. and_then (put_str ''] '' b)
     (\<lambda>b. and_then (put_str ''['' b) (\<lambda>b. and_then (put_str (to_str (lm_level m)) b) (\<lambda>b. and_then (put_str ''] '' b)
       (put_str (lm_raw m)))))))))))))))))))))))"

section \<open>Patterns\<close>

text \<open>The formatter objects; \<open>Ch\<close> and \<open>Aggregate\<close> carry the text they write.\<close>

datatype flag_formatter = Flag char | Ch char | Aggregate string

definition flag_formats :: "(char \<times> flag_format) list" where
  "flag_formats =
     [(CHR ''n'', name_formatter), (CHR ''l'', level_formatter), (CHR ''L'', short_level_formatter), (CHR ''t'', t_formatter),
      (CHR ''v'', v_formatter), (CHR ''a'', a_formatter), (CHR ''A'', A_formatter), (CHR ''b'', b_formatter), (CHR ''h'', b_formatter),
      (CHR ''B'', B_formatter), (CHR ''c'', c_formatter), (CHR ''C'', C_formatter), (CHR ''Y'', Y_formatter), (CHR ''D'', D_formatter),
      (CHR ''x'', D_formatter), (CHR ''m'', m_formatter), (CHR ''d'', d_formatter), (CHR ''H'', H_formatter), (CHR ''I'', I_formatter),
      (CHR ''M'', M_formatter), (CHR ''S'', S_formatter), (CHR ''e'', e_formatter), (CHR ''f'', f_formatter), (CHR ''F'', F_formatter),
      (CHR ''p'', p_formatter), (CHR ''r'', r_formatter), (CHR ''R'', R_formatter), (CHR ''T'', T_formatter), (CHR ''X'', T_formatter),
      (CHR ''z'', z_formatter), (CHR ''+'', full_formatter), (CHR ''P'', pid_formatter)]"

definition handle_flag :: "char \<Rightarrow> flag_formatter list \<Rightarrow> flag_formatter list" where
  "handle_flag flag fs =
     (if map_of flag_formats flag \<noteq> None then fs @ [Flag flag] else fs @ [Ch (CHR ''%''), Ch flag])"

text \<open>The loop of \<open>compile_pattern\<close> with the user characters collected so far.\<close>

fun push_user_chars :: "string option \<Rightarrow> flag_formatter list \<Rightarrow> flag_formatter list" where
  "push_user_chars None fs = fs"
| "push_user_chars (Some s) fs = fs @ [Aggregate s]"

fun compile_pattern_loop :: "string \<Rightarrow> string option \<Rightarrow> flag_formatter list \<Rightarrow> flag_formatter list" where
  "compile_pattern_loop [] user_chars fs = push_user_chars user_chars fs"
| "compile_pattern_loop (c # s) user_chars fs =
     (if c = CHR ''%'' then
        (let fs = push_user_chars user_chars fs in
         case s of
           [] \<Rightarrow> fs
         | flag # s \<Rightarrow> compile_pattern_loop s None (handle_flag flag fs))
      else compile_pattern_loop s (Some ((case user_chars of None \<Rightarrow> [] | Some u \<Rightarrow> u) @ [c])) fs)"

definition compile_pattern :: "string \<Rightarrow> flag_formatter list" where
  "compile_pattern pattern = compile_pattern_loop pattern None []"

fun flag_format :: "flag_formatter \<Rightarrow> flag_format" where
  "flag_format (Flag c) env m t b = (case map_of flag_formats c of Some f \<Rightarrow> f env m t b | None \<Rightarrow> None)"
| "flag_format (Ch c) env m t b = put_str [c] b"
| "flag_format (Aggregate s) env m t b = put_str s b"

fun format_flags :: "flag_formatter list \<Rightarrow> flag_format" where
  "format_flags [] env m t b = Some (Inr b)"
| "format_flags (f # fs) env m t b = and_then (flag_format f env m t b) (format_flags fs env m t)"

text \<open>
  \<open>format\<close>: the end of line is passed to the formatting \<open>write\<close>, which takes it as a format
  string and the size as an argument.
\<close>

definition eol :: string where "eol = [CHR 0x0A]"
definition eol_size :: int where "eol_size = 1"

definition pattern_format :: "format_env \<Rightarrow> flag_formatter list \<Rightarrow> log_msg \<Rightarrow> (exn + log_msg) option" where
  "pattern_format env fs m = (
     let tm_time = fe_localtime env (to_time_t (lm_time m)) in
     map_option (map_sum id (\<lambda>b. m\<lparr>lm_formatted := b\<rparr>))
       (and_then (format_flags fs env m tm_time (lm_formatted m))
         (format (fe_memory env) (fe_thousands_sep env) (\<lambda>d spec b. None) eol [Arg_INT eol_size :: unit Arg])))"

section \<open>What patterns mean\<close>

text \<open>A broken-down time as \<open>localtime\<close> gives it for times after the epoch.\<close>

definition valid_tm :: "tm \<Rightarrow> bool" where
  "valid_tm t \<longleftrightarrow> 0 \<le> tm_sec t \<and> tm_sec t \<le> 60 \<and> 0 \<le> tm_min t \<and> tm_min t < 60 \<and> 0 \<le> tm_hour t \<and> tm_hour t < 24 \<and>
     1 \<le> tm_mday t \<and> tm_mday t \<le> 31 \<and> 0 \<le> tm_mon t \<and> tm_mon t < 12 \<and> 0 \<le> tm_year t \<and> tm_year t < 10000 \<and>
     0 \<le> tm_wday t \<and> tm_wday t < 7 \<and> \<bar>tm_gmtoff t\<bar> \<le> 86400"

definition valid_env :: "format_env \<Rightarrow> bool" where
  "valid_env env \<longleftrightarrow> (\<forall>s \<ge> 0. valid_tm (fe_localtime env s)) \<and> int_in_range Int_t (fe_pid env)"

definition digits_text :: "nat \<Rightarrow> int \<Rightarrow> string" where
  "digits_text width v = pad_text v width (CHR ''0'')"

abbreviation "two \<equiv> digits_text 2"

definition flag_texts :: "format_env \<Rightarrow> log_msg \<Rightarrow> tm \<Rightarrow> (char \<times> string) list" where
  "flag_texts env m t =
     [(CHR ''n'', lm_logger_name m), (CHR ''l'', to_str (lm_level m)), (CHR ''L'', to_short_str (lm_level m)),
      (CHR ''t'', show_int (uint (lm_thread_id m))), (CHR ''v'', lm_raw m),
      (CHR ''a'', days ! nat (tm_wday t)), (CHR ''A'', full_days ! nat (tm_wday t)),
      (CHR ''b'', months ! nat (tm_mon t)), (CHR ''h'', months ! nat (tm_mon t)), (CHR ''B'', full_months ! nat (tm_mon t)),
      (CHR ''c'', days ! nat (tm_wday t) @ '' '' @ months ! nat (tm_mon t) @ '' '' @ show_int (tm_mday t) @ '' '' @
         two (tm_hour t) @ '':'' @ two (tm_min t) @ '':'' @ two (tm_sec t) @ '' '' @ show_int (tm_year t + 1900)),
      (CHR ''C'', two (tm_year t mod 100)), (CHR ''Y'', show_int (tm_year t + 1900)),
      (CHR ''D'', two (tm_mon t + 1) @ ''/'' @ two (tm_mday t) @ ''/'' @ two (tm_year t mod 100)),
      (CHR ''x'', two (tm_mon t + 1) @ ''/'' @ two (tm_mday t) @ ''/'' @ two (tm_year t mod 100)),
      (CHR ''m'', two (tm_mon t + 1)), (CHR ''d'', two (tm_mday t)), (CHR ''H'', two (tm_hour t)), (CHR ''I'', two (to12h t)),
      (CHR ''M'', two (tm_min t)), (CHR ''S'', two (tm_sec t)),
      (CHR ''e'', digits_text 3 (lm_time m div 1000000 mod 1000)), (CHR ''f'', digits_text 6 (lm_time m div 1000 mod 1000000)),
      (CHR ''F'', digits_text 9 (lm_time m mod 1000000000)),
      (CHR ''p'', ampm t), (CHR ''r'', two (to12h t) @ '':'' @ two (tm_min t) @ '':'' @ two (tm_sec t) @ '' '' @ ampm t),
      (CHR ''R'', two (tm_hour t) @ '':'' @ two (tm_min t)),
      (CHR ''T'', two (tm_hour t) @ '':'' @ two (tm_min t) @ '':'' @ two (tm_sec t)),
      (CHR ''X'', two (tm_hour t) @ '':'' @ two (tm_min t) @ '':'' @ two (tm_sec t)),
      (CHR ''z'', (if utc_minutes_offset t < 0 then ''-'' else ''+'') @
         two (\<bar>utc_minutes_offset t\<bar> div 60) @ '':'' @ two (\<bar>utc_minutes_offset t\<bar> mod 60)),
      (CHR ''+'', ''['' @ show_int (tm_year t + 1900) @ ''-'' @ two (tm_mon t + 1) @ ''-'' @ two (tm_mday t) @ '' '' @
         two (tm_hour t) @ '':'' @ two (tm_min t) @ '':'' @ two (tm_sec t) @ ''.'' @ digits_text 3 (lm_time m div 1000000 mod 1000) @
         ''] ['' @ lm_logger_name m @ ''] ['' @ to_str (lm_level m) @ ''] '' @ lm_raw m),
      (CHR ''P'', show_int (fe_pid env))]"

definition flag_text :: "format_env \<Rightarrow> log_msg \<Rightarrow> tm \<Rightarrow> char \<Rightarrow> string option" where
  "flag_text env m t c = map_of (flag_texts env m t) c"

fun pattern_text :: "format_env \<Rightarrow> log_msg \<Rightarrow> tm \<Rightarrow> string \<Rightarrow> string" where
  "pattern_text env m t [] = []"
| "pattern_text env m t (c # s) =
     (if c \<noteq> CHR ''%'' then c # pattern_text env m t s
      else case s of
        [] \<Rightarrow> []
      | flag # s \<Rightarrow> (case flag_text env m t flag of None \<Rightarrow> [CHR ''%'', flag] | Some x \<Rightarrow> x) @ pattern_text env m t s)"

lemma put_int_eq: "int_in_range t v \<Longrightarrow> put_int env t v b = Some (Inr (b @ show_int v))"
  by (simp add: put_int_def write_value_eq del: int_in_range.simps)

lemma put_pad_eq: "int_in_range t v \<Longrightarrow> put_pad env t v width b = Some (Inr (b @ digits_text width v))"
  by (simp add: put_pad_def write_pad_eq digits_text_def del: int_in_range.simps)

lemma put_nth_eq: "0 \<le> i \<Longrightarrow> nat i < length names \<Longrightarrow> put_nth names i b = Some (Inr (b @ names ! nat i))"
  by (simp add: put_nth_def put_str_def)

lemma pad_n_join_eq:
  "int_in_range Int_t v1 \<Longrightarrow> int_in_range Int_t v2 \<Longrightarrow> pad_n_join2 env v1 v2 c b = Some (Inr (b @ two v1 @ [c] @ two v2))"
  "int_in_range Int_t v1 \<Longrightarrow> int_in_range Int_t v2 \<Longrightarrow> int_in_range Int_t v3 \<Longrightarrow>
   pad_n_join3 env v1 v2 v3 c b = Some (Inr (b @ two v1 @ [c] @ two v2 @ [c] @ two v3))"
  by (simp_all add: pad_n_join2_def pad_n_join3_def put_pad_eq put_str_def del: int_in_range.simps)

lemma signed_nonneg: "0 \<le> x \<Longrightarrow> 0 < k \<Longrightarrow> x sdiv k = x div k" "0 \<le> x \<Longrightarrow> 0 < k \<Longrightarrow> x smod k = x mod k" for x k :: int
  by (simp_all add: signed_divide_int_def signed_modulo_int_def sgn_if minus_mult_div_eq_mod)

text \<open>What the formatters rely on.\<close>

definition formattable :: "format_env \<Rightarrow> log_msg \<Rightarrow> tm \<Rightarrow> bool" where
  "formattable env m t \<longleftrightarrow> valid_tm t \<and> 0 \<le> lm_time m \<and> int_in_range Int_t (fe_pid env)"

lemma mod_in_range: "0 < k \<Longrightarrow> k \<le> 2 ^ 31 \<Longrightarrow> int_in_range Int_t (x mod k)"
  using pos_mod_sign [of k x] pos_mod_bound [of k x] by (auto simp del: pos_mod_sign pos_mod_bound)

lemma formattable_ranges:
  assumes "formattable env m t"
  shows "int_in_range Int_t (tm_sec t)" "int_in_range Int_t (tm_min t)" "int_in_range Int_t (tm_hour t)" "int_in_range Int_t (tm_mday t)"
    "int_in_range Int_t (tm_mon t + 1)" "int_in_range Int_t (tm_year t + 1900)" "int_in_range Int_t (to12h t)" "int_in_range Int_t (fe_pid env)"
    "int_in_range Int_t (tm_year t mod 100)" "int_in_range Int_t (lm_time m div 1000000 mod 1000)"
    "int_in_range Int_t (lm_time m div 1000 mod 1000000)" "int_in_range Int_t (lm_time m mod 1000000000)"
    "int_in_range Int_t (\<bar>utc_minutes_offset t\<bar> div 60)" "int_in_range Int_t (\<bar>utc_minutes_offset t\<bar> mod 60)"
proof -
  have d: "tm_gmtoff t sdiv 60 = (if tm_gmtoff t < 0 then - (- tm_gmtoff t div 60) else tm_gmtoff t div 60)"
    by (simp add: signed_divide_int_def sgn_if)
  have "\<bar>utc_minutes_offset t\<bar> \<le> 1440" using assms by (auto simp: formattable_def valid_tm_def utc_minutes_offset_def d)
  then have "0 \<le> \<bar>utc_minutes_offset t\<bar> div 60" "\<bar>utc_minutes_offset t\<bar> div 60 \<le> 24" by linarith+
  then show "int_in_range Int_t (\<bar>utc_minutes_offset t\<bar> div 60)" by simp
  show "int_in_range Int_t (\<bar>utc_minutes_offset t\<bar> mod 60)"
    by (rule mod_in_range) simp_all
  show "int_in_range Int_t (lm_time m div 1000000 mod 1000)" "int_in_range Int_t (tm_year t mod 100)"
    "int_in_range Int_t (lm_time m div 1000 mod 1000000)" "int_in_range Int_t (lm_time m mod 1000000000)"
    by (rule mod_in_range; simp)+
qed (use assms in \<open>simp_all add: formattable_def valid_tm_def to12h_def\<close>)

lemma formattable_unsigned:
  assumes "formattable env m t"
  shows "to_unsigned (tm_year t + 1900) = tm_year t + 1900" "to_unsigned (tm_mon t + 1) = tm_mon t + 1" "to_unsigned (tm_mday t) = tm_mday t"
    "to_unsigned (tm_hour t) = tm_hour t" "to_unsigned (tm_min t) = tm_min t" "to_unsigned (tm_sec t) = tm_sec t"
    "to_unsigned (lm_time m div 1000000 mod 1000) = lm_time m div 1000000 mod 1000"
    "int_in_range UInt_t (tm_year t + 1900)" "int_in_range UInt_t (tm_mon t + 1)" "int_in_range UInt_t (tm_mday t)"
    "int_in_range UInt_t (tm_hour t)" "int_in_range UInt_t (tm_min t)" "int_in_range UInt_t (tm_sec t)"
    "int_in_range UInt_t (lm_time m div 1000000 mod 1000)"
proof -
  have m: "0 \<le> lm_time m div 1000000 mod 1000" "lm_time m div 1000000 mod 1000 < 1000" by simp_all
  then show "int_in_range UInt_t (lm_time m div 1000000 mod 1000)" by simp
  show "to_unsigned (lm_time m div 1000000 mod 1000) = lm_time m div 1000000 mod 1000" unfolding to_unsigned_def
    using m by (intro mod_pos_pos_trivial) simp_all
qed (use assms in \<open>auto simp: formattable_def valid_tm_def to_unsigned_def intro!: mod_pos_pos_trivial\<close>)

lemma formattable_names:
  assumes "formattable env m t"
  shows "0 \<le> tm_wday t" "nat (tm_wday t) < length days" "nat (tm_wday t) < length full_days"
    "0 \<le> tm_mon t" "nat (tm_mon t) < length months" "nat (tm_mon t) < length full_months" "0 \<le> tm_year t" "0 \<le> lm_time m"
    "0 \<le> lm_time m div 1000000" "0 \<le> lm_time m div 1000"
  using assms by (auto simp: pos_imp_zdiv_nonneg_iff formattable_def valid_tm_def days_def full_days_def months_def full_months_def)

lemmas formatter_defs = name_formatter_def level_formatter_def short_level_formatter_def a_formatter_def A_formatter_def
  b_formatter_def B_formatter_def C_formatter_def D_formatter_def Y_formatter_def m_formatter_def d_formatter_def H_formatter_def
  I_formatter_def M_formatter_def S_formatter_def e_formatter_def f_formatter_def F_formatter_def p_formatter_def r_formatter_def
  R_formatter_def T_formatter_def t_formatter_def pid_formatter_def v_formatter_def put_str_def

lemma z_formatter_eq:
  assumes "formattable env m t"
  shows "z_formatter env m t b = Some (Inr (b @ (if utc_minutes_offset t < 0 then ''-'' else ''+'') @
      two (\<bar>utc_minutes_offset t\<bar> div 60) @ '':'' @ two (\<bar>utc_minutes_offset t\<bar> mod 60)))"
  using formattable_ranges(13,14) [OF assms]
  by (auto simp: z_formatter_def Let_def put_str_def pad_n_join_eq signed_nonneg simp del: int_in_range.simps)

lemma c_formatter_eq:
  assumes "formattable env m t"
  shows "c_formatter env m t b = Some (Inr (b @ days ! nat (tm_wday t) @ '' '' @ months ! nat (tm_mon t) @ '' '' @ show_int (tm_mday t) @ '' '' @
         two (tm_hour t) @ '':'' @ two (tm_min t) @ '':'' @ two (tm_sec t) @ '' '' @ show_int (tm_year t + 1900)))"
  using formattable_ranges [OF assms] formattable_names [OF assms]
  by (simp add: c_formatter_def put_str_def put_nth_eq put_int_eq pad_n_join_eq del: int_in_range.simps)

lemma full_formatter_eq:
  assumes "formattable env m t"
  shows "full_formatter env m t b = Some (Inr (b @ ''['' @ show_int (tm_year t + 1900) @ ''-'' @ two (tm_mon t + 1) @ ''-'' @ two (tm_mday t) @ '' '' @
         two (tm_hour t) @ '':'' @ two (tm_min t) @ '':'' @ two (tm_sec t) @ ''.'' @ digits_text 3 (lm_time m div 1000000 mod 1000) @
         ''] ['' @ lm_logger_name m @ ''] ['' @ to_str (lm_level m) @ ''] '' @ lm_raw m))"
  using formattable_unsigned [OF assms] formattable_names(8) [OF assms]
  by (simp add: full_formatter_def Let_def put_str_def put_int_eq put_pad_eq signed_nonneg del: int_in_range.simps)

lemma map_of_list_all2:
  "list_all2 (\<lambda>(c, f) (c', x). c = c' \<and> P f x) fs xs \<Longrightarrow>
   (case map_of fs c of None \<Rightarrow> map_of xs c = None | Some f \<Rightarrow> \<exists>x. map_of xs c = Some x \<and> P f x)"
  by (induction fs xs rule: list_all2_induct) (auto split: option.splits)

lemma flag_format_eq:
  assumes "formattable env m t"
  shows "case map_of flag_formats c of
      None \<Rightarrow> flag_text env m t c = None
    | Some f \<Rightarrow> \<exists>x. flag_text env m t c = Some x \<and> f env m t b = Some (Inr (b @ x))"
proof -
  have uint: "int_in_range ULongLong_t (uint (lm_thread_id m))" using uint_lt2p [of "lm_thread_id m"] by simp
  note eqs = formattable_ranges [OF assms] formattable_names [OF assms] z_formatter_eq [OF assms] c_formatter_eq [OF assms] full_formatter_eq [OF assms] uint
  have "list_all2 (\<lambda>(c, f) (c', x). c = c' \<and> f env m t b = Some (Inr (b @ x))) flag_formats (flag_texts env m t)"
    unfolding flag_formats_def flag_texts_def
    by (simp add: eqs formatter_defs put_nth_eq put_int_eq put_pad_eq pad_n_join_eq signed_nonneg del: int_in_range.simps)
  then show ?thesis unfolding flag_text_def by (rule map_of_list_all2)
qed

definition user_text :: "string option \<Rightarrow> string" where
  "user_text u = (case u of None \<Rightarrow> [] | Some s \<Rightarrow> s)"

lemma format_flags_append:
  "format_flags (fs @ fs') env m t b = and_then (format_flags fs env m t b) (format_flags fs' env m t)"
proof (induction fs arbitrary: b)
  case (Cons f fs)
  then show ?case
  proof (cases "flag_format f env m t b")
    case (Some r)
    then show ?thesis using Cons by (cases r) simp_all
  qed simp
qed simp

lemma format_push_user: 
  "format_flags fs env m t b = Some (Inr c) \<Longrightarrow> format_flags (push_user_chars u fs) env m t b = Some (Inr (c @ user_text u))"
  by (cases u) (simp_all add: user_text_def format_flags_append put_str_def)

lemma format_compiled:
  assumes "formattable env m t" "format_flags fs env m t b = Some (Inr c)"
  shows "format_flags (compile_pattern_loop s u fs) env m t b = Some (Inr (c @ user_text u @ pattern_text env m t s))"
  using assms(2)
proof (induction s u fs arbitrary: c rule: compile_pattern_loop.induct)
  case (1 u fs)
  then show ?case by (simp add: format_push_user)
next
  case (2 ch s u fs)
  show ?case
  proof (cases "ch = CHR ''%''")
    case False
    with "2.IH"(2) [OF False "2.prems"] show ?thesis by (simp add: user_text_def split: option.splits)
  next
    case True
    note pushed = format_push_user [OF "2.prems", of u]
    show ?thesis
    proof (cases s)
      case Nil
      with True pushed show ?thesis by simp
    next
      case (Cons flag s')
      let ?x = "case flag_text env m t flag of None \<Rightarrow> [CHR ''%'', flag] | Some x \<Rightarrow> x"
      have "format_flags (handle_flag flag (push_user_chars u fs)) env m t b = Some (Inr (c @ user_text u @ ?x))"
        using flag_format_eq [OF assms(1), of flag "c @ user_text u"] pushed
        by (auto simp: handle_flag_def format_flags_append put_str_def split: option.splits)
      from "2.IH"(1) [OF True refl Cons this] True Cons show ?thesis by (simp add: user_text_def)
    qed
  qed
qed

lemma eol_written: "format g sep (wd :: unit \<Rightarrow> FormatSpec \<Rightarrow> string \<Rightarrow> (exn + string) option) eol [Arg_INT eol_size] b = Some (Inr (b @ eol))"
  by (simp add: format_def eol_def format_loop_start [of g sep wd _ _ "eol"] del: format_loop.simps(2)) (simp)

lemma pattern_format_eq:
  assumes "formattable env m (fe_localtime env (to_time_t (lm_time m)))"
  shows "pattern_format env (compile_pattern pattern) m =
    Some (Inr (m\<lparr>lm_formatted := lm_formatted m @ pattern_text env m (fe_localtime env (to_time_t (lm_time m))) pattern @ eol\<rparr>))"
  using format_compiled [OF assms, of "[]" "lm_formatted m" "lm_formatted m" pattern None]
  by (simp add: pattern_format_def Let_def compile_pattern_def user_text_def eol_written)

lemma pattern_format_valid:
  assumes "valid_env env" and "0 \<le> lm_time m"
  shows "pattern_format env (compile_pattern pattern) m =
    Some (Inr (m\<lparr>lm_formatted := lm_formatted m @ pattern_text env m (fe_localtime env (to_time_t (lm_time m))) pattern @ eol\<rparr>))"
proof (rule pattern_format_eq)
  show "formattable env m (fe_localtime env (to_time_t (lm_time m)))"
    using assms by (simp add: formattable_def valid_env_def to_time_t_def signed_nonneg pos_imp_zdiv_nonneg_iff del: int_in_range.simps)
qed


text \<open>
  An environment in a time zone two hours east of Greenwich, and a message logged there half a
  second after midnight.
\<close>

definition sample_env :: format_env where
  "sample_env = \<lparr>fe_memory = \<lparr>be_fresh = (\<lambda>_. CHR ''?''), be_moves = (\<lambda>_ _. True)\<rparr>, fe_thousands_sep = '','',
     fe_localtime = (\<lambda>_. \<lparr>tm_sec = 0, tm_min = 7, tm_hour = 0, tm_mday = 1, tm_mon = 5, tm_year = 117, tm_wday = 4, tm_gmtoff = 7200\<rparr>),
     fe_pid = 42\<rparr>"

definition sample_msg :: log_msg where
  "sample_msg = \<lparr>lm_logger_name = ''tcp'', lm_level = warn, lm_time = 1496275620005000000, lm_thread_id = 7, lm_raw = ''hello'', lm_formatted = []\<rparr>"

lemma sample_env_valid: "valid_env sample_env"
  by (simp add: valid_env_def sample_env_def valid_tm_def)


text \<open>
  (C31) The hand-written formatter of \<open>%+\<close> is the pattern its comment gives: for every message
  both produce the same result.
\<close>

theorem full_formatter_pattern:
  assumes "valid_env env" and "0 \<le> lm_time m"
  shows "pattern_format env (compile_pattern ''%+'') m =
    pattern_format env (compile_pattern ''[%Y-%m-%d %H:%M:%S.%e] [%n] [%l] %v'') m"
proof -
  have f: "formattable env m (fe_localtime env (to_time_t (lm_time m)))"
    using assms by (simp add: formattable_def valid_env_def to_time_t_def signed_nonneg pos_imp_zdiv_nonneg_iff del: int_in_range.simps)
  show ?thesis unfolding pattern_format_eq [OF f] by (simp add: flag_text_def flag_texts_def)
qed

theorem full_formatter_pattern_witness:
  "pattern_format sample_env (compile_pattern ''%+'') sample_msg =
    pattern_format sample_env (compile_pattern ''[%Y-%m-%d %H:%M:%S.%e] [%n] [%l] %v'') sample_msg"
  using full_formatter_pattern [of sample_env sample_msg] sample_env_valid by (simp add: sample_msg_def)

text \<open>The comment on \<open>%I\<close> promises hours from 1 to 12; at midnight it writes 00.\<close>

lemma midnight_is_zero: "tm_hour t = 0 \<Longrightarrow> to12h t = 0"
  by (simp add: to12h_def)

end
