(* ===== verification/Async_Log_Props.thy ===== *)
theory Async_Log_Props
  imports Async_Log
begin

text \<open>
  What asynchronous logging delivers: runs of a helper as interleavings of pushes and worker
  turns, the invariant that ties the sinks to the messages pushed, and the properties on the
  ring buffer and the standard output.
\<close>

section \<open>Contract of a sink\<close>

text \<open>
  A sink that does not throw and appends to what it has written the text it makes of the
  message, \<open>shows_as\<close>; flushing writes nothing.
\<close>

locale sink_contract =
  fixes ops :: "'s sink" and shows_as :: "'s \<Rightarrow> log_msg \<Rightarrow> string" and written :: "'s \<Rightarrow> string list"
  assumes log_appends: "\<exists>s'. sk_log ops s m = (None, s') \<and> written s' = written s @ [shows_as s m] \<and>
      sk_level ops s' = sk_level ops s \<and> shows_as s' = shows_as s"
    and flush_keeps: "\<exists>s'. sk_flush ops s = (None, s') \<and> written s' = written s \<and> sk_level ops s' = sk_level ops s \<and>
      shows_as s' = shows_as s"

text \<open>What a sink should have after a list of formatted messages.\<close>

definition delivered :: "'s sink \<Rightarrow> ('s \<Rightarrow> log_msg \<Rightarrow> string) \<Rightarrow> ('s \<Rightarrow> string list) \<Rightarrow> log_msg list \<Rightarrow> 's \<Rightarrow> 's \<Rightarrow> bool" where
  "delivered ops shows_as written ms s s' \<longleftrightarrow> sk_level ops s' = sk_level ops s \<and> shows_as s' = shows_as s \<and>
     written s' = written s @ map (shows_as s) (filter (\<lambda>m. lm_level m \<ge> sk_level ops s) ms)"

lemma delivered_refl: "delivered ops shows_as written [] s s"
  by (simp add: delivered_def)

lemma delivered_trans:
  "delivered ops shows_as written ms s s' \<Longrightarrow> delivered ops shows_as written ms' s' s'' \<Longrightarrow> delivered ops shows_as written (ms @ ms') s s''"
  by (simp add: delivered_def)

lemma list_delivered_trans:
  "list_all2 (delivered ops shows_as written ms) ss ss' \<Longrightarrow> list_all2 (delivered ops shows_as written ms') ss' ss'' \<Longrightarrow>
   list_all2 (delivered ops shows_as written (ms @ ms')) ss ss''"
  by (auto intro: list_all2_trans [rotated 1] delivered_trans)

context sink_contract
begin

lemma sinks_log_delivers: "\<exists>ss'. sinks_log ops m ss = (None, ss') \<and> list_all2 (delivered ops shows_as written [m]) ss ss'"
proof (induction ss)
  case (Cons s ss)
  then obtain ss' where ss': "sinks_log ops m ss = (None, ss')" "list_all2 (delivered ops shows_as written [m]) ss ss'" by blast
  obtain s' where s': "sk_log ops s m = (None, s')" "written s' = written s @ [shows_as s m]" "sk_level ops s' = sk_level ops s" "shows_as s' = shows_as s"
    using log_appends by blast
  have "sink_should_log ops s (lm_level m) \<Longrightarrow> delivered ops shows_as written [m] s s'"
    "\<not> sink_should_log ops s (lm_level m) \<Longrightarrow> delivered ops shows_as written [m] s s"
    using s' by (simp_all add: delivered_def sink_should_log_def)
  with ss' s'(1) show ?case by auto
qed simp

lemma sinks_flush_delivers: "\<exists>ss'. sinks_flush ops ss = (None, ss') \<and> list_all2 (delivered ops shows_as written []) ss ss'"
proof (induction ss)
  case (Cons s ss)
  then obtain ss' where ss': "sinks_flush ops ss = (None, ss')" "list_all2 (delivered ops shows_as written []) ss ss'" by blast
  obtain s' where s': "sk_flush ops s = (None, s')" "written s' = written s" "sk_level ops s' = sk_level ops s" "shows_as s' = shows_as s"
    using flush_keeps by blast
  then have "delivered ops shows_as written [] s s'" by (simp add: delivered_def)
  with ss' s'(1) show ?case by auto
qed simp

end

section \<open>Runs\<close>

text \<open>
  The state of a run also records the messages that were queued. A thread pushes a message of
  any type, with a time after the epoch; the worker takes a turn while it is active.
\<close>

inductive async_run ::
    "('q \<Rightarrow> async_msg \<Rightarrow> (bool \<times> 'q) option) \<Rightarrow> ('q \<Rightarrow> (async_msg option \<times> 'q) option) \<Rightarrow> 's sink \<Rightarrow>
     ('q, 's) async_log_helper \<Rightarrow> async_msg list \<Rightarrow> ('q, 's) async_log_helper \<Rightarrow> bool" for enq deq ops h0 where
  begin_run: "async_run enq deq ops h0 [] h0"
| push: "async_run enq deq ops h0 ms h \<Longrightarrow> 0 \<le> am_time m \<Longrightarrow> push_msg enq m h = Some (queued, h') \<Longrightarrow>
    async_run enq deq ops h0 (if queued then ms @ [m] else ms) h'"
| work: "async_run enq deq ops h0 ms h \<Longrightarrow> al_active h \<Longrightarrow> worker_step deq ops now h = Some h' \<Longrightarrow>
    async_run enq deq ops h0 ms h'"

definition log_msgs :: "(log_msg \<Rightarrow> string) \<Rightarrow> async_msg list \<Rightarrow> log_msg list" where
  "log_msgs f ms = map (\<lambda>m. (fill_log_msg m)\<lparr>lm_formatted := f (fill_log_msg m)\<rparr>) (filter (\<lambda>m. am_msg_type m = Type_log) ms)"

lemma log_msgs_append [simp]: "log_msgs f (ms @ ms') = log_msgs f ms @ log_msgs f ms'"
  by (simp add: log_msgs_def)

definition total_formatter :: "(log_msg \<Rightarrow> exn + log_msg) \<Rightarrow> (log_msg \<Rightarrow> string) \<Rightarrow> bool" where
  "total_formatter fmt f \<longleftrightarrow> (\<forall>m. 0 \<le> lm_time m \<longrightarrow> fmt m = Inr (m\<lparr>lm_formatted := f m\<rparr>))"

section \<open>The invariant\<close>

text \<open>
  The messages queued so far are those the worker has processed followed by those in the queue;
  the sinks have what the processed ones ask for. Once the worker has stopped after a
  termination request, everything queued until then has been processed.
\<close>

definition async_inv ::
    "('q \<Rightarrow> async_msg list \<Rightarrow> bool) \<Rightarrow> 's sink \<Rightarrow> ('s \<Rightarrow> log_msg \<Rightarrow> string) \<Rightarrow>
     ('s \<Rightarrow> string list) \<Rightarrow> (log_msg \<Rightarrow> string) \<Rightarrow> 's list \<Rightarrow>
     async_msg list \<Rightarrow> async_msg list \<Rightarrow> async_msg list \<Rightarrow> ('q, 's) async_log_helper \<Rightarrow> bool" where
  "async_inv holds ops shows_as written f ss0 ms dn pending h \<longleftrightarrow>
     total_formatter (al_formatter h) f \<and> ms = dn @ pending \<and> holds (al_q h) pending \<and> (\<forall>m \<in> set pending. 0 \<le> am_time m) \<and>
     list_all2 (delivered ops shows_as written (log_msgs f dn)) ss0 (al_sinks h) \<and>
     (al_terminate_requested h \<longleftrightarrow> (\<exists>m \<in> set dn. am_msg_type m = Type_terminate)) \<and>
     (al_flush_requested h \<longrightarrow> dn \<noteq> []) \<and> al_errors h = []"

locale async_logging = bounded_queue enq deq holds capacity + sink_contract ops shows_as written
  for enq :: "'q \<Rightarrow> async_msg \<Rightarrow> (bool \<times> 'q) option" and deq and holds and capacity
    and ops :: "'s sink" and shows_as and written
begin

lemma push_inv:
  assumes "async_inv holds ops shows_as written f ss0 ms dn pending h" "push_msg enq m h = Some (queued, h')" "0 \<le> am_time m"
  shows "async_inv holds ops shows_as written f ss0 (if queued then ms @ [m] else ms) dn (if queued then pending @ [m] else pending) h'"
proof -
  have q: "holds (al_q h) pending" using assms(1) by (simp add: async_inv_def)
  obtain q' where q': "enq (al_q h) m = Some (length pending < capacity, q')"
    "holds q' (if length pending < capacity then pending @ [m] else pending)"
    using enqE [OF q] by metis
  show ?thesis
    using assms q' by (auto simp: push_msg_def async_inv_def split: if_splits bool.splits)
qed

lemma work_inv:
  assumes I: "async_inv holds ops shows_as written f ss0 ms dn pending h" and w: "worker_step deq ops now h = Some h'"
  shows "\<exists>dn' pending'. async_inv holds ops shows_as written f ss0 ms dn' pending' h' \<and>
    (\<not> al_active h' \<longrightarrow> pending' = [] \<and> (\<exists>m \<in> set dn'. am_msg_type m = Type_terminate))"
proof -
  have q: "holds (al_q h) pending" and fmt: "total_formatter (al_formatter h) f"
    and D: "list_all2 (delivered ops shows_as written (log_msgs f dn)) ss0 (al_sinks h)"
    using I by (auto simp: async_inv_def)
  obtain q' where q': "deq (al_q h) = Some (if pending = [] then None else Some (hd pending), q')" "holds q' (tl pending)"
    using deqE [OF q] by metis
  show ?thesis
  proof (cases pending)
    case Nil
    obtain ss where ss: "sinks_flush ops (al_sinks h) = (None, ss)" "list_all2 (delivered ops shows_as written []) (al_sinks h) ss"
      using sinks_flush_delivers by blast
    have "list_all2 (delivered ops shows_as written (log_msgs f dn)) ss0 ss"
      using list_delivered_trans [OF D ss(2)] by simp
    with I q' Nil w ss(1) have "async_inv holds ops shows_as written f ss0 ms dn [] h' \<and>
        (\<not> al_active h' \<longrightarrow> (\<exists>m \<in> set dn. am_msg_type m = Type_terminate))"
      by (auto simp: worker_step_def process_next_msg_def handle_flush_interval_def async_inv_def split: if_splits)
    then show ?thesis by blast
  next
    case (Cons m rest)
    obtain ss where ss: "sinks_log ops ((fill_log_msg m)\<lparr>lm_formatted := f (fill_log_msg m)\<rparr>) (al_sinks h) = (None, ss)"
      "list_all2 (delivered ops shows_as written [(fill_log_msg m)\<lparr>lm_formatted := f (fill_log_msg m)\<rparr>]) (al_sinks h) ss"
      using sinks_log_delivers by blast
    note D' = list_delivered_trans [OF D ss(2)]
    have "async_inv holds ops shows_as written f ss0 ms (dn @ [m]) rest h' \<and> al_active h'"
      using I q' Cons w ss(1) D' fmt
      by (cases "am_msg_type m")
        (auto simp: worker_step_def process_next_msg_def async_inv_def total_formatter_def log_msgs_def Let_def fill_log_msg_def)
    then show ?thesis by blast
  qed
qed

lemma run_inv:
  assumes "async_run enq deq ops h0 ms h" "total_formatter (al_formatter h0) f" "holds (al_q h0) []"
    and "\<not> al_terminate_requested h0" "\<not> al_flush_requested h0" "al_errors h0 = []"
  shows "\<exists>dn pending. async_inv holds ops shows_as written f (al_sinks h0) ms dn pending h"
  using assms
proof (induction rule: async_run.induct)
  case begin_run
  have "async_inv holds ops shows_as written f (al_sinks h0) [] [] [] h0"
    using begin_run by (auto simp: async_inv_def log_msgs_def delivered_refl intro: list_all2_refl)
  then show ?case by blast
next
  case (push ms h m queued h')
  then show ?case using push_inv by metis
next
  case (work ms h now h')
  then show ?case using work_inv by blast
qed

end


section \<open>On the ring buffer and the standard output\<close>

lemma std_sink_contract: "sink_contract std_sink_ops (\<lambda>_. lm_formatted) ss_written"
  by unfold_locales (simp_all add: std_sink_ops_def std_sink_it_def std_flush_def)

interpretation std_sinks: sink_contract std_sink_ops "\<lambda>_. lm_formatted" ss_written
  by (rule std_sink_contract)

interpretation std_logging: async_logging "enqueue fails" "dequeue fails" "mpmc_holds b" "2 ^ b" std_sink_ops "\<lambda>_. lm_formatted" ss_written for fails b
  by (rule async_logging.intro [OF mpmc_bounded_queue_ok std_sink_contract])

text \<open>The helper that the program's logger creates.\<close>

definition fresh_helper :: "nat \<Rightarrow> (log_msg \<Rightarrow> string) \<Rightarrow> (async_msg mpmc_bounded_queue, 's) async_log_helper \<Rightarrow> bool" where
  "fresh_helper b f h \<longleftrightarrow> total_formatter (al_formatter h) f \<and> mpmc_holds b (al_q h) [] \<and>
     \<not> al_terminate_requested h \<and> \<not> al_flush_requested h \<and> al_errors h = []"

section \<open>Properties\<close>

text \<open>A helper with a queue of two cells and one sink, whose formatter appends a line break.\<close>

definition line_format :: "log_msg \<Rightarrow> string" where
  "line_format m = lm_raw m @ [LF]"

definition sample_helper :: "(async_msg mpmc_bounded_queue, std_sink) async_log_helper" where
  "sample_helper = async_log_helper_new (\<lambda>m. Inr (m\<lparr>lm_formatted := line_format m\<rparr>)) [std_sink_new]
     (projr (mpmc_new (async_msg_of_type Type_log) 2)) block_retry 0 0"

lemma sample_helper_fresh: "fresh_helper 1 line_format sample_helper"
proof -
  have "(2 :: size_t) AND (2 - 1) = 0" by code_simp
  then obtain q where q: "mpmc_new (async_msg_of_type Type_log) 2 = Inr q" by (simp add: mpmc_new_def)
  then obtain b where b: "unat (2 :: size_t) = 2 ^ b" "mpmc_holds b q []" using mpmc_new_holds by metis
  have "(2::nat) ^ b = 2 ^ 1" using b(1) by simp
  then have "b = 1" by (simp only: power_inject_exp)
  with b q show ?thesis
    by (simp add: fresh_helper_def sample_helper_def async_log_helper_new_def total_formatter_def)
qed

lemma sample_push: "0 \<le> am_time m \<Longrightarrow>
   \<exists>h. async_run (enqueue 0) (dequeue 0) std_sink_ops sample_helper [m] h \<and> al_active h \<and> mpmc_holds 1 (al_q h) [m] \<and>
     al_terminate_requested h = False \<and> al_sinks h = [std_sink_new]"
proof -
  assume m: "0 \<le> am_time m"
  have q: "mpmc_holds 1 (al_q sample_helper) []" using sample_helper_fresh by (simp add: fresh_helper_def)
  obtain q' where q': "enqueue 0 (al_q sample_helper) m = Some (True, q')" "mpmc_holds 1 q' [m]"
    using mpmc.enqE [OF q, of 0 m] by auto
  let ?h = "sample_helper\<lparr>al_q := q'\<rparr>"
  have "push_msg (enqueue 0) m sample_helper = Some (True, ?h)" using q'(1) by (simp add: push_msg_def)
  from async_run.push [OF begin_run m this] q'(2) show ?thesis
    by (intro exI [of _ ?h]) (simp add: sample_helper_def async_log_helper_new_def)
qed

lemma std_delivery:
  assumes "async_run (enqueue fails) (dequeue fails) std_sink_ops h0 ms h" and "fresh_helper b f h0"
  shows "\<exists>dn pending. ms = dn @ pending \<and> mpmc_holds b (al_q h) pending \<and>
    list_all2 (\<lambda>s s'. ss_written s' = ss_written s @ map lm_formatted (filter (\<lambda>m. lm_level m \<ge> ss_level s) (log_msgs f dn)))
      (al_sinks h0) (al_sinks h)"
proof -
  obtain dn pending where I: "async_inv (mpmc_holds b) std_sink_ops (\<lambda>_. lm_formatted) ss_written f (al_sinks h0) ms dn pending h"
    using std_logging.run_inv [OF assms(1)] assms(2) unfolding fresh_helper_def by metis
  then have "list_all2 (delivered std_sink_ops (\<lambda>_. lm_formatted) ss_written (log_msgs f dn)) (al_sinks h0) (al_sinks h)"
    by (simp add: async_inv_def)
  then have "list_all2 (\<lambda>s s'. ss_written s' = ss_written s @ map lm_formatted (filter (\<lambda>m. lm_level m \<ge> ss_level s) (log_msgs f dn)))
      (al_sinks h0) (al_sinks h)"
    by (rule list_all2_mono) (simp add: delivered_def std_sink_ops_def)
  with I show ?thesis by (auto simp: async_inv_def)
qed

text \<open>
  (C22) Nothing that was queued is lost, duplicated or reordered on its way to the standard
  output. In every interleaving of threads that log with the worker, each sink has written
  exactly the formatted texts of a prefix of the queued messages, in order, without those below
  the sink's level; the rest of the queued messages are still in the queue.
\<close>

theorem async_delivery:
  assumes "async_run (enqueue fails) (dequeue fails) std_sink_ops h0 ms h" and "fresh_helper b f h0"
  shows "\<exists>dn pending. ms = dn @ pending \<and> mpmc_holds b (al_q h) pending \<and>
    list_all2 (\<lambda>s s'. ss_written s' = ss_written s @ map lm_formatted (filter (\<lambda>m. lm_level m \<ge> ss_level s) (log_msgs f dn)))
      (al_sinks h0) (al_sinks h)"
  using assms by (rule std_delivery)

theorem async_delivery_witness:
  "\<exists>h dn pending. async_run (enqueue 0) (dequeue 0) std_sink_ops sample_helper [async_msg_of_type Type_flush] h \<and>
     [async_msg_of_type Type_flush] = dn @ pending \<and> mpmc_holds 1 (al_q h) pending"
proof -
  obtain h where r: "async_run (enqueue 0) (dequeue 0) std_sink_ops sample_helper [async_msg_of_type Type_flush] h"
    using sample_push [of "async_msg_of_type Type_flush"] by (auto simp: async_msg_of_type_def)
  from async_delivery [OF r sample_helper_fresh] r show ?thesis by blast
qed

text \<open>
  The worker stops only when nothing is left to do: when a turn of the worker makes it
  inactive, a termination message has been processed, the queue is empty and every message
  queued so far has been written.
\<close>

lemma worker_stops_when_drained:
  assumes "async_run (enqueue fails) (dequeue fails) std_sink_ops h0 ms h" and "fresh_helper b f h0"
    and "al_active h" and "worker_step (dequeue fails) std_sink_ops now h = Some h'" and "\<not> al_active h'"
  shows "mpmc_holds b (al_q h') [] \<and> (\<exists>m \<in> set ms. am_msg_type m = Type_terminate) \<and>
    list_all2 (\<lambda>s s'. ss_written s' = ss_written s @ map lm_formatted (filter (\<lambda>m. lm_level m \<ge> ss_level s) (log_msgs f ms)))
      (al_sinks h0) (al_sinks h')"
proof -
  obtain d p where I: "async_inv (mpmc_holds b) std_sink_ops (\<lambda>_. lm_formatted) ss_written f (al_sinks h0) ms d p h"
    using std_logging.run_inv [OF assms(1)] assms(2) unfolding fresh_helper_def by metis
  obtain dn pending where I': "async_inv (mpmc_holds b) std_sink_ops (\<lambda>_. lm_formatted) ss_written f (al_sinks h0) ms dn pending h'"
    and e: "pending = []" "\<exists>m \<in> set dn. am_msg_type m = Type_terminate"
    using std_logging.work_inv [OF I assms(4)] assms(5) by blast
  then have ms: "dn = ms" and "mpmc_holds b (al_q h') []" by (auto simp: async_inv_def)
  have "list_all2 (delivered std_sink_ops (\<lambda>_. lm_formatted) ss_written (log_msgs f ms)) (al_sinks h0) (al_sinks h')"
    using I' by (simp add: async_inv_def ms)
  then have "list_all2 (\<lambda>s s'. ss_written s' = ss_written s @ map lm_formatted (filter (\<lambda>m. lm_level m \<ge> ss_level s) (log_msgs f ms)))
      (al_sinks h0) (al_sinks h')"
    by (rule list_all2_mono) (simp add: delivered_def std_sink_ops_def)
  with e(2) ms \<open>mpmc_holds b (al_q h') []\<close> show ?thesis by blast
qed

end
