(* ===== verification/Logger.thy ===== *)
theory Logger
  imports Pattern_Formatter Async_Log_Props
begin

text \<open>
  Loggers: the synchronous and the asynchronous \<open>logger\<close>, the registry of named loggers and
  \<open>quitsies::log::create\<close>. The messages a program logs are formatted by fmt, given their line
  by the pattern formatter and passed to the sinks, at once or through the queue; errors on the
  way go to an error handler. Each logger has its sinks as values: two loggers over one sink
  object are not related.
\<close>

section \<open>Loggers\<close>

text \<open>The default error handler, or one set by the user, which is handed the messages.\<close>

datatype err_handler = Default_err_handler | User_err_handler

record 's logger =
  lg_name :: string
  lg_sinks :: "'s list"
  lg_formatter :: "flag_formatter list"
  lg_level :: level_enum
  lg_flush_level :: level_enum
  lg_err_handler :: err_handler
  lg_last_err_time :: int
  lg_reported :: "string list"

definition logger_new :: "string \<Rightarrow> 's list \<Rightarrow> 's logger" where
  "logger_new name sinks =
     \<lparr>lg_name = name, lg_sinks = sinks, lg_formatter = compile_pattern ''%+'', lg_level = info, lg_flush_level = off,
      lg_err_handler = Default_err_handler, lg_last_err_time = 0, lg_reported = []\<rparr>"

definition set_formatter :: "flag_formatter list \<Rightarrow> 's logger \<Rightarrow> 's logger" where
  "set_formatter f l = l\<lparr>lg_formatter := f\<rparr>"

definition set_pattern :: "string \<Rightarrow> 's logger \<Rightarrow> 's logger" where
  "set_pattern pattern l = l\<lparr>lg_formatter := compile_pattern pattern\<rparr>"

definition set_level :: "level_enum \<Rightarrow> ('s, 'z) logger_scheme \<Rightarrow> ('s, 'z) logger_scheme" where
  "set_level log_level l = l\<lparr>lg_level := log_level\<rparr>"

definition set_error_handler :: "err_handler \<Rightarrow> ('s, 'z) logger_scheme \<Rightarrow> ('s, 'z) logger_scheme" where
  "set_error_handler h l = l\<lparr>lg_err_handler := h\<rparr>"

definition flush_on :: "level_enum \<Rightarrow> ('s, 'z) logger_scheme \<Rightarrow> ('s, 'z) logger_scheme" where
  "flush_on log_level l = l\<lparr>lg_flush_level := log_level\<rparr>"

definition should_log :: "level_enum \<Rightarrow> ('s, 'z) logger_scheme \<Rightarrow> bool" where
  "should_log msg_level l \<longleftrightarrow> msg_level \<ge> lg_level l"

definition should_flush_on :: "log_msg \<Rightarrow> ('s, 'z) logger_scheme \<Rightarrow> bool" where
  "should_flush_on m l \<longleftrightarrow> lm_level m \<ge> lg_flush_level l \<and> lm_level m \<noteq> off"

definition log_msg_new :: "string \<Rightarrow> level_enum \<Rightarrow> int \<Rightarrow> size_t \<Rightarrow> log_msg" where
  "log_msg_new name lvl time tid =
     \<lparr>lm_logger_name = name, lm_level = lvl, lm_time = time, lm_thread_id = tid, lm_raw = [], lm_formatted = []\<rparr>"

section \<open>Error handling\<close>

text \<open>C's \<open>strftime\<close> with the format \<open>%Y-%m-%d %H:%M:%S\<close>.\<close>

definition strftime_date :: "tm \<Rightarrow> string" where
  "strftime_date t = show_int (tm_year t + 1900) @ ''-'' @ two (tm_mon t + 1) @ ''-'' @ two (tm_mday t) @ '' '' @
     two (tm_hour t) @ '':'' @ two (tm_min t) @ '':'' @ two (tm_sec t)"

definition err_format :: string where
  "err_format = ''[*** LOG ERROR ***] [{}] [{}] [{}]{}''"

text \<open>
  \<open>_default_err_handler\<close> at \<open>now\<close>, in seconds: at most one line a minute goes to the standard
  error sink \<open>se\<close>. The message for the sink is otherwise uninitialised, which it does not look at.
\<close>

definition default_err_handler ::
    "format_env \<Rightarrow> int \<Rightarrow> string \<Rightarrow> ('s, 'z) logger_scheme \<Rightarrow> std_sink \<Rightarrow> (exn + (('s, 'z) logger_scheme \<times> std_sink)) option" where
  "default_err_handler env now msg l se =
     (if now - lg_last_err_time l < 60 then Some (Inr (l, se))
      else (
        let date_buf = strftime_date (fe_localtime env now) in
        case format (fe_memory env) (fe_thousands_sep env) (\<lambda>d spec b. None) err_format
            [Arg_STRING (lg_name l), Arg_STRING msg, Arg_CSTRING 1 (Some date_buf), Arg_CSTRING 1 (Some eol) :: unit Arg] [] of
          None \<Rightarrow> None
        | Some (Inl e) \<Rightarrow> Some (Inl e)
        | Some (Inr line) \<Rightarrow>
            (case std_sink_it se ((log_msg_new [] trace 0 0)\<lparr>lm_formatted := line\<rparr>) of
               (Some e, se) \<Rightarrow> Some (Inl e)
             | (None, se) \<Rightarrow> Some (Inr (l\<lparr>lg_last_err_time := now\<rparr>, se)))))"

definition handle_error ::
    "format_env \<Rightarrow> int \<Rightarrow> string \<Rightarrow> ('s, 'z) logger_scheme \<Rightarrow> std_sink \<Rightarrow> (exn + (('s, 'z) logger_scheme \<times> std_sink)) option" where
  "handle_error env now msg l se = (case lg_err_handler l of
       Default_err_handler \<Rightarrow> default_err_handler env now msg l se
     | User_err_handler \<Rightarrow> Some (Inr (l\<lparr>lg_reported := lg_reported l @ [msg]\<rparr>, se)))"

section \<open>Logging at once\<close>

definition logger_flush :: "'s sink \<Rightarrow> 's logger \<Rightarrow> exn option \<times> 's logger" where
  "logger_flush ops l = (case sinks_flush ops (lg_sinks l) of (ex, ss) \<Rightarrow> (ex, l\<lparr>lg_sinks := ss\<rparr>))"

definition sink_it :: "format_env \<Rightarrow> 's sink \<Rightarrow> log_msg \<Rightarrow> 's logger \<Rightarrow> (exn option \<times> 's logger) option" where
  "sink_it env ops m l = (case pattern_format env (lg_formatter l) m of
       None \<Rightarrow> None
     | Some (Inl e) \<Rightarrow> Some (Some e, l)
     | Some (Inr m) \<Rightarrow>
         (case sinks_log ops m (lg_sinks l) of
            (Some e, ss) \<Rightarrow> Some (Some e, l\<lparr>lg_sinks := ss\<rparr>)
          | (None, ss) \<Rightarrow>
              (let l = l\<lparr>lg_sinks := ss\<rparr> in
               Some (if should_flush_on m l then logger_flush ops l else (None, l)))))"

text \<open>
  \<open>log\<close>: the overloads differ in how they write the raw text. The calls for a single level
  pass that level.
\<close>

definition log_with ::
    "format_env \<Rightarrow> 's sink \<Rightarrow> level_enum \<Rightarrow> (string \<Rightarrow> writer) \<Rightarrow> int \<Rightarrow> size_t \<Rightarrow> int \<Rightarrow> 's logger \<Rightarrow> std_sink \<Rightarrow>
     (exn + ('s logger \<times> std_sink)) option" where
  "log_with env ops lvl write_raw time tid now l se =
     (if \<not> should_log lvl l then Some (Inr (l, se))
      else (case write_raw [] of
          None \<Rightarrow> None
        | Some (Inl e) \<Rightarrow> handle_error env now (what e) l se
        | Some (Inr raw) \<Rightarrow>
            (case sink_it env ops ((log_msg_new (lg_name l) lvl time tid)\<lparr>lm_raw := raw\<rparr>) l of
               None \<Rightarrow> None
             | Some (Some e, l) \<Rightarrow> handle_error env now (what e) l se
             | Some (None, l) \<Rightarrow> Some (Inr (l, se)))))"

definition log_format ::
    "format_env \<Rightarrow> ('d \<Rightarrow> FormatSpec \<Rightarrow> string \<Rightarrow> writer) \<Rightarrow> 's sink \<Rightarrow> level_enum \<Rightarrow> string \<Rightarrow> 'd Arg list \<Rightarrow> int \<Rightarrow> size_t \<Rightarrow> int \<Rightarrow>
     's logger \<Rightarrow> std_sink \<Rightarrow> (exn + ('s logger \<times> std_sink)) option" where
  "log_format env wd ops lvl fmt args = log_with env ops lvl (format (fe_memory env) (fe_thousands_sep env) wd fmt args)"

definition log_text ::
    "format_env \<Rightarrow> 's sink \<Rightarrow> level_enum \<Rightarrow> string \<Rightarrow> int \<Rightarrow> size_t \<Rightarrow> int \<Rightarrow> 's logger \<Rightarrow> std_sink \<Rightarrow> (exn + ('s logger \<times> std_sink)) option" where
  "log_text env ops lvl msg = log_with env ops lvl (put_str msg)"

section \<open>Asynchronous loggers\<close>

type_synonym msg_queue = "async_msg mpmc_bounded_queue"

text \<open>
  \<open>as_err_handler\<close> is the handler the helper's worker reports to: it gets the texts that the
  helper collects in \<open>al_errors\<close>.
\<close>

record 's async_logger = "'s logger" +
  as_helper :: "(msg_queue, 's) async_log_helper"
  as_err_handler :: err_handler

text \<open>The formatter object as the helper calls it; in a valid environment it is defined.\<close>

definition helper_formatter :: "format_env \<Rightarrow> flag_formatter list \<Rightarrow> log_msg \<Rightarrow> exn + log_msg" where
  "helper_formatter env fs m = the (pattern_format env fs m)"

definition async_logger_new ::
    "format_env \<Rightarrow> string \<Rightarrow> 's list \<Rightarrow> size_t \<Rightarrow> async_overflow_policy \<Rightarrow> int \<Rightarrow> int \<Rightarrow> exn + 's async_logger" where
  "async_logger_new env name sinks queue_size overflow_policy flush_interval_ms now =
     bind_exn (mpmc_new (async_msg_of_type Type_log) queue_size) (\<lambda>q.
       Inr (logger.extend (logger_new name sinks)
         \<lparr>as_helper = async_log_helper_new (helper_formatter env (compile_pattern ''%+'')) sinks q overflow_policy flush_interval_ms now,
          as_err_handler = Default_err_handler\<rparr>))"

definition async_flush :: "nat \<Rightarrow> 's async_logger \<Rightarrow> 's async_logger option" where
  "async_flush fails l = map_option (\<lambda>(_, h). l\<lparr>as_helper := h\<rparr>) (helper_flush (enqueue fails) (as_helper l))"

definition async_set_formatter :: "format_env \<Rightarrow> flag_formatter list \<Rightarrow> 's async_logger \<Rightarrow> 's async_logger" where
  "async_set_formatter env f l = l\<lparr>lg_formatter := f, as_helper := helper_set_formatter (helper_formatter env f) (as_helper l)\<rparr>"

definition async_set_pattern :: "format_env \<Rightarrow> string \<Rightarrow> 's async_logger \<Rightarrow> 's async_logger" where
  "async_set_pattern env pattern l = (
     let f = compile_pattern pattern in
     l\<lparr>lg_formatter := f, as_helper := helper_set_formatter (helper_formatter env f) (as_helper l)\<rparr>)"

definition async_set_error_handler :: "err_handler \<Rightarrow> 's async_logger \<Rightarrow> 's async_logger" where
  "async_set_error_handler h l = l\<lparr>lg_err_handler := h, as_err_handler := h\<rparr>"

text \<open>
  \<open>_sink_it\<close>: the message, and for the flush levels a flush message, go into the queue; \<open>None\<close>
  means that the caller goes on trying. Pushing throws nothing.
\<close>

definition async_sink_it :: "nat \<Rightarrow> log_msg \<Rightarrow> 's async_logger \<Rightarrow> 's async_logger option" where
  "async_sink_it fails m l = (case helper_log (enqueue fails) m (as_helper l) of
       None \<Rightarrow> None
     | Some (_, h) \<Rightarrow>
         (let l = l\<lparr>as_helper := h\<rparr> in if should_flush_on m l then async_flush fails l else Some l))"

definition async_log_with ::
    "nat \<Rightarrow> format_env \<Rightarrow> level_enum \<Rightarrow> (string \<Rightarrow> writer) \<Rightarrow> int \<Rightarrow> size_t \<Rightarrow> int \<Rightarrow> 's async_logger \<Rightarrow> std_sink \<Rightarrow>
     (exn + ('s async_logger \<times> std_sink)) option" where
  "async_log_with fails env lvl write_raw time tid now l se =
     (if \<not> should_log lvl l then Some (Inr (l, se))
      else (case write_raw [] of
          None \<Rightarrow> None
        | Some (Inl e) \<Rightarrow> handle_error env now (what e) l se
        | Some (Inr raw) \<Rightarrow>
            map_option (\<lambda>l. Inr (l, se)) (async_sink_it fails ((log_msg_new (lg_name l) lvl time tid)\<lparr>lm_raw := raw\<rparr>) l)))"

section \<open>The registry\<close>

text \<open>
  Shared pointers to loggers are indices into a heap. The registry's hash map is kept in key
  order: the operations that go through all loggers do the same to each. The flush interval
  is set together with the asynchronous mode, before which it is not read.
\<close>

datatype 's logger_object = Sync_logger "'s logger" | Async_logger "'s async_logger"

record 's registry =
  rg_heap :: "'s logger_object list"
  rg_loggers :: "(string, nat) omap"
  rg_formatter :: "flag_formatter list option"
  rg_level :: level_enum
  rg_err_handler :: "err_handler option"
  rg_async_mode :: bool
  rg_async_q_size :: size_t
  rg_overflow_policy :: async_overflow_policy
  rg_flush_interval_ms :: int

definition registry_new :: "int \<Rightarrow> 's registry" where
  "registry_new indeterminate =
     \<lparr>rg_heap = [], rg_loggers = [], rg_formatter = None, rg_level = info, rg_err_handler = None, rg_async_mode = False,
      rg_async_q_size = 0, rg_overflow_policy = block_retry, rg_flush_interval_ms = indeterminate\<rparr>"

fun object_name :: "'s logger_object \<Rightarrow> string" where
  "object_name (Sync_logger l) = lg_name l"
| "object_name (Async_logger l) = lg_name l"

fun object_set_formatter :: "format_env \<Rightarrow> flag_formatter list \<Rightarrow> 's logger_object \<Rightarrow> 's logger_object" where
  "object_set_formatter env f (Sync_logger l) = Sync_logger (set_formatter f l)"
| "object_set_formatter env f (Async_logger l) = Async_logger (async_set_formatter env f l)"

fun object_set_level :: "level_enum \<Rightarrow> 's logger_object \<Rightarrow> 's logger_object" where
  "object_set_level lvl (Sync_logger l) = Sync_logger (set_level lvl l)"
| "object_set_level lvl (Async_logger l) = Async_logger (set_level lvl l)"

fun object_set_error_handler :: "err_handler \<Rightarrow> 's logger_object \<Rightarrow> 's logger_object" where
  "object_set_error_handler h (Sync_logger l) = Sync_logger (set_error_handler h l)"
| "object_set_error_handler h (Async_logger l) = Async_logger (async_set_error_handler h l)"

definition throw_if_exists :: "string \<Rightarrow> 's registry \<Rightarrow> exn + unit" where
  "throw_if_exists name r =
     (if map_of (rg_loggers r) name \<noteq> None
      then Inl (Spdlog_ex (''logger with name '' @ [CHR 0x27] @ name @ [CHR 0x27] @ '' already exists'')) else Inr ())"

definition register_logger :: "nat \<Rightarrow> 's registry \<Rightarrow> exn + 's registry" where
  "register_logger p r = (
     let name = object_name (rg_heap r ! p) in
     bind_exn (throw_if_exists name r) (\<lambda>_. Inr (r\<lparr>rg_loggers := omap_put name p (rg_loggers r)\<rparr>)))"

definition registry_get :: "string \<Rightarrow> 's registry \<Rightarrow> nat option" where
  "registry_get name r = map_of (rg_loggers r) name"

definition make_logger :: "format_env \<Rightarrow> int \<Rightarrow> string \<Rightarrow> 's list \<Rightarrow> 's registry \<Rightarrow> exn + 's logger_object" where
  "make_logger env now name sinks r =
     (if rg_async_mode r
      then bind_exn (async_logger_new env name sinks (rg_async_q_size r) (rg_overflow_policy r) (rg_flush_interval_ms r) now)
             (\<lambda>l. Inr (Async_logger l))
      else Inr (Sync_logger (logger_new name sinks)))"

definition configure_logger :: "format_env \<Rightarrow> 's registry \<Rightarrow> 's logger_object \<Rightarrow> 's logger_object" where
  "configure_logger env r l = (
     let l = (case rg_formatter r of Some f \<Rightarrow> object_set_formatter env f l | None \<Rightarrow> l);
         l = (case rg_err_handler r of Some h \<Rightarrow> object_set_error_handler h l | None \<Rightarrow> l) in
     object_set_level (rg_level r) l)"

definition registry_create :: "format_env \<Rightarrow> int \<Rightarrow> string \<Rightarrow> 's list \<Rightarrow> 's registry \<Rightarrow> exn + (nat \<times> 's registry)" where
  "registry_create env now name sinks r =
     bind_exn (throw_if_exists name r) (\<lambda>_.
     bind_exn (make_logger env now name sinks r) (\<lambda>l.
       let p = length (rg_heap r) in
       Inr (p, r\<lparr>rg_heap := rg_heap r @ [configure_logger env r l], rg_loggers := omap_put name p (rg_loggers r)\<rparr>)))"

definition apply_all :: "('s logger_object \<Rightarrow> 's logger_object) \<Rightarrow> 's registry \<Rightarrow> 's registry" where
  "apply_all f r = r\<lparr>rg_heap := fold (\<lambda>(_, p) h. h[p := f (h ! p)]) (rg_loggers r) (rg_heap r)\<rparr>"

definition registry_drop :: "string \<Rightarrow> 's registry \<Rightarrow> 's registry" where
  "registry_drop name r = r\<lparr>rg_loggers := omap_erase name (rg_loggers r)\<rparr>"

definition registry_drop_all :: "'s registry \<Rightarrow> 's registry" where
  "registry_drop_all r = r\<lparr>rg_loggers := []\<rparr>"

definition registry_formatter :: "format_env \<Rightarrow> flag_formatter list \<Rightarrow> 's registry \<Rightarrow> 's registry" where
  "registry_formatter env f r = apply_all (object_set_formatter env f) (r\<lparr>rg_formatter := Some f\<rparr>)"

definition registry_set_pattern :: "format_env \<Rightarrow> string \<Rightarrow> 's registry \<Rightarrow> 's registry" where
  "registry_set_pattern env pattern r = (
     let f = compile_pattern pattern in apply_all (object_set_formatter env f) (r\<lparr>rg_formatter := Some f\<rparr>))"

definition registry_set_level :: "level_enum \<Rightarrow> 's registry \<Rightarrow> 's registry" where
  "registry_set_level log_level r = (apply_all (object_set_level log_level) r)\<lparr>rg_level := log_level\<rparr>"

definition registry_set_error_handler :: "err_handler \<Rightarrow> 's registry \<Rightarrow> 's registry" where
  "registry_set_error_handler h r = (apply_all (object_set_error_handler h) r)\<lparr>rg_err_handler := Some h\<rparr>"

definition set_async_mode :: "size_t \<Rightarrow> async_overflow_policy \<Rightarrow> int \<Rightarrow> 's registry \<Rightarrow> 's registry" where
  "set_async_mode q_size overflow_policy flush_interval_ms r =
     r\<lparr>rg_async_mode := True, rg_async_q_size := q_size, rg_overflow_policy := overflow_policy, rg_flush_interval_ms := flush_interval_ms\<rparr>"

definition set_sync_mode :: "'s registry \<Rightarrow> 's registry" where
  "set_sync_mode r = r\<lparr>rg_async_mode := False\<rparr>"

definition stdout_logger_mt :: "format_env \<Rightarrow> int \<Rightarrow> std_sink \<Rightarrow> string \<Rightarrow> std_sink registry \<Rightarrow> exn + (nat \<times> std_sink registry)" where
  "stdout_logger_mt env now stdout name r = registry_create env now name [stdout] r"

text \<open>
  \<open>quitsies::log::create\<close>, with the registry it leaves behind; the default arguments of
  \<open>set_async_mode\<close> are written out.
\<close>

definition log_create ::
    "format_env \<Rightarrow> int \<Rightarrow> std_sink \<Rightarrow> string \<Rightarrow> string \<Rightarrow> std_sink registry \<Rightarrow> (exn + nat) \<times> std_sink registry" where
  "log_create env now stdout name level r = (
     let r = set_async_mode 8192 block_retry 0 r in
     case stdout_logger_mt env now stdout name r of
       Inl e \<Rightarrow> (Inl e, r)
     | Inr (p, r) \<Rightarrow>
         (case create_level level of
            Inl e \<Rightarrow> (Inl e, r)
          | Inr lvl \<Rightarrow> (Inr p, r\<lparr>rg_heap := (rg_heap r)[p := object_set_level lvl (rg_heap r ! p)]\<rparr>)))"

end
