(* ===== verification/Logger_Props.thy ===== *)
theory Logger_Props
  imports Logger
begin

text \<open>
  What loggers guarantee: the line a message becomes, errors that stay inside the logger, the
  well-formedness of the registry, and the lines the program's own logger delivers.
\<close>

section \<open>Registries are well formed\<close>

text \<open>Every registered name belongs to an existing logger of that name.\<close>

definition rg_wf :: "'s registry \<Rightarrow> bool" where
  "rg_wf r \<longleftrightarrow> omap_wf (rg_loggers r) \<and>
     (\<forall>name p. map_of (rg_loggers r) name = Some p \<longrightarrow> p < length (rg_heap r) \<and> object_name (rg_heap r ! p) = name)"

inductive registry_reach :: "std_sink registry \<Rightarrow> bool" where
  new: "registry_reach (registry_new indeterminate)"
| create: "registry_reach r \<Longrightarrow> registry_create env now name sinks r = Inr (p, r') \<Longrightarrow> registry_reach r'"
| register: "registry_reach r \<Longrightarrow> p < length (rg_heap r) \<Longrightarrow> register_logger p r = Inr r' \<Longrightarrow> registry_reach r'"
| drop: "registry_reach r \<Longrightarrow> registry_reach (registry_drop name r)"
| drop_all: "registry_reach r \<Longrightarrow> registry_reach (registry_drop_all r)"
| formatter: "registry_reach r \<Longrightarrow> registry_reach (registry_formatter env f r)"
| pattern: "registry_reach r \<Longrightarrow> registry_reach (registry_set_pattern env pattern r)"
| level: "registry_reach r \<Longrightarrow> registry_reach (registry_set_level lvl r)"
| error_handler: "registry_reach r \<Longrightarrow> registry_reach (registry_set_error_handler h r)"
| async_mode: "registry_reach r \<Longrightarrow> registry_reach (set_async_mode q_size policy interval r)"
| sync_mode: "registry_reach r \<Longrightarrow> registry_reach (set_sync_mode r)"
| log_create: "registry_reach r \<Longrightarrow> log_create env now stdout name level r = (res, r') \<Longrightarrow> registry_reach r'"

lemma object_names [simp]:
  "object_name (object_set_formatter env f l) = object_name l"
  "object_name (object_set_level lvl l) = object_name l"
  "object_name (object_set_error_handler h l) = object_name l"
  by (cases l; simp add: set_formatter_def async_set_formatter_def set_level_def set_error_handler_def
    async_set_error_handler_def)+

lemma rg_wfI:
  "omap_wf (rg_loggers r) \<Longrightarrow> (\<And>name p. map_of (rg_loggers r) name = Some p \<Longrightarrow> p < length (rg_heap r) \<and> object_name (rg_heap r ! p) = name)
   \<Longrightarrow> rg_wf r"
  by (simp add: rg_wf_def)

lemma rg_wf_put:
  assumes "rg_wf r" "p < length h" "object_name (h ! p) = name" "length (rg_heap r) \<le> length h"
    "\<And>i. i < length (rg_heap r) \<Longrightarrow> object_name (h ! i) = object_name (rg_heap r ! i)"
  shows "rg_wf (r\<lparr>rg_heap := h, rg_loggers := omap_put name p (rg_loggers r)\<rparr>)"
  using assms by (auto simp: rg_wf_def omap_simps split: if_splits) (meson order_less_le_trans)

lemma map_names:
  "length (fold (\<lambda>(_, p) h. h[p := f (h ! p)]) ps h) = length h"
  "(\<And>l. object_name (f l) = object_name l) \<Longrightarrow>
   object_name (fold (\<lambda>(_, p) h. h[p := f (h ! p)]) ps h ! i) = object_name (h ! i)"
proof (induction ps arbitrary: h)
  case (Cons e ps)
  { case 1 show ?case using Cons.IH(1) by (simp add: split_def) }
  { case 2
    have "object_name (h[snd e := f (h ! snd e)] ! i) = object_name (h ! i)"
      using 2 list_update_beyond [of h "snd e" "f (h ! snd e)"]
      by (cases "snd e < length h"; cases "i = snd e") (simp_all add: not_less)
    with Cons.IH(2) [OF 2] show ?case by (simp add: split_def) }
qed simp_all

lemma rg_wf_apply_all:
  assumes "rg_wf r" "\<And>l. object_name (f l) = object_name l"
  shows "rg_wf (apply_all f r)"
  using assms(1) unfolding rg_wf_def apply_all_def by (simp add: map_names assms(2))

lemma rg_wf_fields [simp]:
  "rg_wf (r\<lparr>rg_formatter := a\<rparr>) = rg_wf r" "rg_wf (r\<lparr>rg_level := b\<rparr>) = rg_wf r" "rg_wf (r\<lparr>rg_err_handler := c\<rparr>) = rg_wf r"
  "rg_wf (r\<lparr>rg_async_mode := d\<rparr>) = rg_wf r" "rg_wf (r\<lparr>rg_async_q_size := e\<rparr>) = rg_wf r"
  "rg_wf (r\<lparr>rg_overflow_policy := f\<rparr>) = rg_wf r" "rg_wf (r\<lparr>rg_flush_interval_ms := g\<rparr>) = rg_wf r"
  by (simp_all add: rg_wf_def)

lemma throw_if_exists_Inr: "throw_if_exists name r = Inr u \<longleftrightarrow> map_of (rg_loggers r) name = None"
  by (simp add: throw_if_exists_def)

lemma async_logger_new_name: "async_logger_new env name sinks q_size policy interval now = Inr l \<Longrightarrow> lg_name l = name"
  by (auto simp: async_logger_new_def logger_new_def logger.extend_def elim!: bind_exn_InrE)

lemma registry_create_shape:
  assumes "registry_create env now name sinks r = Inr (p, r')"
  obtains l where "p = length (rg_heap r)" "object_name l = name" "map_of (rg_loggers r) name = None"
    "r' = r\<lparr>rg_heap := rg_heap r @ [l], rg_loggers := omap_put name p (rg_loggers r)\<rparr>"
proof -
  obtain l where "map_of (rg_loggers r) name = None" and l: "make_logger env now name sinks r = Inr l"
    "p = length (rg_heap r)" "r' = r\<lparr>rg_heap := rg_heap r @ [configure_logger env r l], rg_loggers := omap_put name p (rg_loggers r)\<rparr>"
    using assms unfolding registry_create_def by (auto simp: Let_def throw_if_exists_Inr elim!: bind_exn_InrE)
  moreover have "object_name l = name"
    using l(1) by (auto simp: make_logger_def logger_new_def split: if_splits elim!: bind_exn_InrE dest!: async_logger_new_name)
  then have "object_name (configure_logger env r l) = name" by (simp add: configure_logger_def split: option.splits)
  ultimately show ?thesis using that by metis
qed

lemma registry_create_wf:
  assumes "rg_wf r" "registry_create env now name sinks r = Inr (p, r')"
  shows "rg_wf r' \<and> p < length (rg_heap r')"
proof -
  obtain l where l: "p = length (rg_heap r)" "object_name l = name"
    "r' = r\<lparr>rg_heap := rg_heap r @ [l], rg_loggers := omap_put name p (rg_loggers r)\<rparr>"
    using assms(2) by (rule registry_create_shape)
  then show ?thesis using rg_wf_put [OF assms(1), of p "rg_heap r @ [l]" name] by (simp add: nth_append)
qed

lemma rg_wf_update:
  assumes "rg_wf r" "object_name x = object_name (rg_heap r ! p)"
  shows "rg_wf (r\<lparr>rg_heap := (rg_heap r)[p := x]\<rparr>)"
proof (rule rg_wfI)
  fix name i assume "map_of (rg_loggers (r\<lparr>rg_heap := (rg_heap r)[p := x]\<rparr>)) name = Some i"
  with assms(1) have "i < length (rg_heap r)" "object_name (rg_heap r ! i) = name" by (auto simp: rg_wf_def)
  with assms(2) show "i < length (rg_heap (r\<lparr>rg_heap := (rg_heap r)[p := x]\<rparr>)) \<and> object_name (rg_heap (r\<lparr>rg_heap := (rg_heap r)[p := x]\<rparr>) ! i) = name"
    by (cases "i = p") simp_all
qed (use assms in \<open>simp add: rg_wf_def\<close>)

lemma log_create_wf:
  assumes "rg_wf r" "log_create env now stdout name level r = (res, r')"
  shows "rg_wf r'"
proof -
  let ?r = "set_async_mode 8192 block_retry 0 r"
  have wf: "rg_wf ?r" using assms(1) by (simp add: set_async_mode_def)
  show ?thesis
  proof (cases "stdout_logger_mt env now stdout name ?r")
    case (Inl e)
    with assms(2) wf show ?thesis by (simp add: log_create_def Let_def)
  next
    case (Inr x)
    obtain p r1 where x: "x = (p, r1)" by (cases x)
    with Inr wf have r1: "rg_wf r1" using registry_create_wf unfolding stdout_logger_mt_def by blast
    then have "rg_wf (r1\<lparr>rg_heap := (rg_heap r1)[p := object_set_level lvl (rg_heap r1 ! p)]\<rparr>)" for lvl
      by (simp add: rg_wf_update)
    with r1 assms(2) Inr x show ?thesis by (auto simp: log_create_def Let_def split: sum.splits)
  qed
qed

text \<open>
  (C26) The registry stays well formed: after any sequence of calls, failing ones included, each
  name is registered once and belongs to a live logger of exactly that name.
\<close>

theorem registry_well_formed:
  assumes "registry_reach r"
  shows "rg_wf r"
  using assms
proof induction
  case (new indeterminate)
  show ?case by (simp add: rg_wf_def registry_new_def)
next
  case (create r env now name sinks p r')
  then show ?case using registry_create_wf by blast
next
  case (register r p r')
  then show ?case using rg_wf_put [of r p "rg_heap r" "object_name (rg_heap r ! p)"]
    by (auto simp: register_logger_def Let_def elim!: bind_exn_InrE)
next
  case (log_create r env now stdout name level res r')
  then show ?case using log_create_wf by blast
next
  case (drop r name)
  then show ?case by (auto simp: registry_drop_def rg_wf_def omap_simps split: if_splits)
next
  case (drop_all r)
  show ?case by (simp add: registry_drop_all_def rg_wf_def)
qed (simp_all add: registry_formatter_def registry_set_pattern_def registry_set_level_def
  registry_set_error_handler_def set_async_mode_def set_sync_mode_def Let_def rg_wf_apply_all)

theorem registry_well_formed_witness:
  "rg_wf (set_sync_mode (snd (log_create sample_env 0 std_sink_new ''tcp'' ''verbose'' (registry_new 0))))"
proof -
  obtain res r where r: "log_create sample_env 0 std_sink_new ''tcp'' ''verbose'' (registry_new 0) = (res, r)" by fastforce
  show ?thesis unfolding r snd_conv
    by (rule registry_well_formed [OF registry_reach.sync_mode [OF registry_reach.log_create [OF registry_reach.new r]]])
qed

section \<open>Errors stay inside\<close>

definition err_line :: "string \<Rightarrow> string \<Rightarrow> tm \<Rightarrow> string" where
  "err_line name msg t = ''[*** LOG ERROR ***] ['' @ name @ ''] ['' @ msg @ ''] ['' @ strftime_date t @ '']'' @ eol"

lemma err_format_template:
  "err_format = template_src [Lit ''[*** LOG ERROR ***] ['', Hole, Lit ''] ['', Hole, Lit ''] ['', Hole, Lit '']'', Hole]"
  by (simp add: err_format_def template_src_def)

lemma default_err_handler_eq:
  "default_err_handler env now msg l se =
     Some (Inr (if now - lg_last_err_time l < 60 then (l, se)
       else (l\<lparr>lg_last_err_time := now\<rparr>,
             se\<lparr>ss_written := ss_written se @ [err_line (lg_name l) msg (fe_localtime env now)], ss_flushed := length (ss_written se) + 1\<rparr>)))"
proof -
  let ?d = "strftime_date (fe_localtime env now)"
  let ?args = "[Arg_STRING (lg_name l), Arg_STRING msg, Arg_CSTRING 1 (Some ?d), Arg_CSTRING 1 (Some eol) :: unit Arg]"
  have "format (fe_memory env) (fe_thousands_sep env) (\<lambda>d spec b. None) err_format ?args [] =
      Some (Inr (err_line (lg_name l) msg (fe_localtime env now)))"
    unfolding err_format_template
    by (subst format_template [of _ "[lg_name l, msg, ?d, eol]"]) (auto simp: err_line_def)
  then show ?thesis by (simp add: default_err_handler_def Let_def std_sink_it_def std_flush_def)
qed

lemma handle_error_returns: "\<exists>l' se'. handle_error env now msg l se = Some (Inr (l', se'))"
  by (cases "lg_err_handler l") (simp_all add: handle_error_def default_err_handler_eq)

lemma sink_it_defined:
  assumes "valid_env env" "0 \<le> lm_time m" "lg_formatter l = compile_pattern pattern"
  shows "\<exists>r. sink_it env ops m l = Some r"
  using pattern_format_valid [OF assms(1,2), of pattern] assms(3)
  by (auto simp: sink_it_def Let_def split: prod.splits option.splits)



section \<open>What is written\<close>

text \<open>
  (C24) One call, one line. When the message text \<open>raw\<close> can be formatted, a logger at or below
  the level of the call writes the line its pattern gives to each of its sinks whose level
  admits it, and nothing to the others; below the logger's level nothing is written at all.
\<close>

theorem logger_writes_line:
  assumes "valid_env env" and "0 \<le> time" and "lg_formatter l = compile_pattern pattern" and "write_raw [] = Some (Inr raw)"
  shows "\<exists>l'. log_with env std_sink_ops lvl write_raw time tid now l se = Some (Inr (l', se)) \<and>
    list_all2 (\<lambda>s s'. ss_level s' = ss_level s \<and> ss_written s' = ss_written s @
        (if lvl \<ge> lg_level l \<and> lvl \<ge> ss_level s
         then [pattern_text env ((log_msg_new (lg_name l) lvl time tid)\<lparr>lm_raw := raw\<rparr>) (fe_localtime env (to_time_t time)) pattern @ eol]
         else []))
      (lg_sinks l) (lg_sinks l')"
proof (cases "should_log lvl l")
  case False
  then show ?thesis by (auto simp: log_with_def should_log_def intro: list_all2_refl)
next
  case True
  define m where "m = (log_msg_new (lg_name l) lvl time tid)\<lparr>lm_raw := raw\<rparr>"
  define m' where "m' = m\<lparr>lm_formatted := pattern_text env m (fe_localtime env (to_time_t time)) pattern @ eol\<rparr>"
  have fmt: "pattern_format env (lg_formatter l) m = Some (Inr m')"
    using pattern_format_valid [OF assms(1), of m pattern] assms(2,3) by (simp add: m_def m'_def log_msg_new_def)
  obtain ss where ss: "sinks_log std_sink_ops m' (lg_sinks l) = (None, ss)" "list_all2 (delivered std_sink_ops (\<lambda>_. lm_formatted) ss_written [m']) (lg_sinks l) ss"
    using std_sinks.sinks_log_delivers by blast
  obtain ss' where ss': "sinks_flush std_sink_ops ss = (None, ss')" "list_all2 (delivered std_sink_ops (\<lambda>_. lm_formatted) ss_written []) ss ss'"
    using std_sinks.sinks_flush_delivers by blast
  have both: "list_all2 (delivered std_sink_ops (\<lambda>_. lm_formatted) ss_written [m']) (lg_sinks l) ss'"
    using list_delivered_trans [OF ss(2) ss'(2)] by simp
  obtain l' where l': "sink_it env std_sink_ops m l = Some (None, l')"
    "list_all2 (delivered std_sink_ops (\<lambda>_. lm_formatted) ss_written [m']) (lg_sinks l) (lg_sinks l')"
    using fmt ss ss' both by (cases "should_flush_on m' (l\<lparr>lg_sinks := ss\<rparr>)") (simp_all add: sink_it_def logger_flush_def Let_def)
  from l'(1) True assms(4) have "log_with env std_sink_ops lvl write_raw time tid now l se = Some (Inr (l', se))"
    by (simp add: log_with_def m_def)
  moreover have "list_all2 (\<lambda>s s'. ss_level s' = ss_level s \<and> ss_written s' = ss_written s @
      (if lvl \<ge> lg_level l \<and> lvl \<ge> ss_level s then [lm_formatted m'] else [])) (lg_sinks l) (lg_sinks l')"
    using l'(2) by (rule list_all2_mono) (use True in \<open>simp add: delivered_def std_sink_ops_def should_log_def m'_def m_def log_msg_new_def\<close>)
  moreover have "lm_formatted m' = pattern_text env ((log_msg_new (lg_name l) lvl time tid)\<lparr>lm_raw := raw\<rparr>) (fe_localtime env (to_time_t time)) pattern @ eol"
    by (simp add: m'_def m_def)
  ultimately show ?thesis by (intro exI [of _ l'] conjI) (assumption, simp only:)
qed

theorem logger_writes_line_witness:
  "\<exists>l'. log_with sample_env std_sink_ops warn (put_str ''hello'') 1496275620005000000 7 0 (set_pattern ''%l: %v'' (logger_new ''tcp'' [std_sink_new])) std_sink_new
      = Some (Inr (l', std_sink_new)) \<and> map ss_written (lg_sinks l') = [[''warning: hello'' @ eol]]"
proof -
  let ?l = "set_pattern ''%l: %v'' (logger_new ''tcp'' [std_sink_new])"
  have *: "lg_formatter ?l = compile_pattern ''%l: %v''" "put_str ''hello'' [] = Some (Inr ''hello'')"
    "lg_sinks ?l = [std_sink_new]" "lg_level ?l = info"
    by (simp_all add: set_pattern_def logger_new_def put_str_def)
  have "info \<le> warn" by (simp add: less_eq_level_enum_def)
  with logger_writes_line [where env = sample_env and l = ?l and pattern = "''%l: %v''" and write_raw = "put_str ''hello''" and raw = "''hello''"
      and time = 1496275620005000000 and lvl = warn and tid = 7 and now = 0 and se = std_sink_new] * sample_env_valid show ?thesis
    by (auto simp: list_all2_Cons1 std_sink_new_def flag_text_def flag_texts_def log_msg_new_def to_str_def level_names_def)
qed

section \<open>The logger of the program\<close>

definition line_of :: "format_env \<Rightarrow> string \<Rightarrow> log_msg \<Rightarrow> string" where
  "line_of env pattern m = lm_formatted m @ pattern_text env m (fe_localtime env (to_time_t (lm_time m))) pattern @ eol"

lemma helper_formatter_total: "valid_env env \<Longrightarrow> total_formatter (helper_formatter env (compile_pattern pattern)) (line_of env pattern)"
  by (simp add: total_formatter_def helper_formatter_def pattern_format_valid line_of_def)

lemma queue_8192: "\<exists>q. mpmc_new (async_msg_of_type Type_log) 8192 = Inr q \<and> mpmc_holds 13 q []"
proof -
  have "(8192 :: size_t) AND (8192 - 1) = 0" by code_simp
  then obtain q where q: "mpmc_new (async_msg_of_type Type_log) 8192 = Inr q" by (simp add: mpmc_new_def)
  then obtain b where b: "unat (8192 :: size_t) = 2 ^ b" "mpmc_holds b q []" using mpmc_new_holds by metis
  have "(2::nat) ^ b = 2 ^ 13" using b(1) by simp
  then have "b = 13" by (simp only: power_inject_exp)
  with b q show ?thesis by blast
qed

lemma log_create_ok:
  assumes env: "valid_env env" and "map_of (rg_loggers r) name = None" "rg_formatter r = None" "rg_err_handler r = None"
    and "create_level level = Inr lvl"
  obtains l r' where "log_create env now stdout name level r = (Inr (length (rg_heap r)), r')"
    "rg_heap r' = rg_heap r @ [Async_logger l]" "registry_get name r' = Some (length (rg_heap r))"
    "lg_name l = name" "lg_level l = lvl" "fresh_helper 13 (line_of env ''%+'') (as_helper l)" "al_sinks (as_helper l) = [stdout]"
    "al_overflow_policy (as_helper l) = block_retry"
proof -
  obtain q where q: "mpmc_new (async_msg_of_type Type_log) 8192 = Inr q" "mpmc_holds 13 q []" using queue_8192 by blast
  let ?h = "async_log_helper_new (helper_formatter env (compile_pattern ''%+'')) [stdout] q block_retry 0 now"
  let ?l = "logger.extend (logger_new name [stdout]) \<lparr>as_helper = ?h, as_err_handler = Default_err_handler\<rparr>"
  let ?l1 = "set_level lvl (set_level (rg_level r) ?l)"
  have "fresh_helper 13 (line_of env ''%+'') ?h"
    using q(2) helper_formatter_total [OF env] by (simp add: fresh_helper_def async_log_helper_new_def)
  moreover have "\<exists>r'. log_create env now stdout name level r = (Inr (length (rg_heap r)), r') \<and>
      rg_heap r' = rg_heap r @ [Async_logger ?l1] \<and> registry_get name r' = Some (length (rg_heap r))"
    using assms(2-5) q(1)
    by (simp add: log_create_def Let_def stdout_logger_mt_def registry_create_def throw_if_exists_def make_logger_def
        async_logger_new_def configure_logger_def set_async_mode_def nth_append registry_get_def omap_simps)
  ultimately show ?thesis using that [of _ ?l1]
    by (auto simp: set_level_def logger.extend_def logger_new_def async_log_helper_new_def)
qed

lemma log_create_level: "log_create env now stdout name level r = (Inr p, r') \<Longrightarrow> \<exists>lvl. create_level level = Inr lvl"
  by (cases "create_level level"; cases "stdout_logger_mt env now stdout name (set_async_mode 8192 block_retry 0 r)")
    (simp_all add: log_create_def Let_def split_def)

lemma log_msgs_lines:
  "map lm_formatted (filter (\<lambda>m. lm_level m \<ge> lvl) (log_msgs f ms)) =
   map (\<lambda>m. f (fill_log_msg m)) (filter (\<lambda>m. am_msg_type m = Type_log \<and> am_level m \<ge> lvl) ms)"
  by (induction ms) (simp_all add: log_msgs_def fill_log_msg_def)


lemma fresh_push:
  assumes "fresh_helper b f h" "0 \<le> am_time m"
  shows "\<exists>h'. async_run (enqueue 0) (dequeue 0) std_sink_ops h [m] h'"
proof -
  have "mpmc_holds b (al_q h) []" using assms(1) by (simp add: fresh_helper_def)
  then obtain q' where "enqueue 0 (al_q h) m = Some (True, q')" using mpmc.enqE [of b "al_q h" "[]" 0 m] by auto
  then have "push_msg (enqueue 0) m h = Some (True, h\<lparr>al_q := q'\<rparr>)" by (simp add: push_msg_def)
  from async_run.push [OF begin_run assms(2) this] show ?thesis by auto
qed


text \<open>A second logger of the same name is refused; a bad level leaves the name registered.\<close>

lemma log_create_twice:
  "map_of (rg_loggers r) name \<noteq> None \<Longrightarrow> fst (log_create env now stdout name level r) =
     Inl (Spdlog_ex (''logger with name '' @ [CHR 0x27] @ name @ [CHR 0x27] @ '' already exists''))"
  by (simp add: log_create_def Let_def stdout_logger_mt_def registry_create_def throw_if_exists_def set_async_mode_def)

lemma log_create_bad_level:
  assumes "map_of (rg_loggers r) name = None" "create_level level = Inl e"
  shows "\<exists>r'. log_create env now stdout name level r = (Inl e, r') \<and> registry_get name r' \<noteq> None"
proof -
  obtain q where "mpmc_new (async_msg_of_type Type_log) 8192 = Inr q" using queue_8192 by blast
  with assms show ?thesis
    by (simp add: log_create_def Let_def stdout_logger_mt_def registry_create_def throw_if_exists_def make_logger_def
        async_logger_new_def set_async_mode_def registry_get_def omap_simps)
qed

end
