(* ===== verification/File_Sinks.thy ===== *)
theory File_Sinks
  imports Pattern_Formatter
begin

text \<open>
  The file sinks of spdlog: a file that is appended to, files rotated by size and files rotated
  by date. The file system maps names to contents; which of its operations fail, the local time
  and the text of an error number come from an environment. The buffering of C's streams is
  left out: what was written is in the file.
\<close>

section \<open>Files\<close>

type_synonym file_system = "string \<Rightarrow> string option"

text \<open>
  \<open>fi_open f t\<close>: the \<open>t\<close>-th attempt to open \<open>f\<close> succeeds; \<open>fi_written f s\<close>: how many of the
  bytes \<open>s\<close> get into \<open>f\<close>; \<open>fi_errno\<close> is the text of the last error.
\<close>

record file_env =
  fi_format :: format_env
  fi_open :: "string \<Rightarrow> nat \<Rightarrow> bool"
  fi_written :: "string \<Rightarrow> string \<Rightarrow> nat"
  fi_remove :: "string \<Rightarrow> bool"
  fi_rename :: "string \<Rightarrow> string \<Rightarrow> bool"
  fi_size :: "string \<Rightarrow> bool"
  fi_errno :: string
  fi_mktime :: "tm \<Rightarrow> int"

definition spdlog_ex_errno :: "file_env \<Rightarrow> string \<Rightarrow> exn" where
  "spdlog_ex_errno env msg = Spdlog_ex (msg @ '': '' @ fi_errno env)"

text \<open>A file helper: the name of the open file, and the name it was given last.\<close>

record file_helper =
  fh_fd :: "string option"
  fh_filename :: string

type_synonym 'a file_call = "(exn option \<times> 'a \<times> file_system) option"

definition file_helper_new :: file_helper where
  "file_helper_new = \<lparr>fh_fd = None, fh_filename = []\<rparr>"

definition fh_close :: "file_helper \<Rightarrow> file_helper" where
  "fh_close h = h\<lparr>fh_fd := None\<rparr>"

definition open_tries :: nat where "open_tries = 5"

function open_loop :: "file_env \<Rightarrow> string \<Rightarrow> nat \<Rightarrow> bool" where
  "open_loop env fname tries =
     (if \<not> tries < open_tries then False
      else if fi_open env fname tries then True
      else open_loop env fname (tries + 1))"
  by pat_completeness auto
termination
  by (relation "measure (\<lambda>(env, fname, tries). open_tries - tries)") auto

declare open_loop.simps [simp del]

definition fh_open :: "file_env \<Rightarrow> string \<Rightarrow> bool \<Rightarrow> file_helper \<Rightarrow> file_system \<Rightarrow> exn option \<times> file_helper \<times> file_system" where
  "fh_open env fname trunc h fs = (
     let h = (fh_close h)\<lparr>fh_filename := fname\<rparr> in
     if open_loop env fname 0 then
       (None, h\<lparr>fh_fd := Some fname\<rparr>,
        fs(fname \<mapsto> (if trunc then [] else (case fs fname of None \<Rightarrow> [] | Some c \<Rightarrow> c))))
     else (Some (spdlog_ex_errno env (''Failed opening file '' @ fname @ '' for writing'')), h, fs))"

definition fh_reopen :: "file_env \<Rightarrow> bool \<Rightarrow> file_helper \<Rightarrow> file_system \<Rightarrow> exn option \<times> file_helper \<times> file_system" where
  "fh_reopen env trunc h fs =
     (if fh_filename h = [] then (Some (Spdlog_ex ''Failed re opening file - was not opened before''), h, fs)
      else fh_open env (fh_filename h) trunc h fs)"

text \<open>Writing to a file helper without an open file is undefined.\<close>

definition fh_write :: "file_env \<Rightarrow> log_msg \<Rightarrow> file_helper \<Rightarrow> file_system \<Rightarrow> (exn option \<times> file_system) option" where
  "fh_write env m h fs = (case fh_fd h of
       None \<Rightarrow> None
     | Some f \<Rightarrow>
         (let data = lm_formatted m; n = min (fi_written env f data) (length data);
              fs = fs(f := map_option (\<lambda>c. c @ take n data) (fs f)) in
          Some (if n \<noteq> length data then Some (spdlog_ex_errno env (''Failed writing to file '' @ fh_filename h)) else None, fs)))"

definition fh_size :: "file_env \<Rightarrow> file_helper \<Rightarrow> file_system \<Rightarrow> exn + size_t" where
  "fh_size env h fs = (case fh_fd h of
       None \<Rightarrow> Inl (Spdlog_ex (''Cannot use size() on closed file '' @ fh_filename h))
     | Some f \<Rightarrow> if fi_size env f then Inr (word_of_nat (case fs f of None \<Rightarrow> 0 | Some c \<Rightarrow> length c))
         else Inl (spdlog_ex_errno env ''Failed getting file size from fd''))"

section \<open>One file\<close>

record simple_file_sink =
  sf_level :: level_enum
  sf_file_helper :: file_helper
  sf_force_flush :: bool

definition simple_file_sink_new ::
    "file_env \<Rightarrow> string \<Rightarrow> bool \<Rightarrow> file_system \<Rightarrow> (exn + simple_file_sink) \<times> file_system" where
  "simple_file_sink_new env filename trunc fs = (case fh_open env filename trunc file_helper_new fs of
       (Some e, h, fs) \<Rightarrow> (Inl e, fs)
     | (None, h, fs) \<Rightarrow> (Inr \<lparr>sf_level = trace, sf_file_helper = h, sf_force_flush = False\<rparr>, fs))"

definition set_force_flush :: "bool \<Rightarrow> simple_file_sink \<Rightarrow> simple_file_sink" where
  "set_force_flush f s = s\<lparr>sf_force_flush := f\<rparr>"

definition simple_sink_it :: "file_env \<Rightarrow> log_msg \<Rightarrow> simple_file_sink \<Rightarrow> file_system \<Rightarrow> simple_file_sink file_call" where
  "simple_sink_it env m s fs = map_option (\<lambda>(ex, fs). (ex, s, fs)) (fh_write env m (sf_file_helper s) fs)"

section \<open>Rotation by size\<close>

record rotating_file_sink =
  rs_level :: level_enum
  rs_base_filename :: string
  rs_max_size :: size_t
  rs_max_files :: size_t
  rs_current_size :: size_t
  rs_file_helper :: file_helper

text \<open>\<open>w.str()\<close> after formatting into an empty writer.\<close>

definition format_str :: "format_env \<Rightarrow> string \<Rightarrow> unit Arg list \<Rightarrow> string" where
  "format_str env fmt args = projr (the (format (fe_memory env) (fe_thousands_sep env) (\<lambda>d spec b. None) fmt args []))"

definition calc_filename :: "format_env \<Rightarrow> string \<Rightarrow> nat \<Rightarrow> string" where
  "calc_filename env filename index =
     (if index \<noteq> 0 then format_str env ''{}.{}'' [Arg_STRING filename, Arg_ULONG_LONG (int index)]
      else format_str env ''{}'' [Arg_STRING filename])"

definition rotating_file_sink_new ::
    "file_env \<Rightarrow> string \<Rightarrow> size_t \<Rightarrow> size_t \<Rightarrow> file_system \<Rightarrow> (exn + rotating_file_sink) \<times> file_system" where
  "rotating_file_sink_new env base_filename max_size max_files fs =
     (case fh_open env (calc_filename (fi_format env) base_filename 0) False file_helper_new fs of
       (Some e, h, fs) \<Rightarrow> (Inl e, fs)
     | (None, h, fs) \<Rightarrow>
         (bind_exn (fh_size env h fs) (\<lambda>size.
            Inr \<lparr>rs_level = trace, rs_base_filename = base_filename, rs_max_size = max_size, rs_max_files = max_files,
                 rs_current_size = size, rs_file_helper = h\<rparr>), fs))"

text \<open>The loop of \<open>_rotate\<close>, from the last index down.\<close>

fun rotate_loop :: "file_env \<Rightarrow> string \<Rightarrow> nat \<Rightarrow> file_system \<Rightarrow> exn option \<times> file_system" where
  "rotate_loop env base 0 fs = (None, fs)"
| "rotate_loop env base (Suc i) fs = (
     let src = calc_filename (fi_format env) base i; target = calc_filename (fi_format env) base (Suc i) in
     if fs target \<noteq> None \<and> \<not> fi_remove env target
     then (Some (spdlog_ex_errno env (''rotating_file_sink: failed removing '' @ target)), fs)
     else (
       let fs = (if fs target \<noteq> None then fs(target := None) else fs) in
       if fs src \<noteq> None \<and> \<not> fi_rename env src target
       then (Some (spdlog_ex_errno env (''rotating_file_sink: failed renaming '' @ src @ '' to '' @ target)), fs)
       else rotate_loop env base i (if fs src \<noteq> None then fs(target := fs src, src := None) else fs)))"

definition rotate_files :: "file_env \<Rightarrow> rotating_file_sink \<Rightarrow> file_system \<Rightarrow> exn option \<times> rotating_file_sink \<times> file_system" where
  "rotate_files env s fs = (
     let s = s\<lparr>rs_file_helper := fh_close (rs_file_helper s)\<rparr> in
     case rotate_loop env (rs_base_filename s) (unat (rs_max_files s)) fs of
       (Some e, fs) \<Rightarrow> (Some e, s, fs)
     | (None, fs) \<Rightarrow>
         (case fh_reopen env True (rs_file_helper s) fs of (ex, h, fs) \<Rightarrow> (ex, s\<lparr>rs_file_helper := h\<rparr>, fs)))"

definition rotating_sink_it :: "file_env \<Rightarrow> log_msg \<Rightarrow> rotating_file_sink \<Rightarrow> file_system \<Rightarrow> rotating_file_sink file_call" where
  "rotating_sink_it env m s fs = (
     let size = word_of_nat (length (lm_formatted m));
         s = s\<lparr>rs_current_size := rs_current_size s + size\<rparr>;
         write = (\<lambda>s fs. map_option (\<lambda>(ex, fs). (ex, s, fs)) (fh_write env m (rs_file_helper s) fs)) in
     if rs_current_size s > rs_max_size s then
       (case rotate_files env s fs of
          (Some e, s, fs) \<Rightarrow> Some (Some e, s, fs)
        | (None, s, fs) \<Rightarrow> write (s\<lparr>rs_current_size := size\<rparr>) fs)
     else write s fs)"

section \<open>Rotation by date\<close>

text \<open>The two generators of file names, at the local time \<open>t\<close>.\<close>

definition default_daily_filename :: "format_env \<Rightarrow> tm \<Rightarrow> string \<Rightarrow> string" where
  "default_daily_filename env t basename =
     format_str env ''{}_{:04d}-{:02d}-{:02d}_{:02d}-{:02d}''
       [Arg_STRING basename, Arg_INT (tm_year t + 1900), Arg_INT (tm_mon t + 1), Arg_INT (tm_mday t), Arg_INT (tm_hour t), Arg_INT (tm_min t)]"

definition dateonly_daily_filename :: "format_env \<Rightarrow> tm \<Rightarrow> string \<Rightarrow> string" where
  "dateonly_daily_filename env t basename =
     format_str env ''{}_{:04d}-{:02d}-{:02d}''
       [Arg_STRING basename, Arg_INT (tm_year t + 1900), Arg_INT (tm_mon t + 1), Arg_INT (tm_mday t)]"

record daily_file_sink =
  ds_level :: level_enum
  ds_base_filename :: string
  ds_rotation_h :: int
  ds_rotation_m :: int
  ds_rotation_tp :: int
  ds_file_helper :: file_helper

definition next_rotation_tp :: "file_env \<Rightarrow> int \<Rightarrow> int \<Rightarrow> int \<Rightarrow> int" where
  "next_rotation_tp env rotation_h rotation_m now = (
     let date = (fe_localtime (fi_format env) (to_time_t now))\<lparr>tm_hour := rotation_h, tm_min := rotation_m, tm_sec := 0\<rparr>;
         rotation_time = fi_mktime env date * 1000000000 in
     if rotation_time > now then rotation_time else rotation_time + 24 * 3600 * 1000000000)"

text \<open>\<open>calc\<close> is the generator the sink is instantiated with.\<close>

definition daily_file_sink_new ::
    "file_env \<Rightarrow> (format_env \<Rightarrow> tm \<Rightarrow> string \<Rightarrow> string) \<Rightarrow> int \<Rightarrow> string \<Rightarrow> int \<Rightarrow> int \<Rightarrow> file_system \<Rightarrow>
     (exn + daily_file_sink) \<times> file_system" where
  "daily_file_sink_new env calc now base rotation_hour rotation_minute fs =
     (if rotation_hour < 0 \<or> rotation_hour > 23 \<or> rotation_minute < 0 \<or> rotation_minute > 59
      then (Inl (Spdlog_ex ''daily_file_sink: Invalid rotation time in ctor''), fs)
      else (
        let tp = next_rotation_tp env rotation_hour rotation_minute now;
            name = calc (fi_format env) (fe_localtime (fi_format env) (to_time_t now)) base in
        case fh_open env name False file_helper_new fs of
          (Some e, h, fs) \<Rightarrow> (Inl e, fs)
        | (None, h, fs) \<Rightarrow>
            (Inr \<lparr>ds_level = trace, ds_base_filename = base, ds_rotation_h = rotation_hour, ds_rotation_m = rotation_minute,
                  ds_rotation_tp = tp, ds_file_helper = h\<rparr>, fs)))"

definition daily_sink_it ::
    "file_env \<Rightarrow> (format_env \<Rightarrow> tm \<Rightarrow> string \<Rightarrow> string) \<Rightarrow> int \<Rightarrow> log_msg \<Rightarrow> daily_file_sink \<Rightarrow> file_system \<Rightarrow> daily_file_sink file_call" where
  "daily_sink_it env calc now m s fs = (
     let write = (\<lambda>s fs. map_option (\<lambda>(ex, fs). (ex, s, fs)) (fh_write env m (ds_file_helper s) fs)) in
     if now \<ge> ds_rotation_tp s then
       (let name = calc (fi_format env) (fe_localtime (fi_format env) (to_time_t now)) (ds_base_filename s) in
        case fh_open env name False (ds_file_helper s) fs of
          (Some e, h, fs) \<Rightarrow> Some (Some e, s\<lparr>ds_file_helper := h\<rparr>, fs)
        | (None, h, fs) \<Rightarrow>
            write (s\<lparr>ds_file_helper := h, ds_rotation_tp := next_rotation_tp env (ds_rotation_h s) (ds_rotation_m s) now\<rparr>) fs)
     else write s fs)"

section \<open>Names\<close>

lemma format_str_template:
  assumes "list_all2 (\<lambda>a t. arg_ok a \<and> arg_text a = Some t) args ts" "\<forall>s. Lit s \<in> set ps \<longrightarrow> CHR 0x00 \<notin> set s"
    and "template_text ps ts = Some t"
  shows "format_str env (template_src ps) args = t"
  by (simp add: format_str_def format_template [OF assms(1,2)] assms(3))

definition rotated_name :: "string \<Rightarrow> nat \<Rightarrow> string" where
  "rotated_name base i = base @ (if i = 0 then [] else CHR ''.'' # show_nat i)"

lemma calc_filename_eq: "i < 2 ^ 64 \<Longrightarrow> calc_filename env base i = rotated_name base i"
  using format_str_template [of "[Arg_STRING base, Arg_ULONG_LONG (int i)]" "[base, show_nat i]" "[Hole, Lit ''.'', Hole]" _ env]
    format_str_template [of "[Arg_STRING base]" "[base]" "[Hole]" _ env]
  by (auto simp: calc_filename_def rotated_name_def template_src_def show_int_def)

lemma rotated_name_inj [simp]: "rotated_name base i = rotated_name base j \<longleftrightarrow> i = j"
  by (auto simp: rotated_name_def)

lemma rotated_name_0 [simp]: "rotated_name base 0 = base"
  by (simp add: rotated_name_def)

section \<open>Rotating\<close>

definition rotates_reliably :: "file_env \<Rightarrow> bool" where
  "rotates_reliably env \<longleftrightarrow> (\<forall>f. fi_remove env f) \<and> (\<forall>f g. fi_rename env f g) \<and> (\<forall>f. fi_open env f 0) \<and> (\<forall>f s. length s \<le> fi_written env f s)"

lemma rotate_loop_shifts:
  assumes "rotates_reliably env" "n < 2 ^ 64"
  shows "\<exists>fs'. rotate_loop env base n fs = (None, fs') \<and>
    (\<forall>i. 1 \<le> i \<and> i \<le> n \<longrightarrow> fs' (rotated_name base i) = fs (rotated_name base (i - 1))) \<and> (n > 0 \<longrightarrow> fs' base = None) \<and>
    (\<forall>f. (\<forall>i \<le> n. f \<noteq> rotated_name base i) \<longrightarrow> fs' f = fs f)"
  using assms(2)
proof (induction n arbitrary: fs)
  case (Suc n)
  let ?name = "rotated_name base"
  define fs1 where "fs1 = fs(?name (Suc n) := fs (?name n), ?name n := None)"
  have "rotate_loop env base (Suc n) fs = rotate_loop env base n fs1"
    using assms(1) Suc.prems by (auto simp: Let_def rotates_reliably_def calc_filename_eq fs1_def fun_eq_iff intro!: arg_cong [where f = "rotate_loop env base n"])
  moreover obtain fs' where fs': "rotate_loop env base n fs1 = (None, fs')"
    "\<forall>i. 1 \<le> i \<and> i \<le> n \<longrightarrow> fs' (?name i) = fs1 (?name (i - 1))" "n > 0 \<longrightarrow> fs' base = None"
    "\<forall>f. (\<forall>i \<le> n. f \<noteq> ?name i) \<longrightarrow> fs' f = fs1 f"
    using Suc.IH [of fs1] Suc.prems by auto
  moreover have "fs' (?name i) = fs (?name (i - 1))" if "1 \<le> i" "i \<le> Suc n" for i
  proof (cases "i = Suc n")
    case True
    have "fs' (?name (Suc n)) = fs1 (?name (Suc n))" using fs'(4) by simp
    with True show ?thesis by (simp add: fs1_def)
  next
    case False
    with that fs'(2) have "fs' (?name i) = fs1 (?name (i - 1))" by simp
    moreover have "i - 1 \<noteq> n" "i - 1 \<noteq> Suc n" using that False by auto
    ultimately show ?thesis by (simp add: fs1_def)
  qed
  moreover have "fs' base = None"
  proof (cases n)
    case 0
    with fs'(1) have "fs' = fs1" by simp
    with 0 show ?thesis by (simp add: fs1_def)
  qed (use fs'(3) in simp)
  moreover have "fs' f = fs f" if "\<forall>i \<le> Suc n. f \<noteq> ?name i" for f
    using that fs'(4) by (simp add: fs1_def)
  ultimately show ?case by auto
qed simp

lemma open_loop_first: "fi_open env f 0 \<Longrightarrow> open_loop env f 0"
  by (simp add: open_loop.simps open_tries_def)

text \<open>
  (C32) Rotation shifts the files and loses only the oldest. When a message would make the file
  larger than the limit and no file operation fails, it ends up alone in the base file, every
  older file has moved up by one index, a gap included, up to the configured number of files,
  and no other file is touched.
\<close>

theorem rotation_shifts:
  assumes "rotates_reliably env" and "rs_base_filename s \<noteq> []" and "fh_filename (rs_file_helper s) = rs_base_filename s"
    and "rs_current_size s + word_of_nat (length (lm_formatted m)) > rs_max_size s"
  shows "\<exists>s' fs'. rotating_sink_it env m s fs = Some (None, s', fs') \<and>
    fs' (rs_base_filename s) = Some (lm_formatted m) \<and> rs_current_size s' = word_of_nat (length (lm_formatted m)) \<and>
    (\<forall>i. 1 \<le> i \<and> i \<le> unat (rs_max_files s) \<longrightarrow>
       fs' (rotated_name (rs_base_filename s) i) = fs (rotated_name (rs_base_filename s) (i - 1))) \<and>
    (\<forall>f. (\<forall>i \<le> unat (rs_max_files s). f \<noteq> rotated_name (rs_base_filename s) i) \<longrightarrow> fs' f = fs f)"
proof -
  let ?base = "rs_base_filename s" and ?n = "unat (rs_max_files s)"
  obtain fs1 where fs1: "rotate_loop env ?base ?n fs = (None, fs1)"
    "\<forall>i. 1 \<le> i \<and> i \<le> ?n \<longrightarrow> fs1 (rotated_name ?base i) = fs (rotated_name ?base (i - 1))"
    "\<forall>f. (\<forall>i \<le> ?n. f \<noteq> rotated_name ?base i) \<longrightarrow> fs1 f = fs f"
    using rotate_loop_shifts [OF assms(1), of ?n ?base fs] unsigned_less [of "rs_max_files s"] by auto
  let ?fs' = "fs1(?base \<mapsto> lm_formatted m)"
  have w: "min (fi_written env ?base (lm_formatted m)) (length (lm_formatted m)) = length (lm_formatted m)"
    using assms(1) by (simp add: rotates_reliably_def)
  obtain s' where "rotating_sink_it env m s fs = Some (None, s', ?fs')" "rs_current_size s' = word_of_nat (length (lm_formatted m))"
    using assms fs1(1) open_loop_first [of env ?base] w
    by (simp add: rotating_sink_it_def Let_def rotate_files_def fh_reopen_def fh_open_def fh_close_def fh_write_def rotates_reliably_def)
  moreover have "?fs' (rotated_name ?base i) = fs (rotated_name ?base (i - 1))" if "1 \<le> i" "i \<le> ?n" for i
    using that fs1(2) rotated_name_inj [of ?base i 0] by simp
  moreover have "?fs' f = fs f" if f: "\<forall>i \<le> ?n. f \<noteq> rotated_name ?base i" for f
  proof -
    have "f \<noteq> ?base" using f [rule_format, of 0] by simp
    with f fs1(3) show ?thesis by simp
  qed
  ultimately show ?thesis by (intro exI [of _ s'] exI [of _ ?fs']) simp
qed

definition sample_file_env :: file_env where
  "sample_file_env = \<lparr>fi_format = sample_env, fi_open = (\<lambda>_ _. True), fi_written = (\<lambda>_. length), fi_remove = (\<lambda>_. True),
     fi_rename = (\<lambda>_ _. True), fi_size = (\<lambda>_. True), fi_errno = ''No such file or directory'', fi_mktime = (\<lambda>_. 0)\<rparr>"

definition sample_rotating :: rotating_file_sink where
  "sample_rotating = \<lparr>rs_level = trace, rs_base_filename = ''log'', rs_max_size = 10, rs_max_files = 2, rs_current_size = 8,
     rs_file_helper = \<lparr>fh_fd = Some ''log'', fh_filename = ''log''\<rparr>\<rparr>"

theorem rotation_shifts_witness:
  "\<exists>s' fs'. rotating_sink_it sample_file_env (sample_msg\<lparr>lm_formatted := ''new''\<rparr>) sample_rotating [''log'' \<mapsto> ''12345678'', ''log.2'' \<mapsto> ''old''] = Some (None, s', fs') \<and>
     fs' ''log'' = Some ''new'' \<and> fs' ''log.1'' = Some ''12345678'' \<and> fs' ''log.2'' = None"
proof -
  have r: "rotates_reliably sample_file_env" by (simp add: rotates_reliably_def sample_file_env_def)
  have n: "rotated_name ''log'' 1 = ''log.1''" "rotated_name ''log'' 2 = ''log.2''" by (simp_all add: rotated_name_def digit_chars)
  let ?m = "sample_msg\<lparr>lm_formatted := ''new''\<rparr>" and ?fs = "[''log'' \<mapsto> ''12345678'', ''log.2'' \<mapsto> ''old'']"
  obtain s' fs' where w: "rotating_sink_it sample_file_env ?m sample_rotating ?fs = Some (None, s', fs')" "fs' ''log'' = Some ''new''"
    "\<forall>i. 1 \<le> i \<and> i \<le> 2 \<longrightarrow> fs' (rotated_name ''log'' i) = ?fs (rotated_name ''log'' (i - 1))"
    using rotation_shifts [OF r, of sample_rotating ?m ?fs] by (auto simp: sample_rotating_def)
  have "fs' ''log.1'' = ?fs ''log''" using w(3) [rule_format, of 1] n(1) by simp
  moreover have "fs' ''log.2'' = ?fs ''log.1''" using w(3) [rule_format, of 2] n by simp
  ultimately show ?thesis using w(1,2) by (intro exI [of _ s'] exI [of _ fs']) simp
qed

text \<open>
  The base file is open and holds at most the bytes counted, or it is closed after a failed
  rotation and the count still exceeds the limit, so that the next message rotates again.
\<close>

definition rotating_inv :: "rotating_file_sink \<Rightarrow> file_system \<Rightarrow> bool" where
  "rotating_inv s fs \<longleftrightarrow> rs_base_filename s \<noteq> [] \<and> fh_filename (rs_file_helper s) = rs_base_filename s \<and>
     (case fh_fd (rs_file_helper s) of
        Some f \<Rightarrow> f = rs_base_filename s \<and> (\<exists>c. fs f = Some c \<and> length c \<le> unat (rs_current_size s))
      | None \<Rightarrow> rs_current_size s > rs_max_size s)"

lemma rotate_files_cases:
  assumes "rs_base_filename s \<noteq> []" "fh_filename (rs_file_helper s) = rs_base_filename s"
  obtains (failed) e fs' where "rotate_files env s fs = (Some e, s\<lparr>rs_file_helper := \<lparr>fh_fd = None, fh_filename = rs_base_filename s\<rparr>\<rparr>, fs')"
  | (rotated) fs' where "fs' (rs_base_filename s) = Some []"
      "rotate_files env s fs = (None, s\<lparr>rs_file_helper := \<lparr>fh_fd = Some (rs_base_filename s), fh_filename = rs_base_filename s\<rparr>\<rparr>, fs')"
proof -
  have close: "fh_close (rs_file_helper s) = \<lparr>fh_fd = None, fh_filename = rs_base_filename s\<rparr>"
    using assms(2) by (cases "rs_file_helper s") (simp add: fh_close_def)
  obtain ex fs1 where l: "rotate_loop env (rs_base_filename s) (unat (rs_max_files s)) fs = (ex, fs1)" by (cases "rotate_loop env (rs_base_filename s) (unat (rs_max_files s)) fs")
  show ?thesis
  proof (cases ex)
    case (Some e)
    with l close show ?thesis by (intro failed [of e fs1]) (simp add: rotate_files_def Let_def)
  next
    case None
    show ?thesis
    proof (cases "open_loop env (rs_base_filename s) 0")
      case True
      with None l close assms(1) show ?thesis
        by (intro rotated [of "fs1(rs_base_filename s \<mapsto> [])"])
          (simp_all add: rotate_files_def Let_def fh_reopen_def fh_open_def fh_close_def)
    next
      case False
      with None l close assms(1) show ?thesis
        by (intro failed [of "spdlog_ex_errno env (''Failed opening file '' @ rs_base_filename s @ '' for writing'')" fs1])
          (simp add: rotate_files_def Let_def fh_reopen_def fh_open_def fh_close_def)
    qed
  qed
qed

lemma fh_write_open:
  assumes "fh_fd h = Some f" "fs f = Some c"
  obtains n where "n \<le> length (lm_formatted m)"
    "fh_write env m h fs = Some (if n \<noteq> length (lm_formatted m) then Some (spdlog_ex_errno env (''Failed writing to file '' @ fh_filename h)) else None,
       fs(f \<mapsto> c @ take n (lm_formatted m)))"
  using assms that [of "min (fi_written env f (lm_formatted m)) (length (lm_formatted m))"] by (simp add: fh_write_def Let_def)

lemma rotating_outcome:
  assumes "r = Some (if n \<noteq> length (lm_formatted m) then Some e else None, s', fs(base \<mapsto> c @ take n (lm_formatted m)))"
    and "rotating_inv s' (fs(base \<mapsto> c @ take n (lm_formatted m)))" and "n \<le> length (lm_formatted m)"
    and "length c + length (lm_formatted m) \<le> b"
  shows "\<exists>ex s' fs'. r = Some (ex, s', fs') \<and> rotating_inv s' fs' \<and>
    (ex = None \<longrightarrow> (\<exists>c. fs' base = Some (c @ lm_formatted m) \<and> length (c @ lm_formatted m) \<le> b))"
proof (cases "n = length (lm_formatted m)")
  case True
  with assms show ?thesis
    by (intro exI [of _ None] exI [of _ s'] exI [of _ "fs(base \<mapsto> c @ lm_formatted m)"]) simp
next
  case False
  with assms show ?thesis
    by (intro exI [of _ "Some e"] exI [of _ s'] exI [of _ "fs(base \<mapsto> c @ take n (lm_formatted m))"]) simp
qed

lemma rotating_sink_it_plain:
  assumes "\<not> rs_current_size s + word_of_nat (length (lm_formatted m)) > rs_max_size s" and "fh_write env m (rs_file_helper s) fs = Some (ex, fs')"
  shows "rotating_sink_it env m s fs = Some (ex, s\<lparr>rs_current_size := rs_current_size s + word_of_nat (length (lm_formatted m))\<rparr>, fs')"
  using assms(1) by (simp add: rotating_sink_it_def Let_def assms(2) del: not_less)

lemma rotating_sink_it_failed:
  assumes "rs_current_size s + word_of_nat (length (lm_formatted m)) > rs_max_size s"
    and "rotate_files env (s\<lparr>rs_current_size := rs_current_size s + word_of_nat (length (lm_formatted m))\<rparr>) fs = (Some e, s', fs')"
  shows "rotating_sink_it env m s fs = Some (Some e, s', fs')"
  using assms(1) by (simp add: rotating_sink_it_def Let_def assms(2))

lemma rotating_sink_it_rotated:
  assumes "rs_current_size s + word_of_nat (length (lm_formatted m)) > rs_max_size s"
    and "rotate_files env (s\<lparr>rs_current_size := rs_current_size s + word_of_nat (length (lm_formatted m))\<rparr>) fs = (None, s', fs')"
    and "fh_write env m (rs_file_helper s') fs' = Some (ex, fs'')"
  shows "rotating_sink_it env m s fs = Some (ex, s'\<lparr>rs_current_size := word_of_nat (length (lm_formatted m))\<rparr>, fs'')"
  using assms(1) by (simp add: rotating_sink_it_def Let_def assms(2,3))

lemma rotating_add_len:
  fixes x :: size_t
  assumes "unat x + n < 2 ^ 64"
  shows "unat (x + word_of_nat n) = unat x + n" "unat (word_of_nat n :: size_t) = n"
proof -
  show n: "unat (word_of_nat n :: size_t) = n" using assms by (simp add: unat_size_t_of_nat)
  show "unat (x + word_of_nat n) = unat x + n" using assms by (simp add: unat_word_ariths n)
qed

text \<open>What logging a message must do: return, keep the invariant, and write all of it or say why not.\<close>

definition logs_safely :: "file_env \<Rightarrow> log_msg \<Rightarrow> rotating_file_sink \<Rightarrow> file_system \<Rightarrow> bool" where
  "logs_safely env m s fs \<longleftrightarrow> (\<exists>ex s' fs'. rotating_sink_it env m s fs = Some (ex, s', fs') \<and> rotating_inv s' fs' \<and>
     (ex = None \<longrightarrow> (\<exists>c. fs' (rs_base_filename s) = Some (c @ lm_formatted m) \<and>
        length (c @ lm_formatted m) \<le> max (unat (rs_max_size s)) (length (lm_formatted m)))))"

lemma rotating_sink_full:
  assumes "rotating_inv s fs" and "unat (rs_current_size s) + length (lm_formatted m) < 2 ^ 64"
    and full: "rs_current_size s + word_of_nat (length (lm_formatted m)) > rs_max_size s"
  shows "logs_safely env m s fs"
proof -
  let ?len = "length (lm_formatted m)" and ?base = "rs_base_filename s"
  define s1 where "s1 = s\<lparr>rs_current_size := rs_current_size s + word_of_nat ?len\<rparr>"
  have s1: "?base \<noteq> []" "rs_base_filename s1 = ?base" "fh_filename (rs_file_helper s1) = ?base" "rs_max_size s1 = rs_max_size s"
    "rs_current_size s1 = rs_current_size s + word_of_nat ?len"
    using assms(1) by (simp_all add: rotating_inv_def s1_def)
  then have "rs_base_filename s1 \<noteq> []" "fh_filename (rs_file_helper s1) = rs_base_filename s1" by simp_all
  then show ?thesis
  proof (cases rule: rotate_files_cases [where env = env and fs = fs])
    case (failed e fs')
    let ?s2 = "s1\<lparr>rs_file_helper := \<lparr>fh_fd = None, fh_filename = rs_base_filename s1\<rparr>\<rparr>"
    have "rotating_sink_it env m s fs = Some (Some e, ?s2, fs')"
      using full failed unfolding s1_def by (rule rotating_sink_it_failed)
    moreover have "rotating_inv ?s2 fs'" using s1 full by (simp add: rotating_inv_def)
    ultimately show ?thesis unfolding logs_safely_def by blast
  next
    case (rotated fs')
    let ?s2 = "s1\<lparr>rs_file_helper := \<lparr>fh_fd = Some (rs_base_filename s1), fh_filename = rs_base_filename s1\<rparr>\<rparr>"
    obtain n where n: "n \<le> ?len" and w: "fh_write env m (rs_file_helper ?s2) fs' =
        Some (if n \<noteq> ?len then Some (spdlog_ex_errno env (''Failed writing to file '' @ fh_filename (rs_file_helper ?s2))) else None,
          fs'(?base \<mapsto> [] @ take n (lm_formatted m)))"
      by (rule fh_write_open [of "rs_file_helper ?s2" ?base fs' "[]" m env]) (use s1 rotated(1) in auto)
    show ?thesis unfolding logs_safely_def
    proof (rule rotating_outcome)
      show "rotating_sink_it env m s fs = Some (if n \<noteq> ?len then Some (spdlog_ex_errno env (''Failed writing to file '' @ fh_filename (rs_file_helper ?s2))) else None,
          ?s2\<lparr>rs_current_size := word_of_nat ?len\<rparr>, fs'(?base \<mapsto> [] @ take n (lm_formatted m)))"
        using full rotated(2) w unfolding s1_def by (rule rotating_sink_it_rotated)
      show "rotating_inv (?s2\<lparr>rs_current_size := word_of_nat ?len\<rparr>) (fs'(?base \<mapsto> [] @ take n (lm_formatted m)))"
        using s1 n rotating_add_len(2) [OF assms(2)] by (simp add: rotating_inv_def)
    qed (use n in simp_all)
  qed
qed

lemma rotating_sink_room:
  assumes "rotating_inv s fs" and "unat (rs_current_size s) + length (lm_formatted m) < 2 ^ 64"
    and room: "\<not> rs_current_size s + word_of_nat (length (lm_formatted m)) > rs_max_size s"
  shows "logs_safely env m s fs"
proof -
  let ?len = "length (lm_formatted m)" and ?base = "rs_base_filename s"
  let ?s1 = "s\<lparr>rs_current_size := rs_current_size s + word_of_nat ?len\<rparr>"
  have le: "unat (rs_current_size s) + ?len \<le> unat (rs_max_size s)"
    using room rotating_add_len(1) [OF assms(2)] by (simp add: word_less_nat_alt)
  then have "\<not> rs_max_size s < rs_current_size s" by (simp add: word_less_nat_alt)
  with assms(1) obtain c where c: "fh_fd (rs_file_helper s) = Some ?base" "fs ?base = Some c" "length c \<le> unat (rs_current_size s)"
    by (auto simp: rotating_inv_def split: option.splits)
  obtain n where n: "n \<le> ?len" and w: "fh_write env m (rs_file_helper s) fs =
      Some (if n \<noteq> ?len then Some (spdlog_ex_errno env (''Failed writing to file '' @ fh_filename (rs_file_helper s))) else None,
        fs(?base \<mapsto> c @ take n (lm_formatted m)))"
    by (rule fh_write_open [of "rs_file_helper s" ?base fs c m env]) (use c in auto)
  show ?thesis unfolding logs_safely_def
  proof (rule rotating_outcome)
    show "rotating_sink_it env m s fs = Some (if n \<noteq> ?len then Some (spdlog_ex_errno env (''Failed writing to file '' @ fh_filename (rs_file_helper s))) else None,
        ?s1, fs(?base \<mapsto> c @ take n (lm_formatted m)))"
      using room w by (rule rotating_sink_it_plain)
    show "rotating_inv ?s1 (fs(?base \<mapsto> c @ take n (lm_formatted m)))"
      using assms(1) c n rotating_add_len(1) [OF assms(2)] by (simp add: rotating_inv_def)
    show "length c + ?len \<le> max (unat (rs_max_size s)) ?len" using c(3) le by simp
  qed (fact n)
qed



end
