(* ===== verification/Sinks.thy ===== *)
theory Sinks
  imports Logger
begin

text \<open>
  The other sinks of spdlog: those that drop messages, write to a stream or hand them to a
  logging service of the system, the one that colours what another sink writes and the one that
  passes messages on to several sinks. All of them are values of the record \<open>sink\<close>, so the
  helper and the loggers work on them as on the standard output.
\<close>

section \<open>Plain sinks\<close>

record null_sink =
  nu_level :: level_enum

definition null_sink_ops :: "null_sink sink" where
  "null_sink_ops = \<lparr>sk_level = nu_level, sk_log = (\<lambda>s m. (None, s)), sk_flush = (\<lambda>s. (None, s))\<rparr>"

text \<open>A stream with the default exception mask does not throw; it is one that keeps what it is given.\<close>

record ostream_sink =
  os_level :: level_enum
  os_ostream :: "string list"
  os_flushed :: nat
  os_force_flush :: bool

definition ostream_sink_new :: "bool \<Rightarrow> ostream_sink" where
  "ostream_sink_new force_flush = \<lparr>os_level = trace, os_ostream = [], os_flushed = 0, os_force_flush = force_flush\<rparr>"

definition ostream_flush :: "ostream_sink \<Rightarrow> exn option \<times> ostream_sink" where
  "ostream_flush s = (None, s\<lparr>os_flushed := length (os_ostream s)\<rparr>)"

definition ostream_sink_it :: "ostream_sink \<Rightarrow> log_msg \<Rightarrow> exn option \<times> ostream_sink" where
  "ostream_sink_it s m = (
     let s = s\<lparr>os_ostream := os_ostream s @ [lm_formatted m]\<rparr> in
     if os_force_flush s then ostream_flush s else (None, s))"

definition ostream_sink_ops :: "ostream_sink sink" where
  "ostream_sink_ops = \<lparr>sk_level = os_level, sk_log = ostream_sink_it, sk_flush = ostream_flush\<rparr>"

text \<open>What C reads of a string that is handed over by its first character.\<close>

definition c_str :: "string \<Rightarrow> string" where
  "c_str s = takeWhile (\<lambda>c. c \<noteq> CHR 0x00) s"

section \<open>System loggers\<close>

text \<open>The priorities of \<open>syslog.h\<close>, and the calls of \<open>syslog\<close> with their texts.\<close>

definition LOG_CRIT :: int where "LOG_CRIT = 2"
definition LOG_ERR :: int where "LOG_ERR = 3"
definition LOG_WARNING :: int where "LOG_WARNING = 4"
definition LOG_INFO :: int where "LOG_INFO = 6"
definition LOG_DEBUG :: int where "LOG_DEBUG = 7"

record syslog_sink =
  sy_level :: level_enum
  sy_priorities :: "int list"
  sy_ident :: string
  sy_openlog :: "string option \<times> int \<times> int"
  sy_syslog :: "(int \<times> string) list"

definition syslog_sink_new :: "string \<Rightarrow> int \<Rightarrow> int \<Rightarrow> syslog_sink" where
  "syslog_sink_new ident syslog_option syslog_facility =
     \<lparr>sy_level = trace, sy_priorities = [LOG_DEBUG, LOG_DEBUG, LOG_INFO, LOG_WARNING, LOG_ERR, LOG_CRIT, LOG_INFO],
      sy_ident = ident, sy_openlog = (if ident = [] then None else Some (c_str ident), syslog_option, syslog_facility),
      sy_syslog = []\<rparr>"

definition syslog_prio_from_level :: "syslog_sink \<Rightarrow> log_msg \<Rightarrow> int" where
  "syslog_prio_from_level s m = sy_priorities s ! level_num (lm_level m)"

definition syslog_log :: "syslog_sink \<Rightarrow> log_msg \<Rightarrow> exn option \<times> syslog_sink" where
  "syslog_log s m = (None, s\<lparr>sy_syslog := sy_syslog s @ [(syslog_prio_from_level s m, c_str (lm_raw m))]\<rparr>)"

definition syslog_sink_ops :: "syslog_sink sink" where
  "syslog_sink_ops = \<lparr>sk_level = sy_level, sk_log = syslog_log, sk_flush = (\<lambda>s. (None, s))\<rparr>"

datatype android_LogPriority =
  ANDROID_LOG_DEFAULT | ANDROID_LOG_VERBOSE | ANDROID_LOG_DEBUG | ANDROID_LOG_INFO | ANDROID_LOG_WARN
| ANDROID_LOG_ERROR | ANDROID_LOG_FATAL

fun convert_to_android :: "level_enum \<Rightarrow> android_LogPriority" where
  "convert_to_android trace = ANDROID_LOG_VERBOSE"
| "convert_to_android debug = ANDROID_LOG_DEBUG"
| "convert_to_android info = ANDROID_LOG_INFO"
| "convert_to_android warn = ANDROID_LOG_WARN"
| "convert_to_android err = ANDROID_LOG_ERROR"
| "convert_to_android critical = ANDROID_LOG_FATAL"
| "convert_to_android _ = ANDROID_LOG_DEFAULT"

text \<open>
  \<open>ret\<close> is what the \<open>n\<close>-th call of \<open>__android_log_write\<close> returns and \<open>strerror\<close> the text of an
  error number; a negative result means that nothing was written.
\<close>

record android_sink =
  an_level :: level_enum
  an_tag :: string
  an_calls :: nat
  an_written :: "(android_LogPriority \<times> string \<times> string) list"

definition android_log :: "(nat \<Rightarrow> int) \<Rightarrow> (int \<Rightarrow> string) \<Rightarrow> android_sink \<Rightarrow> log_msg \<Rightarrow> exn option \<times> android_sink" where
  "android_log ret strerror s m = (
     let priority = convert_to_android (lm_level m); r = ret (an_calls s); s = s\<lparr>an_calls := an_calls s + 1\<rparr> in
     if r < 0 then (Some (Spdlog_ex (''__android_log_write() failed'' @ '': '' @ strerror r)), s)
     else (None, s\<lparr>an_written := an_written s @ [(priority, c_str (an_tag s), c_str (lm_formatted m))]\<rparr>))"

definition android_sink_ops :: "(nat \<Rightarrow> int) \<Rightarrow> (int \<Rightarrow> string) \<Rightarrow> android_sink sink" where
  "android_sink_ops ret strerror = \<lparr>sk_level = an_level, sk_log = android_log ret strerror, sk_flush = (\<lambda>s. (None, s))\<rparr>"

text \<open>The debugger output of Windows, with the strings it is given.\<close>

record msvc_sink =
  ms_level :: level_enum
  ms_output :: "string list"

definition msvc_sink_it :: "msvc_sink \<Rightarrow> log_msg \<Rightarrow> exn option \<times> msvc_sink" where
  "msvc_sink_it s m = (None, s\<lparr>ms_output := ms_output s @ [c_str (lm_formatted m)]\<rparr>)"

definition msvc_sink_ops :: "msvc_sink sink" where
  "msvc_sink_ops = \<lparr>sk_level = ms_level, sk_log = msvc_sink_it, sk_flush = (\<lambda>s. (None, s))\<rparr>"

section \<open>Colours\<close>

definition esc :: "string \<Rightarrow> string" where
  "esc s = CHR 0x1B # ''['' @ s @ ''m''"

definition ansi_reset :: string where "ansi_reset = esc ''00''"
definition ansi_bold :: string where "ansi_bold = esc ''1''"
definition ansi_red :: string where "ansi_red = esc ''31''"
definition ansi_yellow :: string where "ansi_yellow = esc ''33''"
definition ansi_cyan :: string where "ansi_cyan = esc ''36''"
definition ansi_on_red :: string where "ansi_on_red = esc ''41''"

text \<open>A sink with the one it decorates; the map of colours is one by \<open>operator []\<close>, which adds missing keys.\<close>

record 's ansicolor_sink =
  ac_level :: level_enum
  ac_sink :: 's
  ac_colors :: "level_enum \<Rightarrow> string option"

definition ansicolor_sink_new :: "'s \<Rightarrow> 's ansicolor_sink" where
  "ansicolor_sink_new wrapped_sink =
     \<lparr>ac_level = trace, ac_sink = wrapped_sink,
      ac_colors = [trace \<mapsto> ansi_cyan, debug \<mapsto> ansi_cyan, info \<mapsto> ansi_bold, warn \<mapsto> ansi_yellow @ ansi_bold,
        err \<mapsto> ansi_red @ ansi_bold, critical \<mapsto> ansi_bold @ ansi_on_red, off \<mapsto> ansi_reset]\<rparr>"

definition color_of :: "(level_enum \<Rightarrow> string option) \<Rightarrow> level_enum \<Rightarrow> string" where
  "color_of colors l = (case colors l of Some c \<Rightarrow> c | None \<Rightarrow> [])"

definition paint :: "(level_enum \<Rightarrow> string option) \<Rightarrow> log_msg \<Rightarrow> log_msg" where
  "paint colors m = (log_msg_new (lm_logger_name m) (lm_level m) (lm_time m) (lm_thread_id m))
     \<lparr>lm_formatted := color_of colors (lm_level m) @ lm_formatted m @ ansi_reset\<rparr>"

definition ansicolor_log :: "'s sink \<Rightarrow> 's ansicolor_sink \<Rightarrow> log_msg \<Rightarrow> exn option \<times> 's ansicolor_sink" where
  "ansicolor_log ops s m = (
     let m' = paint (ac_colors s) m;
         s = s\<lparr>ac_colors := (ac_colors s)(lm_level m \<mapsto> color_of (ac_colors s) (lm_level m))\<rparr> in
     case sk_log ops (ac_sink s) m' of (ex, w) \<Rightarrow> (ex, s\<lparr>ac_sink := w\<rparr>))"

definition ansicolor_flush :: "'s sink \<Rightarrow> 's ansicolor_sink \<Rightarrow> exn option \<times> 's ansicolor_sink" where
  "ansicolor_flush ops s = (case sk_flush ops (ac_sink s) of (ex, w) \<Rightarrow> (ex, s\<lparr>ac_sink := w\<rparr>))"

definition set_color :: "level_enum \<Rightarrow> string \<Rightarrow> 's ansicolor_sink \<Rightarrow> 's ansicolor_sink" where
  "set_color color_level color s = s\<lparr>ac_colors := (ac_colors s)(color_level \<mapsto> color)\<rparr>"

definition ansicolor_sink_ops :: "'s sink \<Rightarrow> 's ansicolor_sink sink" where
  "ansicolor_sink_ops ops = \<lparr>sk_level = ac_level, sk_log = ansicolor_log ops, sk_flush = ansicolor_flush ops\<rparr>"

definition stdout_color_mt ::
    "format_env \<Rightarrow> int \<Rightarrow> std_sink \<Rightarrow> string \<Rightarrow> std_sink ansicolor_sink registry \<Rightarrow> exn + (nat \<times> std_sink ansicolor_sink registry)" where
  "stdout_color_mt env now stdout name r = registry_create env now name [ansicolor_sink_new stdout] r"

section \<open>Several sinks\<close>

text \<open>
  \<open>dist_sink\<close> keeps shared pointers to its sinks: indices into a list of all sink objects, which
  it changes in place. The same sink may be added more than once.
\<close>

record dist_sink =
  ds_level :: level_enum
  ds_sinks :: "nat list"

definition dist_sink_new :: dist_sink where
  "dist_sink_new = \<lparr>ds_level = trace, ds_sinks = []\<rparr>"

fun dist_log_loop :: "'s sink \<Rightarrow> log_msg \<Rightarrow> nat list \<Rightarrow> 's list \<Rightarrow> exn option \<times> 's list" where
  "dist_log_loop ops m [] heap = (None, heap)"
| "dist_log_loop ops m (p # ps) heap =
     (if sink_should_log ops (heap ! p) (lm_level m) then
        (case sk_log ops (heap ! p) m of
           (Some e, s) \<Rightarrow> (Some e, heap[p := s])
         | (None, s) \<Rightarrow> dist_log_loop ops m ps (heap[p := s]))
      else dist_log_loop ops m ps heap)"

fun dist_flush_loop :: "'s sink \<Rightarrow> nat list \<Rightarrow> 's list \<Rightarrow> exn option \<times> 's list" where
  "dist_flush_loop ops [] heap = (None, heap)"
| "dist_flush_loop ops (p # ps) heap =
     (case sk_flush ops (heap ! p) of
        (Some e, s) \<Rightarrow> (Some e, heap[p := s])
      | (None, s) \<Rightarrow> dist_flush_loop ops ps (heap[p := s]))"

definition dist_log :: "'s sink \<Rightarrow> dist_sink \<times> 's list \<Rightarrow> log_msg \<Rightarrow> exn option \<times> (dist_sink \<times> 's list)" where
  "dist_log ops = (\<lambda>(d, heap) m. case dist_log_loop ops m (ds_sinks d) heap of (ex, heap) \<Rightarrow> (ex, (d, heap)))"

definition dist_flush :: "'s sink \<Rightarrow> dist_sink \<times> 's list \<Rightarrow> exn option \<times> (dist_sink \<times> 's list)" where
  "dist_flush ops = (\<lambda>(d, heap). case dist_flush_loop ops (ds_sinks d) heap of (ex, heap) \<Rightarrow> (ex, (d, heap)))"

definition dist_sink_ops :: "'s sink \<Rightarrow> (dist_sink \<times> 's list) sink" where
  "dist_sink_ops ops = \<lparr>sk_level = (\<lambda>(d, heap). ds_level d), sk_log = dist_log ops, sk_flush = dist_flush ops\<rparr>"

definition add_sink :: "nat \<Rightarrow> dist_sink \<Rightarrow> dist_sink" where
  "add_sink p d = d\<lparr>ds_sinks := ds_sinks d @ [p]\<rparr>"

definition remove_sink :: "nat \<Rightarrow> dist_sink \<Rightarrow> dist_sink" where
  "remove_sink p d = d\<lparr>ds_sinks := filter (\<lambda>q. q \<noteq> p) (ds_sinks d)\<rparr>"

text \<open>The calls on a \<open>dist_sink\<close>, each under its mutex.\<close>

datatype dist_call = Call_add nat | Call_remove nat | Call_log log_msg | Call_flush

fun dist_call_step :: "'s sink \<Rightarrow> dist_call \<Rightarrow> dist_sink \<times> 's list \<Rightarrow> exn option \<times> (dist_sink \<times> 's list)" where
  "dist_call_step ops (Call_add p) (d, heap) = (None, (add_sink p d, heap))"
| "dist_call_step ops (Call_remove p) (d, heap) = (None, (remove_sink p d, heap))"
| "dist_call_step ops (Call_log m) (d, heap) = dist_log ops (d, heap) m"
| "dist_call_step ops Call_flush (d, heap) = dist_flush ops (d, heap)"

fun dist_run :: "'s sink \<Rightarrow> dist_call list \<Rightarrow> dist_sink \<times> 's list \<Rightarrow> exn option \<times> (dist_sink \<times> 's list)" where
  "dist_run ops [] x = (None, x)"
| "dist_run ops (c # cs) x = (case dist_call_step ops c x of
       (Some e, x) \<Rightarrow> (Some e, x)
     | (None, x) \<Rightarrow> dist_run ops cs x)"

text \<open>
  What one sink should get out of the calls: the messages, each as often as the sink was added
  since it was last removed.
\<close>

fun dist_feed :: "nat \<Rightarrow> nat \<Rightarrow> dist_call list \<Rightarrow> log_msg list" where
  "dist_feed p n [] = []"
| "dist_feed p n (Call_add q # cs) = dist_feed p (if q = p then n + 1 else n) cs"
| "dist_feed p n (Call_remove q # cs) = dist_feed p (if q = p then 0 else n) cs"
| "dist_feed p n (Call_log m # cs) = replicate n m @ dist_feed p n cs"
| "dist_feed p n (Call_flush # cs) = dist_feed p n cs"

definition dist_pointers_ok :: "dist_sink \<times> 's list \<Rightarrow> dist_call list \<Rightarrow> bool" where
  "dist_pointers_ok x cs \<longleftrightarrow> (\<forall>p \<in> set (ds_sinks (fst x)). p < length (snd x)) \<and> (\<forall>p. Call_add p \<in> set cs \<longrightarrow> p < length (snd x))"

section \<open>Contracts\<close>

lemma color_of_add [simp]: "color_of (colors(l \<mapsto> color_of colors l)) = color_of colors"
  by (auto simp: color_of_def)

lemma paint_add [simp]: "paint (colors(l \<mapsto> color_of colors l)) = paint colors"
  by (simp add: paint_def fun_eq_iff)

lemma count_list_removed: "count_list (filter (\<lambda>q. q \<noteq> r) ps) p = (if p = r then 0 else count_list ps p)"
  by (induction ps) auto

lemma all_delivered_trans:
  "\<forall>p < n. delivered ops shows_as written (f p) (h ! p) (h1 ! p) \<Longrightarrow> \<forall>p < n. delivered ops shows_as written (g p) (h1 ! p) (h2 ! p) \<Longrightarrow>
   \<forall>p < n. delivered ops shows_as written (f p @ g p) (h ! p) (h2 ! p)"
  by (blast intro: delivered_trans)

context sink_contract
begin

text \<open>Colouring a sink that keeps the contract gives one that keeps it, with coloured texts.\<close>

lemma ansicolor_contract:
  "sink_contract (ansicolor_sink_ops ops) (\<lambda>s m. shows_as (ac_sink s) (paint (ac_colors s) m)) (\<lambda>s. written (ac_sink s))"
proof unfold_locales
  fix s :: "'s ansicolor_sink" and m
  obtain w where "sk_log ops (ac_sink s) (paint (ac_colors s) m) = (None, w)"
    "written w = written (ac_sink s) @ [shows_as (ac_sink s) (paint (ac_colors s) m)]" "shows_as w = shows_as (ac_sink s)"
    using log_appends by blast
  then show "\<exists>s'. sk_log (ansicolor_sink_ops ops) s m = (None, s') \<and>
      written (ac_sink s') = written (ac_sink s) @ [shows_as (ac_sink s) (paint (ac_colors s) m)] \<and>
      sk_level (ansicolor_sink_ops ops) s' = sk_level (ansicolor_sink_ops ops) s \<and>
      (\<lambda>m. shows_as (ac_sink s') (paint (ac_colors s') m)) = (\<lambda>m. shows_as (ac_sink s) (paint (ac_colors s) m))"
    by (simp add: ansicolor_sink_ops_def ansicolor_log_def Let_def)
next
  fix s :: "'s ansicolor_sink"
  obtain w where "sk_flush ops (ac_sink s) = (None, w)" "written w = written (ac_sink s)" "shows_as w = shows_as (ac_sink s)"
    using flush_keeps by blast
  then show "\<exists>s'. sk_flush (ansicolor_sink_ops ops) s = (None, s') \<and> written (ac_sink s') = written (ac_sink s) \<and>
      sk_level (ansicolor_sink_ops ops) s' = sk_level (ansicolor_sink_ops ops) s \<and>
      (\<lambda>m. shows_as (ac_sink s') (paint (ac_colors s') m)) = (\<lambda>m. shows_as (ac_sink s) (paint (ac_colors s) m))"
    by (simp add: ansicolor_sink_ops_def ansicolor_flush_def)
qed

lemma dist_loop_delivers:
  "\<forall>p \<in> set ps. p < length heap \<Longrightarrow> \<exists>heap'. dist_log_loop ops m ps heap = (None, heap') \<and> length heap' = length heap \<and>
     (\<forall>p < length heap. delivered ops shows_as written (replicate (count_list ps p) m) (heap ! p) (heap' ! p))"
proof (induction ps arbitrary: heap)
  case (Cons q ps)
  then have q: "q < length heap" by simp
  define h1 where "h1 = (if sink_should_log ops (heap ! q) (lm_level m) then heap[q := snd (sk_log ops (heap ! q) m)] else heap)"
  obtain s' where s': "sk_log ops (heap ! q) m = (None, s')" "delivered ops shows_as written
      (if sink_should_log ops (heap ! q) (lm_level m) then [m] else []) (heap ! q) (if sink_should_log ops (heap ! q) (lm_level m) then s' else heap ! q)"
    using log_appends [of "heap ! q" m] by (auto simp: delivered_def sink_should_log_def)
  have h1: "delivered ops shows_as written (if p = q then [m] else []) (heap ! p) (h1 ! p)" if "p < length heap" for p
    using s' that q log_appends [of "heap ! q" m] by (auto simp: h1_def delivered_def sink_should_log_def nth_list_update)
  have l1: "length h1 = length heap" by (simp add: h1_def)
  obtain heap' where h': "dist_log_loop ops m ps h1 = (None, heap')" "length heap' = length h1"
    "\<forall>p < length h1. delivered ops shows_as written (replicate (count_list ps p) m) (h1 ! p) (heap' ! p)"
    using Cons.IH [of h1] Cons.prems l1 by auto
  have "dist_log_loop ops m (q # ps) heap = (None, heap')"
    using h'(1) s'(1) by (cases "sink_should_log ops (heap ! q) (lm_level m)") (simp_all add: h1_def)
  moreover have "delivered ops shows_as written (replicate (count_list (q # ps) p) m) (heap ! p) (heap' ! p)"
    if p: "p < length heap" for p
  proof -
    have "delivered ops shows_as written (replicate (count_list ps p) m) (h1 ! p) (heap' ! p)" using h'(3) p l1 by simp
    from delivered_trans [OF h1 [OF p] this] show ?thesis by (cases "p = q") auto
  qed
  ultimately show ?case using h'(2) l1 by auto
qed (simp add: delivered_refl)

lemma dist_flush_delivers:
  "\<forall>p \<in> set ps. p < length heap \<Longrightarrow> \<exists>heap'. dist_flush_loop ops ps heap = (None, heap') \<and> length heap' = length heap \<and>
     (\<forall>p < length heap. delivered ops shows_as written [] (heap ! p) (heap' ! p))"
proof (induction ps arbitrary: heap)
  case (Cons q ps)
  obtain s' where s': "sk_flush ops (heap ! q) = (None, s')" "delivered ops shows_as written [] (heap ! q) s'"
    using flush_keeps [of "heap ! q"] by (auto simp: delivered_def)
  obtain heap' where h': "dist_flush_loop ops ps (heap[q := s']) = (None, heap')" "length heap' = length heap"
    "\<forall>p < length heap. delivered ops shows_as written [] (heap[q := s'] ! p) (heap' ! p)"
    using Cons.IH [of "heap[q := s']"] Cons.prems by auto
  have "delivered ops shows_as written [] (heap ! p) (heap' ! p)" if p: "p < length heap" for p
    using h'(3) [rule_format, OF p] s'(2) p by (cases "p = q") (auto simp: delivered_def)
  with h' s'(1) show ?case by auto
qed (simp add: delivered_refl)

lemma dist_run_delivers:
  assumes "dist_pointers_ok (d, heap) cs"
  shows "\<exists>d' heap'. dist_run ops cs (d, heap) = (None, (d', heap')) \<and> length heap' = length heap \<and>
    (\<forall>p < length heap. delivered ops shows_as written (dist_feed p (count_list (ds_sinks d) p) cs) (heap ! p) (heap' ! p))"
  using assms
proof (induction cs arbitrary: d heap)
  case Nil
  then show ?case by (simp add: delivered_refl)
next
  case (Cons c cs)
  show ?case
  proof (cases c)
    case (Call_add q)
    then have "dist_pointers_ok (add_sink q d, heap) cs" using Cons.prems by (auto simp: dist_pointers_ok_def add_sink_def)
    from Cons.IH [OF this] Call_add show ?thesis by (simp add: add_sink_def if_distrib cong: if_cong)
  next
    case (Call_remove q)
    then have "dist_pointers_ok (remove_sink q d, heap) cs" using Cons.prems by (auto simp: dist_pointers_ok_def remove_sink_def)
    from Cons.IH [OF this] Call_remove show ?thesis by (simp add: remove_sink_def count_list_removed eq_commute cong: if_cong)
  next
    case (Call_log m)
    have "\<forall>p \<in> set (ds_sinks d). p < length heap" using Cons.prems by (simp add: dist_pointers_ok_def)
    from dist_loop_delivers [OF this, of m] obtain h1 where h1: "dist_log_loop ops m (ds_sinks d) heap = (None, h1)"
      "length h1 = length heap" "\<forall>p < length heap. delivered ops shows_as written (replicate (count_list (ds_sinks d) p) m) (heap ! p) (h1 ! p)"
      by blast
    have "dist_pointers_ok (d, h1) cs" using Cons.prems h1(2) by (auto simp: dist_pointers_ok_def)
    from Cons.IH [OF this] h1(2) obtain d2 h2 where r: "dist_run ops cs (d, h1) = (None, (d2, h2))" "length h2 = length heap"
      "\<forall>p < length heap. delivered ops shows_as written (dist_feed p (count_list (ds_sinks d) p) cs) (h1 ! p) (h2 ! p)" by auto
    from all_delivered_trans [OF h1(3) r(3)] r(1,2) h1(1) Call_log show ?thesis by (simp add: dist_log_def)
  next
    case Call_flush
    have "\<forall>p \<in> set (ds_sinks d). p < length heap" using Cons.prems by (simp add: dist_pointers_ok_def)
    from dist_flush_delivers [OF this] obtain h1 where h1: "dist_flush_loop ops (ds_sinks d) heap = (None, h1)"
      "length h1 = length heap" "\<forall>p < length heap. delivered ops shows_as written [] (heap ! p) (h1 ! p)"
      by blast
    have "dist_pointers_ok (d, h1) cs" using Cons.prems h1(2) by (auto simp: dist_pointers_ok_def)
    from Cons.IH [OF this] h1(2) obtain d2 h2 where r: "dist_run ops cs (d, h1) = (None, (d2, h2))" "length h2 = length heap"
      "\<forall>p < length heap. delivered ops shows_as written (dist_feed p (count_list (ds_sinks d) p) cs) (h1 ! p) (h2 ! p)" by auto
    from all_delivered_trans [OF h1(3) r(3)] r(1,2) h1(1) Call_flush show ?thesis by (simp add: dist_flush_def)
  qed
qed

end

lemma ostream_sink_contract: "sink_contract ostream_sink_ops (\<lambda>_. lm_formatted) os_ostream"
  by unfold_locales (simp_all add: ostream_sink_ops_def ostream_sink_it_def ostream_flush_def Let_def)

interpretation ostream_sinks: sink_contract ostream_sink_ops "\<lambda>_. lm_formatted" os_ostream
  by (rule ostream_sink_contract)

text \<open>The service of the system gets the raw text, not the formatted line.\<close>

lemma syslog_sink_contract: "sink_contract syslog_sink_ops (\<lambda>_ m. c_str (lm_raw m)) (\<lambda>s. map snd (sy_syslog s))"
  by unfold_locales (simp_all add: syslog_sink_ops_def syslog_log_def)

interpretation syslog_sinks: sink_contract syslog_sink_ops "\<lambda>_ m. c_str (lm_raw m)" "\<lambda>s. map snd (sy_syslog s)"
  by (rule syslog_sink_contract)

lemma msvc_sink_contract: "sink_contract msvc_sink_ops (\<lambda>_ m. c_str (lm_formatted m)) ms_output"
  by unfold_locales (simp_all add: msvc_sink_ops_def msvc_sink_it_def)

interpretation msvc_sinks: sink_contract msvc_sink_ops "\<lambda>_ m. c_str (lm_formatted m)" ms_output
  by (rule msvc_sink_contract)

interpretation color_sinks: sink_contract "ansicolor_sink_ops std_sink_ops"
    "\<lambda>s m. lm_formatted (paint (ac_colors s) m)" "\<lambda>s. ss_written (ac_sink s)"
  by (rule std_sinks.ansicolor_contract)

interpretation color_logging: async_logging "enqueue fails" "dequeue fails" "mpmc_holds b" "2 ^ b" "ansicolor_sink_ops std_sink_ops"
    "\<lambda>s m. lm_formatted (paint (ac_colors s) m)" "\<lambda>s. ss_written (ac_sink s)" for fails b
  by (rule async_logging.intro [OF mpmc_bounded_queue_ok std_sinks.ansicolor_contract])

text \<open>
  A coloured message has no raw text: the system logger under a colouring sink gets empty texts.
\<close>

lemma colored_syslog_is_empty:
  "sk_log (ansicolor_sink_ops syslog_sink_ops) s m = (ex, s') \<Longrightarrow>
   map snd (sy_syslog (ac_sink s')) = map snd (sy_syslog (ac_sink s)) @ [[]]"
  by (auto simp: ansicolor_sink_ops_def ansicolor_log_def syslog_sink_ops_def syslog_log_def paint_def log_msg_new_def c_str_def Let_def)

section \<open>Properties\<close>

lemma run_colored:
  assumes "async_run (enqueue fails) (dequeue fails) (ansicolor_sink_ops std_sink_ops) h0 ms h" and "fresh_helper b f h0"
  shows "\<exists>dn pending. ms = dn @ pending \<and> mpmc_holds b (al_q h) pending \<and>
    list_all2 (\<lambda>s s'. ss_written (ac_sink s') = ss_written (ac_sink s) @
        map (\<lambda>m. color_of (ac_colors s) (lm_level m) @ lm_formatted m @ ansi_reset) (filter (\<lambda>m. lm_level m \<ge> ac_level s) (log_msgs f dn)))
      (al_sinks h0) (al_sinks h)"
proof -
  let ?ops = "ansicolor_sink_ops std_sink_ops" and ?shows = "\<lambda>s m. lm_formatted (paint (ac_colors s) m)"
    and ?written = "\<lambda>s :: std_sink ansicolor_sink. ss_written (ac_sink s)"
  obtain dn pending where I: "async_inv (mpmc_holds b) ?ops ?shows ?written f (al_sinks h0) ms dn pending h"
    using color_logging.run_inv [OF assms(1)] assms(2) unfolding fresh_helper_def by metis
  then have "list_all2 (delivered ?ops ?shows ?written (log_msgs f dn)) (al_sinks h0) (al_sinks h)"
    by (simp add: async_inv_def)
  then have "list_all2 (\<lambda>s s'. ss_written (ac_sink s') = ss_written (ac_sink s) @
        map (\<lambda>m. color_of (ac_colors s) (lm_level m) @ lm_formatted m @ ansi_reset) (filter (\<lambda>m. lm_level m \<ge> ac_level s) (log_msgs f dn)))
      (al_sinks h0) (al_sinks h)"
    by (rule list_all2_mono) (simp add: delivered_def ansicolor_sink_ops_def paint_def)
  with I show ?thesis by (auto simp: async_inv_def)
qed

text \<open>
  (C34) A \<open>dist_sink\<close> feeds its sinks. Over any sequence of adding and removing sinks, logging and
  flushing, nothing throws and every sink object has written the formatted messages of its own
  level, each as often as the object was added since it was last removed, and nothing else.
\<close>

theorem dist_sink_feeds:
  assumes "dist_pointers_ok (d, heap) cs"
  shows "\<exists>d' heap'. dist_run std_sink_ops cs (d, heap) = (None, (d', heap')) \<and> length heap' = length heap \<and>
    (\<forall>p < length heap. ss_written (heap' ! p) = ss_written (heap ! p) @
       map lm_formatted (filter (\<lambda>m. lm_level m \<ge> ss_level (heap ! p)) (dist_feed p (count_list (ds_sinks d) p) cs)))"
  using std_sinks.dist_run_delivers [OF assms] by (auto simp: delivered_def std_sink_ops_def)

definition sample_line :: "level_enum \<Rightarrow> string \<Rightarrow> log_msg" where
  "sample_line lvl s = (log_msg_new ''tcp'' lvl 0 1)\<lparr>lm_formatted := s\<rparr>"

theorem dist_sink_feeds_witness:
  "\<exists>d' heap'. dist_run std_sink_ops
      [Call_add 0, Call_add 1, Call_log (sample_line info ''a''), Call_add 0, Call_log (sample_line warn ''b''), Call_remove 0,
       Call_log (sample_line err ''c'')] (dist_sink_new, [std_sink_new, std_sink_new\<lparr>ss_level := warn\<rparr>]) = (None, (d', heap')) \<and>
     ss_written (heap' ! 0) = [''a'', ''b'', ''b''] \<and> ss_written (heap' ! 1) = [''b'', ''c'']"
  using dist_sink_feeds [of dist_sink_new "[std_sink_new, std_sink_new\<lparr>ss_level := warn\<rparr>]"
      "[Call_add 0, Call_add 1, Call_log (sample_line info ''a''), Call_add 0, Call_log (sample_line warn ''b''), Call_remove 0,
        Call_log (sample_line err ''c'')]"]
  by (auto simp: dist_pointers_ok_def dist_sink_new_def std_sink_new_def sample_line_def log_msg_new_def numeral_2_eq_2
      less_eq_level_enum_def All_less_Suc)

end
