(* ===== verification/Fmt_Printf.thy ===== *)
theory Fmt_Printf
  imports Fmt_Format
begin

text \<open>
  The \<open>printf\<close> front end of the bundled fmt library, and the error codes it prints: directives
  with flags, width, precision and length modifiers, the conversion of integer arguments to
  the type a directive names, and the formatter for printf arguments. Types have their sizes on
  64-bit Linux; arguments of user-defined types and wide strings are left out.
\<close>

text \<open>Chaining of operations that may be undefined or throw.\<close>

definition bind_fmt :: "(exn + 'a) option \<Rightarrow> ('a \<Rightarrow> (exn + 'b) option) \<Rightarrow> (exn + 'b) option" where
  "bind_fmt m f = (case m of None \<Rightarrow> None | Some (Inl e) \<Rightarrow> Some (Inl e) | Some (Inr x) \<Rightarrow> f x)"

lemma bind_fmt_simps [simp]:
  "bind_fmt None f = None" "bind_fmt (Some (Inl e)) f = Some (Inl e)" "bind_fmt (Some (Inr x)) f = f x"
  by (simp_all add: bind_fmt_def)

lemma bind_fmt_InrE:
  assumes "bind_fmt m f = Some (Inr y)"
  obtains x where "m = Some (Inr x)" "f x = Some (Inr y)"
  using assms by (auto simp: bind_fmt_def split: option.splits sum.splits)

section \<open>Visitors\<close>

text \<open>
  The arguments that are visited as integers, with their type and value. Visiting an argument
  of no type or a nested named one breaks an assertion, \<open>None\<close>.
\<close>

fun int_arg :: "'d Arg \<Rightarrow> (int_type \<times> int) option" where
  "int_arg (Arg_INT v) = Some (Int_t, v)"
| "int_arg (Arg_UINT v) = Some (UInt_t, v)"
| "int_arg (Arg_LONG_LONG v) = Some (LongLong_t, v)"
| "int_arg (Arg_ULONG_LONG v) = Some (ULongLong_t, v)"
| "int_arg (Arg_BOOL v) = Some (UInt_t, of_bool v)"
| "int_arg (Arg_CHAR c) = Some (Int_t, char_int c)"
| "int_arg a = None"

fun can_visit :: "'d Arg \<Rightarrow> bool" where
  "can_visit Arg_NONE = False"
| "can_visit (Arg_NAMED_ARG n a) = False"
| "can_visit a = True"

definition IsZeroInt :: "'d Arg \<Rightarrow> bool option" where
  "IsZeroInt a = (if can_visit a then Some (case int_arg a of Some (t, v) \<Rightarrow> v = 0 | None \<Rightarrow> False) else None)"

text \<open>The width comes with the specifier: a negative one also sets left alignment.\<close>

definition WidthHandler :: "FormatSpec \<Rightarrow> 'd Arg \<Rightarrow> (exn + (nat \<times> FormatSpec)) option" where
  "WidthHandler spec a =
     (if \<not> can_visit a then None
      else Some (case int_arg a of
          None \<Rightarrow> Inl (Format_error ''width is not integer'')
        | Some (t, v) \<Rightarrow>
            (let spec = (if v < 0 then spec\<lparr>fs_align := ALIGN_LEFT\<rparr> else spec); width = abs_value t v in
             if int width > int_max then Inl (Format_error ''number is too big'') else Inr (width, spec))))"

definition PrecisionHandler :: "'d Arg \<Rightarrow> (exn + int) option" where
  "PrecisionHandler a =
     (if \<not> can_visit a then None
      else Some (case int_arg a of
          None \<Rightarrow> Inl (Format_error ''precision is not integer'')
        | Some (t, v) \<Rightarrow> if \<not> (int_min \<le> v \<and> v \<le> int_max) then Inl (Format_error ''number is too big'') else Inr v))"

text \<open>The type a length modifier names: of some size in bytes, that of the argument, or no conversion.\<close>

datatype printf_length = Convert_to nat | Convert_void | No_conversion

definition to_signed :: "nat \<Rightarrow> int \<Rightarrow> int" where
  "to_signed w v = (v + 2 ^ (w - 1)) mod 2 ^ w - 2 ^ (w - 1)"

definition convert_int :: "printf_length \<Rightarrow> bool \<Rightarrow> int_type \<Rightarrow> int \<Rightarrow> 'd Arg" where
  "convert_int target is_signed t v = (
     let size = (case target of Convert_to n \<Rightarrow> n | _ \<Rightarrow> main_bits t div 8) in
     if size \<le> 4 then
       (if is_signed then Arg_INT (to_signed (8 * size) v) else Arg_UINT (v mod 2 ^ (8 * size)))
     else if is_signed then Arg_LONG_LONG (to_signed 64 v)
     else Arg_ULONG_LONG (v mod 2 ^ main_bits t))"

definition ArgConverter :: "printf_length \<Rightarrow> char \<Rightarrow> 'd Arg \<Rightarrow> 'd Arg option" where
  "ArgConverter target type a =
     (if \<not> can_visit a then None
      else Some (case (a, int_arg a) of
          (Arg_BOOL v, _) \<Rightarrow> if type \<noteq> CHR ''s'' then convert_int target (type = CHR ''d'' \<or> type = CHR ''i'') UInt_t (of_bool v) else a
        | (_, Some (t, v)) \<Rightarrow> convert_int target (type = CHR ''d'' \<or> type = CHR ''i'') t v
        | (_, None) \<Rightarrow> a))"

definition CharConverter :: "'d Arg \<Rightarrow> 'd Arg option" where
  "CharConverter a =
     (if \<not> can_visit a then None
      else Some (case int_arg a of Some (t, v) \<Rightarrow> Arg_CHAR (char_of (nat (v mod 256))) | None \<Rightarrow> a))"

section \<open>Formatting an argument\<close>

text \<open>\<open>visit_char\<close> goes on after it has written the number of another type code.\<close>

definition printf_put_char :: "buffer_env \<Rightarrow> char \<Rightarrow> FormatSpec \<Rightarrow> string \<Rightarrow> (exn + string) option" where
  "printf_put_char g c spec b = (
     let width = fs_width spec in do {
     (out, b) \<leftarrow>
       (if width > 1 then (
          let (out, b) = grow_buffer g width b in
          if fs_align spec \<noteq> ALIGN_LEFT then do {
            b \<leftarrow> fill_to out (width - 1) (CHR '' '') b;
            Some (out + (width - 1), b)
          }
          else do {
            b \<leftarrow> fill_to (out + 1) (width - 1) (CHR '' '') b;
            Some (out, b)
          })
        else Some (grow_buffer g 1 b));
     map_option Inr (copy_to out [c] b)
   })"

definition printf_char :: "buffer_env \<Rightarrow> string \<Rightarrow> char \<Rightarrow> FormatSpec \<Rightarrow> string \<Rightarrow> (exn + string) option" where
  "printf_char g sep c spec b =
     bind_fmt (if fs_type spec \<noteq> CHR 0x00 \<and> fs_type spec \<noteq> CHR ''c'' then write_int g sep Int_t (char_int c) spec b else Some (Inr b))
       (printf_put_char g c spec)"

definition write_null_pointer :: "buffer_env \<Rightarrow> FormatSpec \<Rightarrow> string \<Rightarrow> (exn + string) option" where
  "write_null_pointer g spec b = write_str_value g (Some ''(nil)'') (spec\<lparr>fs_type := CHR 0x00\<rparr>) b"

fun printf_visit ::
    "buffer_env \<Rightarrow> string \<Rightarrow> ('d \<Rightarrow> FormatSpec \<Rightarrow> string \<Rightarrow> (exn + string) option) \<Rightarrow> 'd Arg \<Rightarrow> FormatSpec \<Rightarrow> string \<Rightarrow>
     (exn + string) option" where
  "printf_visit g sep wd Arg_NONE spec b = None"
| "printf_visit g sep wd (Arg_NAMED_ARG n a) spec b = None"
| "printf_visit g sep wd (Arg_INT v) spec b = write_int g sep Int_t v spec b"
| "printf_visit g sep wd (Arg_UINT v) spec b = write_int g sep UInt_t v spec b"
| "printf_visit g sep wd (Arg_LONG_LONG v) spec b = write_int g sep LongLong_t v spec b"
| "printf_visit g sep wd (Arg_ULONG_LONG v) spec b = write_int g sep ULongLong_t v spec b"
| "printf_visit g sep wd (Arg_BOOL v) spec b =
     (if fs_type spec \<noteq> CHR ''s'' then write_int g sep UInt_t (of_bool v) spec b
      else write_bool g v (spec\<lparr>fs_type := CHR 0x00\<rparr>) b)"
| "printf_visit g sep wd (Arg_CHAR c) spec b = printf_char g sep c spec b"
| "printf_visit g sep wd (Arg_DOUBLE d) spec b = wd d spec b"
| "printf_visit g sep wd (Arg_CSTRING p s) spec b =
     (if s \<noteq> None then visit_cstring g sep p s spec b
      else if fs_type spec = CHR ''p'' then write_null_pointer g spec b
      else write_str_value g (Some ''(null)'') spec b)"
| "printf_visit g sep wd (Arg_STRING s) spec b = write_str_value g (Some s) spec b"
| "printf_visit g sep wd (Arg_POINTER p) spec b =
     (if p \<noteq> 0 then visit_pointer g sep p spec b else write_null_pointer g spec b)"

section \<open>Parsing directives\<close>

fun printf_parse_flags :: "FormatSpec \<Rightarrow> string \<Rightarrow> FormatSpec \<times> string" where
  "printf_parse_flags spec [] = (spec, [])"
| "printf_parse_flags spec (c # s) =
     (if c = CHR ''-'' then printf_parse_flags (spec\<lparr>fs_align := ALIGN_LEFT\<rparr>) s
      else if c = CHR ''+'' then printf_parse_flags (add_flag (SIGN_FLAG OR PLUS_FLAG) spec) s
      else if c = CHR ''0'' then printf_parse_flags (spec\<lparr>fs_fill := CHR ''0''\<rparr>) s
      else if c = CHR '' '' then printf_parse_flags (add_flag SIGN_FLAG spec) s
      else if c = CHR ''#'' then printf_parse_flags (add_flag HASH_FLAG spec) s
      else (spec, c # s))"

text \<open>The index \<open>None\<close> asks for the next argument; subtracting one from the index \<open>0\<close> wraps.\<close>

definition printf_get_arg :: "'d Arg list \<Rightarrow> string \<Rightarrow> nat option \<Rightarrow> int \<Rightarrow> exn + ('d Arg \<times> int)" where
  "printf_get_arg args s arg_index n =
     (case (case arg_index of None \<Rightarrow> next_arg args n | Some i \<Rightarrow> get_arg args ((i + (2 ^ 32 - 1)) mod 2 ^ 32) n) of
        (Inl e, n) \<Rightarrow> Inl (Format_error (if s = [] then ''invalid format string'' else e))
      | (Inr a, n) \<Rightarrow> Inr (a, n))"

definition printf_parse_width ::
    "'d Arg list \<Rightarrow> int \<Rightarrow> string \<Rightarrow> FormatSpec \<Rightarrow> (exn + (int \<times> string \<times> FormatSpec)) option" where
  "printf_parse_width args n s spec =
     (if isdigit (peek s) then
        Some (bind_exn (parse_nonnegative_int s) (\<lambda>(w, s). Inr (n, s, spec\<lparr>fs_width := w\<rparr>)))
      else if peek s = CHR ''*'' then
        bind_fmt (Some (printf_get_arg args (tl s) None n)) (\<lambda>(a, n).
        bind_fmt (WidthHandler spec a) (\<lambda>(w, spec). Some (Inr (n, tl s, spec\<lparr>fs_width := w\<rparr>))))
      else Some (Inr (n, s, spec)))"

definition parse_header ::
    "'d Arg list \<Rightarrow> int \<Rightarrow> string \<Rightarrow> FormatSpec \<Rightarrow> (exn + (nat option \<times> int \<times> string \<times> FormatSpec)) option" where
  "parse_header args n s spec =
     bind_fmt
       (if isdigit (peek s) then
          Some (bind_exn (parse_nonnegative_int s) (\<lambda>(value, s').
            if peek s' = CHR ''$'' then Inr (Some value, False, tl s', spec)
            else (let spec = (if peek s = CHR ''0'' then spec\<lparr>fs_fill := CHR ''0''\<rparr> else spec) in
              if value \<noteq> 0 then Inr (None, True, s', spec\<lparr>fs_width := value\<rparr>) else Inr (None, False, s', spec))))
        else Some (Inr (None, False, s, spec)))
       (\<lambda>(arg_index, finished, s, spec).
          if finished then Some (Inr (arg_index, n, s, spec))
          else (case printf_parse_flags spec s of (spec, s) \<Rightarrow>
            bind_fmt (printf_parse_width args n s spec) (\<lambda>(n, s, spec). Some (Inr (arg_index, n, s, spec)))))"

definition printf_parse_precision ::
    "'d Arg list \<Rightarrow> int \<Rightarrow> string \<Rightarrow> FormatSpec \<Rightarrow> (exn + (int \<times> string \<times> FormatSpec)) option" where
  "printf_parse_precision args n s spec =
     (if peek s \<noteq> CHR ''.'' then Some (Inr (n, s, spec))
      else (let s = tl s in
        if isdigit (peek s) then
          Some (bind_exn (parse_nonnegative_int s) (\<lambda>(p, s). Inr (n, s, spec\<lparr>fs_precision := int p\<rparr>)))
        else if peek s = CHR ''*'' then
          bind_fmt (Some (printf_get_arg args (tl s) None n)) (\<lambda>(a, n).
          bind_fmt (PrecisionHandler a) (\<lambda>p. Some (Inr (n, tl s, spec\<lparr>fs_precision := p\<rparr>))))
        else Some (Inr (n, s, spec))))"

text \<open>The flags \<open>#\<close> and \<open>0\<close> do not apply to every argument.\<close>

definition adjust_flags :: "'d Arg \<Rightarrow> FormatSpec \<Rightarrow> FormatSpec option" where
  "adjust_flags a spec = do {
     spec \<leftarrow> (if fs_flag spec HASH_FLAG
        then map_option (\<lambda>z. if z then spec\<lparr>fs_flags := fs_flags spec - HASH_FLAG\<rparr> else spec) (IsZeroInt a) else Some spec);
     Some (if fs_fill spec = CHR ''0''
       then (if Arg_type a \<le> LAST_NUMERIC_TYPE then spec\<lparr>fs_align := ALIGN_NUMERIC\<rparr> else spec\<lparr>fs_fill := CHR '' ''\<rparr>)
       else spec)
   }"

definition parse_length :: "string \<Rightarrow> printf_length \<times> string" where
  "parse_length s =
     (if peek s = CHR ''h'' then (if peek (tl s) = CHR ''h'' then (Convert_to 1, tl (tl s)) else (Convert_to 2, tl s))
      else if peek s = CHR ''l'' then (if peek (tl s) = CHR ''l'' then (Convert_to 8, tl (tl s)) else (Convert_to 8, tl s))
      else if peek s = CHR ''j'' \<or> peek s = CHR ''z'' \<or> peek s = CHR ''t'' then (Convert_to 8, tl s)
      else if peek s = CHR ''L'' then (No_conversion, tl s)
      else (Convert_void, s))"

definition convert_arg :: "printf_length \<Rightarrow> char \<Rightarrow> 'd Arg \<Rightarrow> 'd Arg option" where
  "convert_arg target type a = (if target = No_conversion then Some a else ArgConverter target type a)"

text \<open>The type code, with \<open>i\<close> and \<open>u\<close> normalised, and the argument converted to a character for \<open>c\<close>.\<close>

definition normalize_type :: "char \<Rightarrow> 'd Arg \<Rightarrow> FormatSpec \<Rightarrow> ('d Arg \<times> FormatSpec) option" where
  "normalize_type type a spec =
     (if Arg_type a \<le> LAST_INTEGER_TYPE then
        (if type = CHR ''i'' \<or> type = CHR ''u'' then Some (a, spec\<lparr>fs_type := CHR ''d''\<rparr>)
         else if type = CHR ''c'' then map_option (\<lambda>a. (a, spec\<lparr>fs_type := type\<rparr>)) (CharConverter a)
         else Some (a, spec\<lparr>fs_type := type\<rparr>))
      else Some (a, spec\<lparr>fs_type := type\<rparr>))"

text \<open>One directive, from behind its percent sign.\<close>

definition printf_directive ::
    "buffer_env \<Rightarrow> string \<Rightarrow> ('d \<Rightarrow> FormatSpec \<Rightarrow> string \<Rightarrow> (exn + string) option) \<Rightarrow> 'd Arg list \<Rightarrow> int \<Rightarrow> string \<Rightarrow> string \<Rightarrow>
     (exn + (int \<times> string \<times> string)) option" where
  "printf_directive g sep wd args n s b =
     bind_fmt (parse_header args n s (FormatSpec_new\<lparr>fs_align := ALIGN_RIGHT\<rparr>)) (\<lambda>(arg_index, n, s, spec).
     bind_fmt (printf_parse_precision args n s spec) (\<lambda>(n, s, spec).
     bind_fmt (Some (printf_get_arg args s arg_index n)) (\<lambda>(a, n).
     bind_fmt (map_option Inr (adjust_flags a spec)) (\<lambda>spec.
       case parse_length s of (target, s) \<Rightarrow>
     bind_fmt (map_option Inr (convert_arg target (peek s) a)) (\<lambda>a.
       if s = [] then Some (Inl (Format_error ''invalid format string''))
       else bind_fmt (map_option Inr (normalize_type (hd s) a spec)) (\<lambda>(a, spec).
         bind_fmt (printf_visit g sep wd a spec b) (\<lambda>b. Some (Inr (n, tl s, b)))))))))"

text \<open>Parsing only moves forward, and a directive consumes its type code.\<close>

lemma printf_parse_flags_length: "printf_parse_flags spec s = (spec', s') \<Longrightarrow> length s' \<le> length s"
  by (induction spec s rule: printf_parse_flags.induct) (auto split: if_splits)

lemma bind_exn_Inr_eq: "bind_exn m f = Inr y \<longleftrightarrow> (\<exists>x. m = Inr x \<and> f x = Inr y)"
  by (cases m) simp_all

lemma printf_parse_width_length: "printf_parse_width args n s spec = Some (Inr (n', s', spec')) \<Longrightarrow> length s' \<le> length s"
  by (auto simp: printf_parse_width_def bind_exn_Inr_eq split: if_splits elim!: bind_fmt_InrE dest: parse_nonnegative_int_length)

lemma parse_header_length:
  assumes "parse_header args n s spec = Some (Inr (i, n', s', spec'))"
  shows "length s' \<le> length s"
proof -
  obtain i1 fin s1 spec1 where 1: "(if isdigit (peek s) then
          bind_exn (parse_nonnegative_int s) (\<lambda>(value, s').
            if peek s' = CHR ''$'' then Inr (Some value, False, tl s', spec)
            else (let spec = (if peek s = CHR ''0'' then spec\<lparr>fs_fill := CHR ''0''\<rparr> else spec) in
              if value \<noteq> 0 then Inr (None, True, s', spec\<lparr>fs_width := value\<rparr>) else Inr (None, False, s', spec)))
        else Inr (None, False, s, spec)) = (Inr (i1, fin, s1, spec1) :: exn + (nat option \<times> bool \<times> string \<times> FormatSpec))"
    and 2: "if fin then s' = s1 else (\<exists>n2 s2 spec2. printf_parse_flags spec1 s1 = (spec2, s2) \<and>
      printf_parse_width args n s2 spec2 = Some (Inr (n2, s', spec')))"
    using assms unfolding parse_header_def by (auto elim!: bind_fmt_InrE split: if_splits prod.splits)
  have "length s1 \<le> length s"
    using 1 by (auto simp: bind_exn_Inr_eq Let_def split: if_splits dest!: parse_nonnegative_int_length)
  moreover have "length s' \<le> length s1"
    using 2 by (auto split: if_splits dest!: printf_parse_flags_length printf_parse_width_length)
  ultimately show ?thesis by simp
qed

lemma printf_parse_precision_length:
  "printf_parse_precision args n s spec = Some (Inr (n', s', spec')) \<Longrightarrow> length s' \<le> length s"
  by (cases s) (auto simp: printf_parse_precision_def Let_def bind_exn_Inr_eq split: if_splits
      elim!: bind_fmt_InrE dest!: parse_nonnegative_int_length)

lemma parse_length_length: "parse_length s = (t, s') \<Longrightarrow> length s' \<le> length s"
  by (auto simp: parse_length_def split: if_splits)

lemma printf_directive_length: "printf_directive g sep wd args n s b = Some (Inr (n', s', b')) \<Longrightarrow> length s' \<le> length s"
  unfolding printf_directive_def
  by (auto elim!: bind_fmt_InrE split: prod.splits if_splits dest!: parse_header_length printf_parse_precision_length parse_length_length)
    arith

section \<open>The format string\<close>

text \<open>The loop, with the text between \<open>start\<close> and \<open>s\<close> that is still to be written.\<close>

function (sequential) printf_loop ::
    "buffer_env \<Rightarrow> string \<Rightarrow> ('d \<Rightarrow> FormatSpec \<Rightarrow> string \<Rightarrow> (exn + string) option) \<Rightarrow> 'd Arg list \<Rightarrow> int \<Rightarrow> string \<Rightarrow> string \<Rightarrow> string \<Rightarrow>
     (exn + string) option" where
  "printf_loop g sep wd args n start [] b = Some (Inr (b @ start))"
| "printf_loop g sep wd args n start (c # s) b =
     (if c \<noteq> CHR ''%'' then printf_loop g sep wd args n (start @ [c]) s b
      else if peek s = c then printf_loop g sep wd args n [] (tl s) (b @ start @ [c])
      else (case printf_directive g sep wd args n s (b @ start) of
          None \<Rightarrow> None
        | Some (Inl e) \<Rightarrow> Some (Inl e)
        | Some (Inr (n, s, b)) \<Rightarrow> printf_loop g sep wd args n [] s b))"
  by pat_completeness auto
termination
  by (relation "measure (\<lambda>(g, sep, wd, args, n, start, s, b). length s)")
    (auto dest!: printf_directive_length simp: less_Suc_eq_le)

definition printf ::
    "buffer_env \<Rightarrow> string \<Rightarrow> ('d \<Rightarrow> FormatSpec \<Rightarrow> string \<Rightarrow> (exn + string) option) \<Rightarrow> string \<Rightarrow> 'd Arg list \<Rightarrow> string \<Rightarrow> (exn + string) option" where
  "printf g sep wd format_str args b = printf_loop g sep wd args 0 [] (takeWhile (\<lambda>c. c \<noteq> CHR 0x00) format_str) b"

text \<open>
  \<open>fprintf\<close> with the number of bytes \<open>fwrite\<close> gets out, and the functions that print to the
  standard output \<open>out\<close>; an exception leaves \<open>fputs\<close> of the reset sequence out.
\<close>

definition fprintf ::
    "buffer_env \<Rightarrow> string \<Rightarrow> ('d \<Rightarrow> FormatSpec \<Rightarrow> string \<Rightarrow> (exn + string) option) \<Rightarrow> nat \<Rightarrow> string \<Rightarrow> string \<Rightarrow> 'd Arg list \<Rightarrow>
     ((exn + int) \<times> string) option" where
  "fprintf g sep wd fwritten out format_str args = (case printf g sep wd format_str args [] of
       None \<Rightarrow> None
     | Some (Inl e) \<Rightarrow> Some (Inl e, out)
     | Some (Inr w) \<Rightarrow>
         (let n = min fwritten (length w) in Some (Inr (if n < length w then - 1 else int (length w)), out @ take n w)))"

definition fmt_print ::
    "buffer_env \<Rightarrow> string \<Rightarrow> ('d \<Rightarrow> FormatSpec \<Rightarrow> string \<Rightarrow> (exn + string) option) \<Rightarrow> string \<Rightarrow> string \<Rightarrow> 'd Arg list \<Rightarrow>
     ((exn + unit) \<times> string) option" where
  "fmt_print g sep wd out format_str args = (case format g sep wd format_str args [] of
       None \<Rightarrow> None
     | Some (Inl e) \<Rightarrow> Some (Inl e, out)
     | Some (Inr w) \<Rightarrow> Some (Inr (), out @ w))"

definition RESET_COLOR :: string where
  "RESET_COLOR = CHR 0x1B # ''[0m''"

definition print_colored ::
    "buffer_env \<Rightarrow> string \<Rightarrow> ('d \<Rightarrow> FormatSpec \<Rightarrow> string \<Rightarrow> (exn + string) option) \<Rightarrow> nat \<Rightarrow> string \<Rightarrow> string \<Rightarrow> 'd Arg list \<Rightarrow>
     ((exn + unit) \<times> string) option" where
  "print_colored g sep wd c out format_str args =
     (case fmt_print g sep wd (out @ CHR 0x1B # ''[3'' @ [char_of (48 + c)] @ ''m'') format_str args of
        None \<Rightarrow> None
      | Some (Inl e, out) \<Rightarrow> Some (Inl e, out)
      | Some (Inr u, out) \<Rightarrow> Some (Inr u, out @ RESET_COLOR))"

section \<open>No undefined behaviour\<close>

lemma plain_can_visit: "plain_arg_ok a \<Longrightarrow> can_visit a"
  by (cases a) simp_all

lemma int_arg_range: "plain_arg_ok a \<Longrightarrow> int_arg a = Some (t, v) \<Longrightarrow> int_in_range t v"
  by (cases a) (auto simp: char_int_range simp del: int_in_range.simps, simp_all)

lemma printf_get_arg_plain:
  "printf_get_arg args s i n = Inr (a, n') \<Longrightarrow> list_all arg_ok args \<Longrightarrow> plain_arg_ok a"
  by (auto simp: printf_get_arg_def next_arg_def get_arg_def split: option.splits prod.splits sum.splits if_splits
      dest!: do_get_arg_held intro: held_by_ok)

lemma parse_header_defined:
  assumes "list_all arg_ok args"
  shows "\<exists>r. parse_header args n s spec = Some r"
proof -
  have w: "\<exists>r. printf_parse_width args n s spec = Some r" for n s spec
    using assms by (auto simp: printf_parse_width_def bind_fmt_def WidthHandler_def split: sum.splits option.splits
        dest!: printf_get_arg_plain plain_can_visit)
  have "\<exists>r. bind_fmt (printf_parse_width args n s spec) (\<lambda>(n, s, spec). Some (Inr (i, n, s, spec))) = Some r"
    for n s spec and i :: "nat option"
    using w [of n s spec] by (auto simp: bind_fmt_def split: sum.splits prod.splits)
  then show ?thesis unfolding parse_header_def
    by (auto simp: bind_fmt_def split: sum.splits prod.splits option.splits)
qed

lemma printf_parse_precision_defined:
  assumes "list_all arg_ok args"
  shows "\<exists>r. printf_parse_precision args n s spec = Some r"
  using assms by (auto simp: printf_parse_precision_def Let_def bind_fmt_def PrecisionHandler_def split: sum.splits option.splits
      dest!: printf_get_arg_plain plain_can_visit)

lemma to_signed_range:
  assumes "0 < w"
  shows "- (2 ^ (w - 1)) \<le> to_signed w v" "to_signed w v < 2 ^ (w - 1)"
proof -
  have "(2 :: int) ^ w = 2 * 2 ^ (w - 1)" using power_minus_mult [OF assms, of "2 :: int"] by simp
  moreover have "0 \<le> (v + 2 ^ (w - 1)) mod 2 ^ w" "(v + 2 ^ (w - 1)) mod 2 ^ w < 2 ^ w" by simp_all
  ultimately show "- (2 ^ (w - 1)) \<le> to_signed w v" "to_signed w v < 2 ^ (w - 1)" unfolding to_signed_def by linarith+
qed

lemma to_signed_id: "0 < w \<Longrightarrow> - (2 ^ (w - 1)) \<le> v \<Longrightarrow> v < 2 ^ (w - 1) \<Longrightarrow> to_signed w v = v"
  using power_minus_mult [of w "2 :: int"] by (simp add: to_signed_def mod_pos_pos_trivial)

text \<open>A directive only asks for sizes of 1, 2 or 8 bytes.\<close>

definition length_ok :: "printf_length \<Rightarrow> bool" where
  "length_ok target \<longleftrightarrow> target \<in> {Convert_to 1, Convert_to 2, Convert_to 8, Convert_void, No_conversion}"

lemma parse_length_ok: "parse_length s = (target, s') \<Longrightarrow> length_ok target"
  by (auto simp: parse_length_def length_ok_def split: if_splits)

lemma convert_int_ok:
  assumes "length_ok target"
  shows "plain_arg_ok (convert_int target sg t v)"
proof -
  have 8: "- 128 \<le> to_signed 8 v" "to_signed 8 v < 128" and 16: "- 32768 \<le> to_signed 16 v" "to_signed 16 v < 32768"
    and 32: "- 2147483648 \<le> to_signed 32 v" "to_signed 32 v < 2147483648"
    and 64: "- 9223372036854775808 \<le> to_signed 64 v" "to_signed 64 v < 9223372036854775808"
    using to_signed_range [of 8 v] to_signed_range [of 16 v] to_signed_range [of 32 v] to_signed_range [of 64 v] by simp_all
  have u: "0 \<le> v mod 2 ^ w" "v mod 2 ^ w < 2 ^ w" for w by simp_all
  from assms 8 16 32 64 u [of 8] u [of 16] u [of 32] u [of 64] show ?thesis
    by (cases t) (auto simp: length_ok_def convert_int_def Let_def)
qed

lemma convert_arg_ok:
  assumes "plain_arg_ok a" "length_ok target"
  shows "\<exists>a'. convert_arg target type a = Some a' \<and> plain_arg_ok a'"
  using assms plain_can_visit [OF assms(1)]
  by (cases a) (auto simp: convert_arg_def ArgConverter_def convert_int_ok simp del: int_in_range.simps)

lemma normalize_type_ok:
  "plain_arg_ok a \<Longrightarrow> \<exists>a' spec'. normalize_type type a spec = Some (a', spec') \<and> plain_arg_ok a'"
  using plain_can_visit [of a] by (auto simp: normalize_type_def CharConverter_def split: option.splits)

definition char_spec :: "FormatSpec \<Rightarrow> FormatSpec" where
  "char_spec spec = spec\<lparr>fs_fill := CHR '' '', fs_align := if fs_align spec = ALIGN_LEFT then ALIGN_LEFT else ALIGN_RIGHT\<rparr>"

lemma printf_put_char_eq: "printf_put_char g c spec b = Some (Inr (b @ str_text (char_spec spec) [c]))"
proof -
  have "printf_put_char g c spec b = map_option Inr (write_str g [c] (char_spec spec) b)"
    by (simp add: printf_put_char_def write_str_def char_spec_def Let_def map_option_bind comp_def split_def)
  then show ?thesis by (simp add: write_str_eq)
qed

lemma printf_char_defined:
  assumes "\<forall>n m. \<not> be_moves g n m"
  shows "\<exists>r. printf_char g sep c spec b = Some r"
proof -
  have "steady g spec b" using assms by (simp add: steady_def)
  then obtain r where "write_int g sep Int_t (char_int c) spec b = Some r"
    using write_int_defined [OF char_int_range] by blast
  then show ?thesis by (auto simp: printf_char_def bind_fmt_def printf_put_char_eq split: sum.splits)
qed

lemma printf_visit_defined:
  assumes "plain_arg_ok a" "\<And>d spec b. \<exists>r. wd d spec b = Some r" "\<forall>n m. \<not> be_moves g n m"
  shows "\<exists>r. printf_visit g sep wd a spec b = Some r"
proof -
  have "steady g spec b" for spec b using assms(3) by (simp add: steady_def)
  then have int: "int_in_range t v \<Longrightarrow> \<exists>r. write_int g sep t v spec b = Some r" for t v spec b
    using write_int_defined by blast
  show ?thesis using assms(1,2) printf_char_defined [OF assms(3)]
    by (cases a) (auto intro!: int simp: write_bool_def visit_cstring_def visit_pointer_def write_pointer_def write_null_pointer_def
        write_str_value_defined simp del: int_in_range.simps, simp_all)
qed

lemma printf_directive_defined:
  assumes "list_all arg_ok args" "\<And>d spec b. \<exists>r. wd d spec b = Some r" "\<forall>n m. \<not> be_moves g n m"
  shows "\<exists>r. printf_directive g sep wd args n s b = Some r"
proof -
  have visit: "\<exists>r. bind_fmt (printf_visit g sep wd a spec b) (\<lambda>b. Some (Inr (n, s, b))) = Some r"
    if "plain_arg_ok a" for a spec n and s :: string
    using printf_visit_defined [of a wd g sep spec b, OF that assms(2,3)] by (auto simp: bind_fmt_def split: sum.splits)
  have adjust: "\<exists>r. adjust_flags a spec = Some r" if "plain_arg_ok a" for a :: "'a Arg" and spec
    using plain_can_visit [OF that] by (auto simp: adjust_flags_def IsZeroInt_def)
  have rest: "\<exists>r. bind_fmt (map_option Inr (convert_arg target (peek s) a)) (\<lambda>a.
       if s = [] then Some (Inl (Format_error ''invalid format string''))
       else bind_fmt (map_option Inr (normalize_type (hd s) a spec)) (\<lambda>(a, spec).
         bind_fmt (printf_visit g sep wd a spec b) (\<lambda>b. Some (Inr (n, tl s, b))))) = Some r"
    if ok: "plain_arg_ok a" "length_ok target" for a target s spec n
  proof -
    obtain a' where a': "convert_arg target (peek s) a = Some a'" "plain_arg_ok a'" using convert_arg_ok [OF ok] by blast
    obtain a2 spec2 where a2: "normalize_type (hd s) a' spec = Some (a2, spec2)" "plain_arg_ok a2"
      using normalize_type_ok [OF a'(2)] by blast
    from a' a2 visit [OF a2(2)] show ?thesis by auto
  qed
  have field: "\<exists>r. bind_fmt (Some (printf_get_arg args s i n)) (\<lambda>(a, n).
     bind_fmt (map_option Inr (adjust_flags a spec)) (\<lambda>spec.
       case parse_length s of (target, s) \<Rightarrow>
     bind_fmt (map_option Inr (convert_arg target (peek s) a)) (\<lambda>a.
       if s = [] then Some (Inl (Format_error ''invalid format string''))
       else bind_fmt (map_option Inr (normalize_type (hd s) a spec)) (\<lambda>(a, spec).
         bind_fmt (printf_visit g sep wd a spec b) (\<lambda>b. Some (Inr (n, tl s, b))))))) = Some r" for s i n spec
  proof (cases "printf_get_arg args s i n")
    case (Inr an)
    obtain a n1 where an: "an = (a, n1)" by (cases an)
    have a: "plain_arg_ok a" using printf_get_arg_plain [OF Inr [unfolded an] assms(1)] .
    obtain spec' where "adjust_flags a spec = Some spec'" using adjust [OF a] by blast
    moreover obtain target s' where "parse_length s = (target, s')" by (cases "parse_length s")
    ultimately show ?thesis using rest [OF a parse_length_ok] Inr an by simp
  qed simp
  obtain r where r: "parse_header args n s (FormatSpec_new\<lparr>fs_align := ALIGN_RIGHT\<rparr>) = Some r"
    using parse_header_defined [OF assms(1)] by blast
  show ?thesis
  proof (cases r)
    case (Inr x)
    obtain i n1 s1 spec1 where x: "x = (i, n1, s1, spec1)" by (cases x)
    obtain r2 where r2: "printf_parse_precision args n1 s1 spec1 = Some r2" using printf_parse_precision_defined [OF assms(1)] by blast
    show ?thesis using r Inr x r2 field by (cases r2) (auto simp: printf_directive_def split: prod.splits)
  qed (simp add: printf_directive_def r)
qed

lemma printf_loop_defined:
  assumes "list_all arg_ok args" "\<And>d spec b. \<exists>r. wd d spec b = Some r" "\<forall>n m. \<not> be_moves g n m"
  shows "\<exists>r. printf_loop g sep wd args n start s b = Some r"
  using assms
proof (induction g sep wd args n start s b rule: printf_loop.induct)
  case (2 g sep wd args n start c s b)
  obtain r where r: "printf_directive g sep wd args n s (b @ start) = Some r"
    using printf_directive_defined [of args wd g sep n s "b @ start", OF "2.prems"] by blast
  show ?case
  proof (cases "c \<noteq> CHR ''%'' \<or> peek s = c")
    case True
    with "2.IH"(1,2) "2.prems" show ?thesis by auto
  next
    case False
    with "2.IH"(3) "2.prems" r show ?thesis by (cases r) auto
  qed
qed simp

section \<open>Templates\<close>

text \<open>
  The format string that \<open>printf\<close> takes for a template and its arguments: literal text with its
  percent signs doubled, and a directive for the type of each argument.
\<close>

fun percent_escape :: "string \<Rightarrow> string" where
  "percent_escape [] = []"
| "percent_escape (c # s) = (if c = CHR ''%'' then [c, c] else [c]) @ percent_escape s"

fun directive_for :: "'d Arg \<Rightarrow> string" where
  "directive_for (Arg_NAMED_ARG n a) = directive_for a"
| "directive_for (Arg_INT v) = ''%d''"
| "directive_for (Arg_UINT v) = ''%u''"
| "directive_for (Arg_LONG_LONG v) = ''%lld''"
| "directive_for (Arg_ULONG_LONG v) = ''%llu''"
| "directive_for (Arg_CHAR c) = ''%c''"
| "directive_for (Arg_POINTER p) = ''%p''"
| "directive_for a = ''%s''"

fun printf_src :: "piece list \<Rightarrow> 'd Arg list \<Rightarrow> string" where
  "printf_src [] as = []"
| "printf_src (Lit s # ps) as = percent_escape s @ printf_src ps as"
| "printf_src (Hole # ps) [] = ''%d'' @ printf_src ps []"
| "printf_src (Hole # ps) (a # as) = directive_for a @ printf_src ps as"

lemma printf_loop_start: "printf_loop g sep wd args n start s b = printf_loop g sep wd args n [] s (b @ start)"
proof (induction s arbitrary: start b)
  case (Cons c s)
  show ?case
  proof (cases "c = CHR ''%''")
    case False
    have "printf_loop g sep wd args n [c] s (b @ start) = printf_loop g sep wd args n [] s ((b @ start) @ [c])" by (rule Cons.IH)
    moreover have "printf_loop g sep wd args n (start @ [c]) s b = printf_loop g sep wd args n [] s (b @ start @ [c])" by (rule Cons.IH)
    ultimately show ?thesis using False by simp
  next
    case True
    then show ?thesis unfolding printf_loop.simps append_Nil append_Nil2 append_assoc by presburger
  qed
qed simp

lemma printf_loop_escape: "printf_loop g sep wd args n [] (percent_escape t @ s) b = printf_loop g sep wd args n [] s (b @ t)"
proof (induction t arbitrary: b)
  case (Cons c t)
  then show ?case by (auto simp: peek_def printf_loop_start [of g sep wd args n "[c]"])
qed simp

lemma char_int_converted: "char_of (nat (char_int c mod 4294967296 mod 256)) = c"
proof -
  have m: "x mod 4294967296 mod 256 = x mod 256" for x :: int by (rule mod_mod_cancel) simp
  have "char_int c mod 256 = of_char c mod (256 :: int)" by (auto simp: char_int_def Let_def mod_simps)
  also have "\<dots> = of_char c" by simp
  finally show ?thesis unfolding m by simp
qed

lemmas printf_parse_defs = printf_directive_def parse_header_def printf_parse_width_def printf_parse_precision_def printf_get_arg_def
  next_arg_def adjust_flags_def parse_length_def convert_arg_def ArgConverter_def convert_int_def normalize_type_def peek_def isdigit_def
  fs_flag_def LAST_INTEGER_TYPE_def LAST_NUMERIC_TYPE_def

lemmas int_text_simps = write_int_eq int_code_def int_digits_def int_prefix_def sign_prefix_def show_int_abs

lemma printf_directive_plain:
  assumes "do_get_arg args k = Inr a" "plain_arg_ok a" "arg_text a = Some t" "a \<noteq> Arg_POINTER 0"
  shows "printf_directive g sep wd args (int k) (tl (directive_for a) @ s) b = Some (Inr (int (Suc k), s, b @ t))"
  using assms
  by (cases a) (auto simp: printf_parse_defs int_text_simps to_signed_id mod_pos_pos_trivial CharConverter_def char_int_converted
      printf_char_def printf_put_char_eq char_spec_def str_text_def aligned_text_def write_bool_def write_str_value_def write_str_eq
      visit_cstring_def visit_pointer_def write_pointer_def HASH_FLAG_def SIGN_FLAG_def)

fun not_null :: "'d Arg \<Rightarrow> bool" where
  "not_null (Arg_NAMED_ARG n a) = not_null a"
| "not_null (Arg_POINTER p) = (p \<noteq> 0)"
| "not_null a = True"

lemma not_null_pointer: "not_null a \<Longrightarrow> a \<noteq> Arg_POINTER 0"
  by auto

lemma directive_forE:
  obtains d where "directive_for a = CHR ''%'' # d" "peek (d @ s) \<noteq> CHR ''%''"
  by (induction a) (auto simp: peek_def)

lemma printf_loop_hole:
  assumes "list_all2 (\<lambda>a t. arg_ok a \<and> not_null a \<and> arg_text a = Some t) args ts" "k < length args"
  shows "printf_loop g sep wd args (int k) [] (directive_for (args ! k) @ s) b = printf_loop g sep wd args (int (Suc k)) [] s (b @ ts ! k)"
proof -
  have a: "arg_ok (args ! k)" "not_null (args ! k)" "arg_text (args ! k) = Some (ts ! k)"
    using assms by (auto simp: list_all2_conv_all_nth)
  then obtain a where a: "do_get_arg args k = Inr a" "plain_arg_ok a" "arg_text a = Some (ts ! k)" "a \<noteq> Arg_POINTER 0"
    "directive_for (args ! k) = directive_for a"
    using assms(2) by (cases "args ! k") (auto simp: do_get_arg_def dest: not_null_pointer split: if_splits)
  obtain d where d: "directive_for a = CHR ''%'' # d" "peek (d @ s) \<noteq> CHR ''%''" by (rule directive_forE)
  from printf_directive_plain [OF a(1-4), of g sep wd s b] d a(5) show ?thesis by simp
qed

lemma printf_loop_template:
  assumes "list_all2 (\<lambda>a t. arg_ok a \<and> not_null a \<and> arg_text a = Some t) args ts"
  shows "printf_loop g sep wd args (int k) [] (printf_src ps (drop k args)) b =
    Some (case template_text ps (drop k ts) of Some t \<Rightarrow> Inr (b @ t) | None \<Rightarrow> Inl (Format_error ''argument index out of range''))"
proof (induction ps arbitrary: k b)
  case (Cons p ps)
  have len: "length args = length ts" using assms by (rule list_all2_lengthD)
  show ?case
  proof (cases p)
    case (Lit t)
    with Cons show ?thesis by (simp add: printf_loop_escape split: option.splits)
  next
    case Hole
    show ?thesis
    proof (cases "k < length args")
      case True
      then have "drop k args = args ! k # drop (Suc k) args" "drop k ts = ts ! k # drop (Suc k) ts"
        using len by (simp_all add: Cons_nth_drop_Suc)
      with Hole Cons.IH [of "Suc k"] printf_loop_hole [OF assms True] show ?thesis by (simp split: option.splits)
    next
      case False
      then have "do_get_arg args k = Inl ''argument index out of range''" by (simp add: do_get_arg_def)
      then have "printf_directive g sep wd args (int k) (CHR ''d'' # s) b = Some (Inl (Format_error ''argument index out of range''))" for s
        by (simp add: printf_directive_def parse_header_def printf_parse_width_def printf_parse_precision_def printf_get_arg_def
            next_arg_def peek_def isdigit_def)
      with False Hole len show ?thesis by (simp add: peek_def)
    qed
  qed
qed simp

lemma percent_escape_chars: "c \<in> set (percent_escape t) \<Longrightarrow> c \<in> set t"
  by (induction t) (auto split: if_splits)

lemma directive_chars: "CHR 0x00 \<notin> set (directive_for a)"
  by (induction a) auto

lemma printf_src_chars: "\<forall>s. Lit s \<in> set ps \<longrightarrow> CHR 0x00 \<notin> set s \<Longrightarrow> CHR 0x00 \<notin> set (printf_src ps as)"
  by (induction ps as rule: printf_src.induct) (auto simp: directive_chars dest: percent_escape_chars)

lemma printf_template:
  assumes "list_all2 (\<lambda>a t. arg_ok a \<and> not_null a \<and> arg_text a = Some t) args ts"
    and "\<forall>s. Lit s \<in> set ps \<longrightarrow> CHR 0x00 \<notin> set s"
  shows "printf g sep wd (printf_src ps args) args b =
    Some (case template_text ps ts of Some t \<Rightarrow> Inr (b @ t) | None \<Rightarrow> Inl (Format_error ''argument index out of range''))"
proof -
  have t: "takeWhile (\<lambda>c. c \<noteq> CHR 0x00) (printf_src ps args) = printf_src ps args"
    using printf_src_chars [OF assms(2), of args] by (intro takeWhile_eq_all_conv [THEN iffD2] ballI notI) simp
  show ?thesis using printf_loop_template [OF assms(1), of g sep wd 0 ps b] unfolding printf_def t by simp
qed

section \<open>Properties\<close>



text \<open>
  Formatting for \<open>printf\<close> returns a text or an exception when growing the buffer does not move
  it. The condition cannot be dropped: a left-aligned number with a precision behind other text
  is written through a pointer from before the buffer moved.
\<close>

lemma printf_returns:
  assumes "list_all arg_ok args" "\<And>d spec b. \<exists>r. wd d spec b = Some r" "\<forall>n m. \<not> be_moves g n m"
  shows "\<exists>r. printf g sep wd format_str args b = Some r"
  unfolding printf_def using assms by (rule printf_loop_defined)

lemma printf_left_precision_dangles:
  "printf \<lparr>be_fresh = (\<lambda>_. CHR ''?''), be_moves = (\<lambda>_ _. True)\<rparr> '','' (\<lambda>(d :: unit) spec b. None) ''v=%-8.3d'' [Arg_INT (- 7)] [] = None"
proof -
  have c: "count_digits Int_t 7 = 1" by (simp add: count_digits_eq show_nat.simps)
  have a: "abs_value Int_t (- 7) = 7" by (simp add: abs_value_def)
  show ?thesis
    by (simp add: printf_def printf_parse_defs do_get_arg_def parse_nonnegative_int_def digit_val_def to_signed_id add_flag_def
        write_int_def prepare_int_buffer_def prepare_aligned_def grow_buffer_def fill_to_def copy_to_def sign_prefix_def
        FormatSpec_new_def Let_def a c)
qed

text \<open>
  With the length modifier \<open>L\<close>, which converts nothing, a character printed as a number is followed
  by the character itself.
\<close>

lemma printf_char_twice:
  "printf \<lparr>be_fresh = (\<lambda>_. CHR ''?''), be_moves = (\<lambda>_ _. True)\<rparr> '','' (\<lambda>(d :: unit) spec b. None) ''%Ld'' [Arg_CHAR (CHR ''a'')] [] = Some (Inr ''97a'')"
  by (simp add: printf_def printf_parse_defs do_get_arg_def printf_char_def printf_put_char_eq char_spec_def str_text_def aligned_text_def
      int_text_simps char_int_def show_nat.simps digit_char_def) code_simp

section \<open>Error codes\<close>

definition INLINE_BUFFER_SIZE :: nat where "INLINE_BUFFER_SIZE = 500"

text \<open>\<open>None\<close> is the failure of the assertion that the text fits the buffer inside the writer.\<close>

definition format_error_code :: "buffer_env \<Rightarrow> int \<Rightarrow> string \<Rightarrow> string option" where
  "format_error_code g error_code message = do {
     let error_code_size = length '': '' + length ''error '' + of_bool (error_code < 0) + count_digits Int_t (abs_value Int_t error_code);
     let out = (if length message \<le> INLINE_BUFFER_SIZE - error_code_size then message @ '': '' else []);
     out \<leftarrow> write_decimal g Int_t error_code (out @ ''error '');
     if length out \<le> INLINE_BUFFER_SIZE then Some out else None
   }"

text \<open>
  \<open>safe_strerror\<close> with the GNU \<open>strerror_r\<close>: the message for a buffer size, and whether it was put
  into the buffer. \<open>None\<close> stands for \<open>ERANGE\<close>. The loop doubles the buffer.
\<close>

definition safe_strerror :: "(nat \<Rightarrow> string \<times> bool) \<Rightarrow> nat \<Rightarrow> string option" where
  "safe_strerror strerror_r buffer_size = (case strerror_r buffer_size of (message, in_buffer) \<Rightarrow>
     if in_buffer \<and> length message = buffer_size - 1 then None else Some message)"

partial_function (option) system_message :: "(nat \<Rightarrow> string \<times> bool) \<Rightarrow> nat \<Rightarrow> string option" where
  "system_message strerror_r buffer_size = (case safe_strerror strerror_r buffer_size of
       Some m \<Rightarrow> Some m
     | None \<Rightarrow> system_message strerror_r (buffer_size * 2))"

definition format_system_error :: "(int \<Rightarrow> nat \<Rightarrow> string \<times> bool) \<Rightarrow> int \<Rightarrow> string \<Rightarrow> string \<Rightarrow> string option" where
  "format_system_error strerror_r error_code message out =
     map_option (\<lambda>m. out @ message @ '': '' @ m) (system_message (strerror_r error_code) INLINE_BUFFER_SIZE)"

definition report_system_error :: "(int \<Rightarrow> nat \<Rightarrow> string \<times> bool) \<Rightarrow> int \<Rightarrow> string \<Rightarrow> string \<Rightarrow> string option" where
  "report_system_error strerror_r error_code message stderr =
     map_option (\<lambda>full_message. stderr @ full_message @ [LF]) (format_system_error strerror_r error_code message [])"

lemma format_error_code_eq:
  assumes "int_in_range Int_t error_code"
  shows "format_error_code g error_code message =
    Some ((if length message + length (show_int error_code) \<le> 492 then message @ '': '' else []) @ ''error '' @ show_int error_code)"
proof -
  have c: "of_bool (error_code < 0) + count_digits Int_t (abs_value Int_t error_code) = length (show_int error_code)"
    using abs_value_eq [OF assms] abs_value_less [OF assms] by (simp add: count_digits_eq show_int_abs)
  have "nat \<bar>error_code\<bar> < 10 ^ 10" using assms by (cases "error_code < 0") auto
  then have "length (show_nat (nat \<bar>error_code\<bar>)) \<le> 10" by (rule length_show_nat_le) simp
  then have l: "length (show_int error_code) \<le> 11" by (auto simp: show_int_def)
  have s: "length '': '' + length ''error '' + of_bool (error_code < 0) + count_digits Int_t (abs_value Int_t error_code) = 8 + length (show_int error_code)"
    using c by simp
  show ?thesis unfolding format_error_code_def Let_def s write_decimal_eq [OF assms] INLINE_BUFFER_SIZE_def using l by auto
qed

text \<open>A function that cuts its message to the buffer is called until the message is whole.\<close>

lemma system_message_whole:
  assumes "\<And>n. strerror_r n = (take (n - 1) m, True)" "1 < n"
  shows "system_message strerror_r n = Some m"
  using assms(2)
proof (induction "length m + 2 - n" arbitrary: n rule: less_induct)
  case less
  show ?case
  proof (cases "length m < n - 1")
    case True
    then show ?thesis by (subst system_message.simps) (simp add: safe_strerror_def assms(1))
  next
    case False
    then have "system_message strerror_r (n * 2) = Some m" using less by (intro less.hyps) auto
    with False show ?thesis by (subst system_message.simps) (simp add: safe_strerror_def assms(1))
  qed
qed

lemma format_system_error_whole:
  assumes "\<And>n. strerror_r error_code n = (take (n - 1) m, True)"
  shows "format_system_error strerror_r error_code message out = Some (out @ message @ '': '' @ m)"
  using system_message_whole [of "strerror_r error_code" m INLINE_BUFFER_SIZE] assms
  by (simp add: format_system_error_def INLINE_BUFFER_SIZE_def)

end
