(* ===== verification/Fmt_Buffer.thy ===== *)
theory Fmt_Buffer
  imports Fmt_Printf
begin

text \<open>
  The buffers of the bundled fmt library (\<open>Buffer\<close>, \<open>MemoryBuffer\<close>, \<open>FixedBuffer\<close> in
  \<open>fmt/bundled/format.h\<close>, \<open>format.cc\<close>) with their memory: the array inside the object, the blocks
  of the allocator, capacity and growth. \<open>Buffer\<close> is an abstract class whose \<open>grow\<close> the two others
  define: its operations have \<open>grow\<close> as an argument, and the locale \<open>growing_buffer\<close> says what they
  rely on. The lemmas show that buffers are lists that grow, that no access is outside of its
  array and no block is leaked or freed twice, and what a buffer that was moved from does.
\<close>

section \<open>Memory\<close>

text \<open>
  The heap has the live blocks of the allocator, which gives every block a new address. A buffer
  points into its own array, \<open>None\<close>, or to a block. Undefined behaviour is \<open>None\<close>, and the contents
  of new memory are indeterminate, a parameter \<open>fresh\<close>.
\<close>

record heap =
  hp_blocks :: "nat \<Rightarrow> string option"
  hp_next :: nat

definition heap_new :: heap where
  "heap_new = \<lparr>hp_blocks = Map.empty, hp_next = 0\<rparr>"

record buffer =
  bf_data :: string
  bf_ptr :: "nat option"
  bf_size :: nat
  bf_capacity :: nat

definition memory :: "buffer \<Rightarrow> heap \<Rightarrow> string option" where
  "memory b h = (case bf_ptr b of None \<Rightarrow> Some (bf_data b) | Some p \<Rightarrow> hp_blocks h p)"

definition put_memory :: "string \<Rightarrow> buffer \<Rightarrow> heap \<Rightarrow> buffer \<times> heap" where
  "put_memory m b h = (case bf_ptr b of None \<Rightarrow> (b\<lparr>bf_data := m\<rparr>, h) | Some p \<Rightarrow> (b, h\<lparr>hp_blocks := (hp_blocks h)(p \<mapsto> m)\<rparr>))"

text \<open>Copying characters to an offset of the memory.\<close>

definition write_memory :: "nat \<Rightarrow> string \<Rightarrow> buffer \<Rightarrow> heap \<Rightarrow> (buffer \<times> heap) option" where
  "write_memory i s b h = (case memory b h of
       None \<Rightarrow> None
     | Some m \<Rightarrow> map_option (\<lambda>m. put_memory m b h) (copy_to i s m))"

definition allocate :: "(nat \<Rightarrow> char) \<Rightarrow> string \<Rightarrow> nat \<Rightarrow> heap \<Rightarrow> nat \<times> heap" where
  "allocate fresh s n h =
     (hp_next h, \<lparr>hp_blocks = (hp_blocks h)(hp_next h \<mapsto> s @ map fresh [length s ..< n]), hp_next = hp_next h + 1\<rparr>)"

text \<open>A block is given back with the size it was requested with.\<close>

definition deallocate :: "nat \<Rightarrow> nat \<Rightarrow> heap \<Rightarrow> heap option" where
  "deallocate p n h = (case hp_blocks h p of
       None \<Rightarrow> None
     | Some m \<Rightarrow> if length m = n then Some (h\<lparr>hp_blocks := (hp_blocks h)(p := None)\<rparr>) else None)"

section \<open>Growing\<close>

type_synonym 'a buffer_call = "(exn + ('a \<times> heap)) option"

definition MemoryBuffer_new :: "string \<Rightarrow> buffer" where
  "MemoryBuffer_new uninitialized =
     \<lparr>bf_data = uninitialized, bf_ptr = None, bf_size = 0, bf_capacity = length uninitialized\<rparr>"

definition deallocate_buffer :: "buffer \<Rightarrow> heap \<Rightarrow> heap option" where
  "deallocate_buffer b h = (case bf_ptr b of None \<Rightarrow> Some h | Some p \<Rightarrow> deallocate p (bf_capacity b) h)"

definition memory_grow :: "(nat \<Rightarrow> char) \<Rightarrow> nat \<Rightarrow> buffer \<Rightarrow> heap \<Rightarrow> buffer buffer_call" where
  "memory_grow fresh n b h = (
     let new_capacity = bf_capacity b + bf_capacity b div 2;
         new_capacity = (if n > new_capacity then n else new_capacity) in
     case memory b h of
       None \<Rightarrow> None
     | Some m \<Rightarrow>
         if bf_size b > length m \<or> bf_size b > new_capacity then None
         else (case allocate fresh (take (bf_size b) m) new_capacity h of (new_ptr, h) \<Rightarrow>
           map_option (\<lambda>h. Inr (b\<lparr>bf_ptr := Some new_ptr, bf_capacity := new_capacity\<rparr>, h)) (deallocate_buffer b h)))"

definition FixedBuffer_new :: "string \<Rightarrow> buffer" where
  "FixedBuffer_new arr = \<lparr>bf_data = arr, bf_ptr = None, bf_size = 0, bf_capacity = length arr\<rparr>"

definition fixed_grow :: "nat \<Rightarrow> buffer \<Rightarrow> heap \<Rightarrow> buffer buffer_call" where
  "fixed_grow n b h = Some (Inl (Runtime_error ''buffer overflow''))"

section \<open>Operations\<close>

definition buffer_resize :: "(nat \<Rightarrow> buffer \<Rightarrow> heap \<Rightarrow> buffer buffer_call) \<Rightarrow> nat \<Rightarrow> buffer \<Rightarrow> heap \<Rightarrow> buffer buffer_call" where
  "buffer_resize grow new_size b h = bind_fmt
     (if new_size > bf_capacity b then grow new_size b h else Some (Inr (b, h)))
     (\<lambda>(b, h). Some (Inr (b\<lparr>bf_size := new_size\<rparr>, h)))"

definition buffer_reserve :: "(nat \<Rightarrow> buffer \<Rightarrow> heap \<Rightarrow> buffer buffer_call) \<Rightarrow> nat \<Rightarrow> buffer \<Rightarrow> heap \<Rightarrow> buffer buffer_call" where
  "buffer_reserve grow capacity b h = (if capacity > bf_capacity b then grow capacity b h else Some (Inr (b, h)))"

definition buffer_clear :: "buffer \<Rightarrow> buffer" where
  "buffer_clear b = b\<lparr>bf_size := 0\<rparr>"

definition buffer_push_back :: "(nat \<Rightarrow> buffer \<Rightarrow> heap \<Rightarrow> buffer buffer_call) \<Rightarrow> char \<Rightarrow> buffer \<Rightarrow> heap \<Rightarrow> buffer buffer_call" where
  "buffer_push_back grow c b h = bind_fmt
     (if bf_size b = bf_capacity b then grow (bf_size b + 1) b h else Some (Inr (b, h)))
     (\<lambda>(b, h). map_option (\<lambda>(b, h). Inr (b\<lparr>bf_size := bf_size b + 1\<rparr>, h)) (write_memory (bf_size b) [c] b h))"

definition buffer_append :: "(nat \<Rightarrow> buffer \<Rightarrow> heap \<Rightarrow> buffer buffer_call) \<Rightarrow> string \<Rightarrow> buffer \<Rightarrow> heap \<Rightarrow> buffer buffer_call" where
  "buffer_append grow s b h = (
     let new_size = bf_size b + length s in
     bind_fmt (if new_size > bf_capacity b then grow new_size b h else Some (Inr (b, h)))
       (\<lambda>(b, h). map_option (\<lambda>(b, h). Inr (b\<lparr>bf_size := new_size\<rparr>, h)) (write_memory (bf_size b) s b h)))"

text \<open>\<open>grow_buffer\<close>, \<open>c_str\<close> and \<open>str\<close> of a writer on the buffer.\<close>

definition writer_grow_buffer :: "(nat \<Rightarrow> buffer \<Rightarrow> heap \<Rightarrow> buffer buffer_call) \<Rightarrow> nat \<Rightarrow> buffer \<Rightarrow> heap \<Rightarrow> (nat \<times> buffer) buffer_call" where
  "writer_grow_buffer grow n b h =
     bind_fmt (buffer_resize grow (bf_size b + n) b h) (\<lambda>(b', h). Some (Inr ((bf_size b, b'), h)))"

definition writer_c_str :: "(nat \<Rightarrow> buffer \<Rightarrow> heap \<Rightarrow> buffer buffer_call) \<Rightarrow> buffer \<Rightarrow> heap \<Rightarrow> buffer buffer_call" where
  "writer_c_str grow b h =
     bind_fmt (buffer_reserve grow (bf_size b + 1) b h) (\<lambda>(b, h). map_option Inr (write_memory (bf_size b) [CHR 0x00] b h))"

definition writer_str :: "buffer \<Rightarrow> heap \<Rightarrow> string option" where
  "writer_str b h = (case memory b h of
       None \<Rightarrow> None | Some m \<Rightarrow> if bf_size b \<le> length m then Some (take (bf_size b) m) else None)"

text \<open>
  \<open>MemoryBuffer::move\<close> into a buffer that has no memory of its own to give back, with the buffer
  it leaves behind; the move constructor, and the move assignment.
\<close>

definition move_buffer :: "buffer \<Rightarrow> buffer \<Rightarrow> heap \<Rightarrow> (buffer \<times> buffer) option" where
  "move_buffer b other h = (
     let b = b\<lparr>bf_size := bf_size other, bf_capacity := bf_capacity other\<rparr> in
     case bf_ptr other of
       None \<Rightarrow>
         if bf_size other > length (bf_data other) then None
         else map_option (\<lambda>m. (b\<lparr>bf_ptr := None, bf_data := m\<rparr>, other)) (copy_to 0 (take (bf_size other) (bf_data other)) (bf_data b))
     | Some p \<Rightarrow> Some (b\<lparr>bf_ptr := Some p\<rparr>, other\<lparr>bf_ptr := None\<rparr>))"

definition MemoryBuffer_move :: "string \<Rightarrow> buffer \<Rightarrow> heap \<Rightarrow> (buffer \<times> buffer) option" where
  "MemoryBuffer_move uninitialized other h =
     move_buffer \<lparr>bf_data = uninitialized, bf_ptr = None, bf_size = 0, bf_capacity = 0\<rparr> other h"

definition MemoryBuffer_assign :: "buffer \<Rightarrow> buffer \<Rightarrow> heap \<Rightarrow> (buffer \<times> buffer \<times> heap) option" where
  "MemoryBuffer_assign b other h = (case deallocate_buffer b h of
       None \<Rightarrow> None
     | Some h \<Rightarrow> map_option (\<lambda>(b, other). (b, other, h)) (move_buffer b other h))"

section \<open>Buffers are lists\<close>

definition contents :: "buffer \<Rightarrow> heap \<Rightarrow> string" where
  "contents b h = take (bf_size b) (the (memory b h))"

text \<open>What holds of a buffer that was not moved from.\<close>

definition heap_ok :: "heap \<Rightarrow> bool" where
  "heap_ok h \<longleftrightarrow> (\<forall>p \<ge> hp_next h. hp_blocks h p = None)"

definition buffer_ok :: "buffer \<Rightarrow> heap \<Rightarrow> bool" where
  "buffer_ok b h \<longleftrightarrow> (\<exists>m. memory b h = Some m \<and> length m = bf_capacity b) \<and> bf_size b \<le> bf_capacity b \<and> heap_ok h"

text \<open>The heap without the buffer's own block.\<close>

definition other_blocks :: "buffer \<Rightarrow> heap \<Rightarrow> nat \<Rightarrow> string option" where
  "other_blocks b h = (case bf_ptr b of None \<Rightarrow> hp_blocks h | Some p \<Rightarrow> (hp_blocks h)(p := None))"

lemma buffer_okE:
  assumes "buffer_ok b h"
  obtains m where "memory b h = Some m" "length m = bf_capacity b" "contents b h = take (bf_size b) m" "length (contents b h) = bf_size b"
  using assms by (auto simp: buffer_ok_def contents_def)

lemma copy_to_fits: "p + length s \<le> length b \<Longrightarrow> copy_to p s b = Some (take p b @ s @ drop (p + length s) b)"
  by (simp add: copy_to_def)

text \<open>Writing at the end of what a buffer holds, where there is room.\<close>

lemma write_at_end:
  assumes "buffer_ok b h" "bf_size b + length s \<le> bf_capacity b"
  shows "\<exists>b' h'. write_memory (bf_size b) s b h = Some (b', h') \<and> bf_size b' = bf_size b \<and> bf_capacity b' = bf_capacity b \<and>
    buffer_ok (b'\<lparr>bf_size := n\<rparr>) h' = (n \<le> bf_capacity b) \<and> other_blocks (b'\<lparr>bf_size := n\<rparr>) h' = other_blocks b h \<and>
    contents (b'\<lparr>bf_size := bf_size b + length s\<rparr>) h' = contents b h @ s \<and> contents b' h' = contents b h"
proof -
  obtain m where m: "memory b h = Some m" "length m = bf_capacity b" using assms(1) by (rule buffer_okE)
  let ?m = "take (bf_size b) m @ s @ drop (bf_size b + length s) m"
  have l: "length ?m = bf_capacity b" using m(2) assms(2) by simp
  have w: "write_memory (bf_size b) s b h = Some (put_memory ?m b h)"
    using m assms(2) by (simp add: write_memory_def copy_to_fits)
  show ?thesis
  proof (cases "bf_ptr b")
    case None
    then show ?thesis using w l m assms
      by (auto simp: put_memory_def buffer_ok_def heap_ok_def contents_def memory_def other_blocks_def)
  next
    case (Some p)
    then show ?thesis using w l m assms
      by (auto simp: put_memory_def buffer_ok_def heap_ok_def contents_def memory_def other_blocks_def)
  qed
qed

lemma write_in_bounds: "memory b h = Some m \<Longrightarrow> i + length s \<le> length m \<Longrightarrow>
    write_memory i s b h = Some (put_memory (take i m @ s @ drop (i + length s) m) b h)"
  by (simp add: write_memory_def copy_to_fits)

lemma put_memoryE:
  assumes "put_memory m b h = (b', h')" "memory b h = Some m0" "heap_ok h"
  shows "memory b' h' = Some m" "bf_ptr b' = bf_ptr b" "bf_size b' = bf_size b" "bf_capacity b' = bf_capacity b" "heap_ok h'"
    "other_blocks b' h' = other_blocks b h"
  using assms by (auto simp: put_memory_def memory_def heap_ok_def other_blocks_def split: option.splits)

text \<open>Writing behind what a buffer holds changes nothing for it.\<close>

lemma write_free:
  assumes "buffer_ok b h" "memory b h = Some m" "bf_size b \<le> i" "i + length s \<le> bf_capacity b"
  shows "\<exists>b' h'. write_memory i s b h = Some (b', h') \<and> buffer_ok b' h' \<and> bf_size b' = bf_size b \<and>
    bf_capacity b' = bf_capacity b \<and> contents b' h' = contents b h \<and> other_blocks b' h' = other_blocks b h \<and>
    memory b' h' = Some (take i m @ s @ drop (i + length s) m)"
proof -
  have m: "length m = bf_capacity b" "contents b h = take (bf_size b) m" "heap_ok h" "bf_size b \<le> bf_capacity b"
    using assms(1,2) by (auto simp: buffer_ok_def contents_def)
  have "i + length s \<le> length m" using assms(4) m(1) by simp
  note w = write_in_bounds [OF assms(2) this]
  obtain b' h' where p: "put_memory (take i m @ s @ drop (i + length s) m) b h = (b', h')" by fastforce
  note q = put_memoryE [OF p assms(2) m(3)]
  then show ?thesis using w p m assms(3,4)
    by (intro exI [of _ b'] exI [of _ h']) (simp add: buffer_ok_def contents_def min_absorb1)
qed

lemma write_behind:
  assumes "buffer_ok b h" "bf_size b + length s \<le> bf_capacity b"
  shows "\<exists>b' h'. write_memory (bf_size b) s b h = Some (b', h') \<and> buffer_ok b' h' \<and> bf_size b' = bf_size b \<and>
    bf_capacity b' = bf_capacity b \<and> contents b' h' = contents b h \<and> other_blocks b' h' = other_blocks b h \<and>
    (\<exists>m. memory b' h' = Some m \<and> take (bf_size b + length s) m = contents b h @ s)"
proof -
  obtain m where m: "memory b h = Some m" "length m = bf_capacity b" "contents b h = take (bf_size b) m"
    using assms(1) by (rule buffer_okE)
  then show ?thesis using write_free [OF assms(1) m(1) le_refl assms(2)] assms(2) by fastforce
qed

text \<open>
  What the operations of \<open>Buffer\<close> rely on: \<open>grow\<close> throws, or makes room and keeps what is there;
  no other block changes.
\<close>

locale growing_buffer =
  fixes grow :: "nat \<Rightarrow> buffer \<Rightarrow> heap \<Rightarrow> buffer buffer_call" and growable :: bool
  assumes grow_throws: "buffer_ok b h \<Longrightarrow> bf_capacity b < n \<Longrightarrow> \<not> growable \<Longrightarrow> \<exists>e. grow n b h = Some (Inl e)"
    and grow_makes_room: "buffer_ok b h \<Longrightarrow> bf_capacity b < n \<Longrightarrow> growable \<Longrightarrow>
      \<exists>b' h'. grow n b h = Some (Inr (b', h')) \<and> buffer_ok b' h' \<and> n \<le> bf_capacity b' \<and> bf_size b' = bf_size b \<and>
        contents b' h' = contents b h \<and> other_blocks b' h' = other_blocks b h"
begin

lemma room:
  assumes "buffer_ok b h" "growable \<or> n \<le> bf_capacity b"
  shows "\<exists>b' h'. (if n > bf_capacity b then grow n b h else Some (Inr (b, h))) = Some (Inr (b', h')) \<and> buffer_ok b' h' \<and>
    n \<le> bf_capacity b' \<and> bf_size b' = bf_size b \<and> contents b' h' = contents b h \<and> other_blocks b' h' = other_blocks b h \<and>
    (growable \<or> bf_capacity b' = bf_capacity b)"
  using assms grow_makes_room [of b h n] by (cases "n \<le> bf_capacity b") auto

lemma append_room:
  assumes "buffer_ok b h" "growable \<or> bf_size b + length s \<le> bf_capacity b"
  shows "\<exists>b' h'. buffer_append grow s b h = Some (Inr (b', h')) \<and> buffer_ok b' h' \<and> contents b' h' = contents b h @ s \<and>
    other_blocks b' h' = other_blocks b h \<and> (growable \<or> bf_capacity b' = bf_capacity b)"
proof -
  obtain b1 h1 where 1: "(if bf_size b + length s > bf_capacity b then grow (bf_size b + length s) b h else Some (Inr (b, h))) = Some (Inr (b1, h1))"
    "buffer_ok b1 h1" "bf_size b + length s \<le> bf_capacity b1" "bf_size b1 = bf_size b" "contents b1 h1 = contents b h"
    "other_blocks b1 h1 = other_blocks b h" "growable \<or> bf_capacity b1 = bf_capacity b" using room [OF assms] by blast
  have "bf_size b1 + length s \<le> bf_capacity b1" using 1(3,4) by simp
  from write_at_end [OF 1(2) this, of "bf_size b + length s"] obtain b2 h2 where
    2: "write_memory (bf_size b1) s b1 h1 = Some (b2, h2)" "buffer_ok (b2\<lparr>bf_size := bf_size b + length s\<rparr>) h2"
      "other_blocks (b2\<lparr>bf_size := bf_size b + length s\<rparr>) h2 = other_blocks b1 h1"
      "contents (b2\<lparr>bf_size := bf_size b + length s\<rparr>) h2 = contents b1 h1 @ s" "bf_capacity b2 = bf_capacity b1"
    using 1(3,4) by auto
  have "buffer_append grow s b h = Some (Inr (b2\<lparr>bf_size := bf_size b + length s\<rparr>, h2))"
    unfolding buffer_append_def Let_def 1(1) using 2(1) by simp
  then show ?thesis using 2 1(5-7) by simp
qed

lemma push_back_room:
  assumes "buffer_ok b h" "growable \<or> bf_size b < bf_capacity b"
  shows "\<exists>b' h'. buffer_push_back grow c b h = Some (Inr (b', h')) \<and> buffer_ok b' h' \<and> contents b' h' = contents b h @ [c] \<and>
    other_blocks b' h' = other_blocks b h \<and> (growable \<or> bf_capacity b' = bf_capacity b)"
proof -
  have f: "(bf_size b = bf_capacity b) = (bf_size b + 1 > bf_capacity b)" using assms(1) by (auto simp: buffer_ok_def)
  have "growable \<or> bf_size b + 1 \<le> bf_capacity b" using assms(2) by auto
  from room [OF assms(1) this] obtain b1 h1 where 1: "(if bf_size b + 1 > bf_capacity b then grow (bf_size b + 1) b h else Some (Inr (b, h))) = Some (Inr (b1, h1))"
    "buffer_ok b1 h1" "bf_size b + 1 \<le> bf_capacity b1" "bf_size b1 = bf_size b" "contents b1 h1 = contents b h"
    "other_blocks b1 h1 = other_blocks b h" "growable \<or> bf_capacity b1 = bf_capacity b" by blast
  have "bf_size b1 + length [c] \<le> bf_capacity b1" using 1(3,4) by simp
  from write_at_end [OF 1(2) this, of "bf_size b + 1"] obtain b2 h2 where
    2: "write_memory (bf_size b1) [c] b1 h1 = Some (b2, h2)" "buffer_ok (b2\<lparr>bf_size := bf_size b + 1\<rparr>) h2" "bf_size b2 = bf_size b"
      "other_blocks (b2\<lparr>bf_size := bf_size b + 1\<rparr>) h2 = other_blocks b1 h1"
      "contents (b2\<lparr>bf_size := bf_size b + 1\<rparr>) h2 = contents b1 h1 @ [c]" "bf_capacity b2 = bf_capacity b1"
    using 1(3,4) by auto
  have "buffer_push_back grow c b h = Some (Inr (b2\<lparr>bf_size := bf_size b + 1\<rparr>, h2))"
    unfolding buffer_push_back_def f 1(1) using 2(1,3) by simp
  then show ?thesis using 2 1(5-7) by simp
qed

lemma push_back_no_room:
  assumes "buffer_ok b h" "\<not> growable" "bf_size b = bf_capacity b"
  shows "\<exists>e. buffer_push_back grow c b h = Some (Inl e)"
  using grow_throws [of b h "bf_size b + 1"] assms by (auto simp: buffer_push_back_def)

lemma append_no_room:
  assumes "buffer_ok b h" "\<not> growable" "bf_capacity b < bf_size b + length s"
  shows "\<exists>e. buffer_append grow s b h = Some (Inl e)"
  using grow_throws [OF assms(1,3,2)] assms(3) by (auto simp: buffer_append_def Let_def)

lemma resize_room:
  assumes "buffer_ok b h" "growable \<or> n \<le> bf_capacity b"
  shows "\<exists>b' h' x. buffer_resize grow n b h = Some (Inr (b', h')) \<and> buffer_ok b' h' \<and> bf_size b' = n \<and>
    contents b' h' = take n (contents b h) @ x \<and> other_blocks b' h' = other_blocks b h"
proof -
  obtain b1 h1 where 1: "(if n > bf_capacity b then grow n b h else Some (Inr (b, h))) = Some (Inr (b1, h1))"
    "buffer_ok b1 h1" "n \<le> bf_capacity b1" "bf_size b1 = bf_size b" "contents b1 h1 = contents b h"
    "other_blocks b1 h1 = other_blocks b h" using room [OF assms] by blast
  obtain m where m: "memory b1 h1 = Some m" "length m = bf_capacity b1" "contents b1 h1 = take (bf_size b1) m"
    using 1(2) by (rule buffer_okE)
  let ?b = "b1\<lparr>bf_size := n\<rparr>"
  have "memory ?b h1 = Some m" "other_blocks ?b h1 = other_blocks b1 h1" 
    using m(1) by (simp_all add: memory_def other_blocks_def split: option.splits)
  moreover from this have "contents ?b h1 = take n m" by (simp add: contents_def)
  moreover have "take n m = take n (contents b h) @ drop (bf_size b) (take n m)"
    using m(3) 1(4,5) by (metis append_take_drop_id min.commute take_take)
  moreover have "buffer_resize grow n b h = Some (Inr (?b, h1))" by (simp only: buffer_resize_def 1(1) bind_fmt_simps prod.case)
  moreover have "buffer_ok ?b h1" using 1(2,3) calculation(1) m(2) by (simp add: buffer_ok_def)
  ultimately show ?thesis using 1(6) by (intro exI [of _ ?b] exI [of _ h1] exI [of _ "drop (bf_size b) (take n m)"]) simp
qed

lemma reserve_room:
  assumes "buffer_ok b h" "growable \<or> n \<le> bf_capacity b"
  shows "\<exists>b' h'. buffer_reserve grow n b h = Some (Inr (b', h')) \<and> buffer_ok b' h' \<and> n \<le> bf_capacity b' \<and> bf_size b' = bf_size b \<and>
    contents b' h' = contents b h \<and> other_blocks b' h' = other_blocks b h \<and> (growable \<or> bf_capacity b' = bf_capacity b)"
  using room [OF assms] by (simp add: buffer_reserve_def)

end

text \<open>The two kinds of buffers.\<close>

lemma memory_grow_room:
  assumes ok: "buffer_ok b h" and n: "bf_capacity b < n"
  shows "\<exists>b' h'. memory_grow fresh n b h = Some (Inr (b', h')) \<and> buffer_ok b' h' \<and> n \<le> bf_capacity b' \<and> bf_size b' = bf_size b \<and>
    contents b' h' = contents b h \<and> other_blocks b' h' = other_blocks b h"
proof -
  obtain m where m: "memory b h = Some m" "length m = bf_capacity b" "contents b h = take (bf_size b) m"
    using ok by (rule buffer_okE)
  have sz: "bf_size b \<le> bf_capacity b" and free: "hp_blocks h p = None" if "p \<ge> hp_next h" for p
    using ok that by (auto simp: buffer_ok_def heap_ok_def)
  have sz: "bf_size b \<le> bf_capacity b" using ok by (simp add: buffer_ok_def)
  define c where "c = (if n > bf_capacity b + bf_capacity b div 2 then n else bf_capacity b + bf_capacity b div 2)"
  have c: "n \<le> c" "bf_capacity b \<le> c" using n by (auto simp: c_def)
  define new where "new = take (bf_size b) m @ map fresh [bf_size b ..< c]"
  have new: "length new = c" "take (bf_size b) new = contents b h" using sz c m(2,3) by (simp_all add: new_def)
  let ?h1 = "\<lparr>hp_blocks = (hp_blocks h)(hp_next h \<mapsto> new), hp_next = hp_next h + 1\<rparr>"
  let ?b = "b\<lparr>bf_ptr := Some (hp_next h), bf_capacity := c\<rparr>"
  have alloc: "allocate fresh (take (bf_size b) m) c h = (hp_next h, ?h1)"
    using sz m(2) by (simp add: allocate_def new_def)
  have g: "memory_grow fresh n b h = map_option (\<lambda>h. Inr (?b, h)) (deallocate_buffer b ?h1)"
    using m sz c by (simp add: memory_grow_def Let_def alloc flip: c_def)
  have ok': "buffer_ok ?b h2" "contents ?b h2 = contents b h"
    if "hp_blocks h2 (hp_next h) = Some new" "heap_ok h2" for h2
    using that new c sz by (auto simp: buffer_ok_def memory_def contents_def)
  have h1: "heap_ok ?h1" using free by (auto simp: heap_ok_def)
  show ?thesis
  proof (cases "bf_ptr b")
    case None
    then show ?thesis using g ok' [of ?h1] h1 c free by (auto simp: deallocate_buffer_def other_blocks_def)
  next
    case (Some p)
    then have p: "hp_blocks h p = Some m" "p \<noteq> hp_next h" using m(1) free by (auto simp: memory_def)
    let ?h2 = "?h1\<lparr>hp_blocks := (hp_blocks ?h1)(p := None)\<rparr>"
    have "deallocate_buffer b ?h1 = Some ?h2" using Some p m(2) by (simp add: deallocate_buffer_def deallocate_def)
    moreover have "heap_ok ?h2" using h1 by (auto simp: heap_ok_def)
    moreover have "other_blocks ?b ?h2 = other_blocks b h" using Some p free by (auto simp: other_blocks_def fun_eq_iff)
    ultimately show ?thesis using g ok' [of ?h2] p c by auto
  qed
qed

interpretation memory_buffer: growing_buffer "memory_grow fresh" True for fresh
  by unfold_locales (auto intro: memory_grow_room)

interpretation fixed_buffer: growing_buffer fixed_grow False
  by unfold_locales (auto simp: fixed_grow_def)

section \<open>Any sequence of operations\<close>

datatype buffer_op = Op_push char | Op_append string | Op_clear | Op_reserve nat

fun buffer_step :: "(nat \<Rightarrow> buffer \<Rightarrow> heap \<Rightarrow> buffer buffer_call) \<Rightarrow> buffer_op \<Rightarrow> buffer \<Rightarrow> heap \<Rightarrow> buffer buffer_call" where
  "buffer_step grow (Op_push c) b h = buffer_push_back grow c b h"
| "buffer_step grow (Op_append s) b h = buffer_append grow s b h"
| "buffer_step grow Op_clear b h = Some (Inr (buffer_clear b, h))"
| "buffer_step grow (Op_reserve n) b h = buffer_reserve grow n b h"

fun buffer_run :: "(nat \<Rightarrow> buffer \<Rightarrow> heap \<Rightarrow> buffer buffer_call) \<Rightarrow> buffer_op list \<Rightarrow> buffer \<Rightarrow> heap \<Rightarrow> buffer buffer_call" where
  "buffer_run grow [] b h = Some (Inr (b, h))"
| "buffer_run grow (op # ops) b h = bind_fmt (buffer_step grow op b h) (\<lambda>(b, h). buffer_run grow ops b h)"

fun list_step :: "buffer_op \<Rightarrow> string \<Rightarrow> string" where
  "list_step (Op_push c) s = s @ [c]"
| "list_step (Op_append t) s = s @ t"
| "list_step Op_clear s = []"
| "list_step (Op_reserve n) s = s"

text \<open>The capacity that an operation needs.\<close>

fun op_need :: "buffer_op \<Rightarrow> string \<Rightarrow> nat" where
  "op_need (Op_reserve n) s = n"
| "op_need op s = length (list_step op s)"

fun run_needs :: "nat \<Rightarrow> buffer_op list \<Rightarrow> string \<Rightarrow> bool" where
  "run_needs n [] s \<longleftrightarrow> True"
| "run_needs n (op # ops) s \<longleftrightarrow> op_need op s \<le> n \<and> run_needs n ops (list_step op s)"

lemma clear_ok:
  assumes "buffer_ok b h"
  shows "buffer_ok (buffer_clear b) h" "contents (buffer_clear b) h = []" "other_blocks (buffer_clear b) h = other_blocks b h"
  using assms by (auto simp: buffer_clear_def buffer_ok_def contents_def memory_def other_blocks_def split: option.splits)

lemma length_contents: "buffer_ok b h \<Longrightarrow> length (contents b h) = bf_size b"
  by (elim buffer_okE)

context growing_buffer
begin

lemma step_room:
  assumes ok: "buffer_ok b h" and "growable \<or> op_need op (contents b h) \<le> bf_capacity b"
  shows "\<exists>b' h'. buffer_step grow op b h = Some (Inr (b', h')) \<and> buffer_ok b' h' \<and> contents b' h' = list_step op (contents b h) \<and>
    other_blocks b' h' = other_blocks b h \<and> (growable \<or> bf_capacity b' = bf_capacity b)"
proof (cases op)
  case (Op_push c)
  then show ?thesis using push_back_room [OF ok, of c] assms(2) length_contents [OF ok] by auto
next
  case (Op_append s)
  then show ?thesis using append_room [OF ok, of s] assms(2) length_contents [OF ok] by auto
next
  case Op_clear
  then show ?thesis using clear_ok [OF ok] by (simp add: buffer_clear_def)
next
  case (Op_reserve n)
  then show ?thesis using reserve_room [OF ok, of n] assms(2) by auto
qed

lemma run_room:
  assumes "buffer_ok b h" "growable \<or> run_needs (bf_capacity b) ops (contents b h)"
  shows "\<exists>b' h'. buffer_run grow ops b h = Some (Inr (b', h')) \<and> buffer_ok b' h' \<and> contents b' h' = fold list_step ops (contents b h) \<and>
    other_blocks b' h' = other_blocks b h"
  using assms
proof (induction ops arbitrary: b h)
  case Nil
  then show ?case by simp
next
  case (Cons op ops)
  then have "growable \<or> op_need op (contents b h) \<le> bf_capacity b" by auto
  from step_room [OF Cons.prems(1) this] obtain b1 h1 where
    1: "buffer_step grow op b h = Some (Inr (b1, h1))" "buffer_ok b1 h1" "contents b1 h1 = list_step op (contents b h)"
      "other_blocks b1 h1 = other_blocks b h" "growable \<or> bf_capacity b1 = bf_capacity b" by blast
  have "growable \<or> run_needs (bf_capacity b1) ops (contents b1 h1)" using Cons.prems(2) 1(3,5) by auto
  from Cons.IH [OF 1(2) this] show ?case using 1 by auto
qed

lemma step_no_room:
  assumes ok: "buffer_ok b h" and "\<not> growable" "bf_capacity b < op_need op (contents b h)"
  shows "\<exists>e. buffer_step grow op b h = Some (Inl e)"
proof (cases op)
  case (Op_push c)
  then have "bf_size b = bf_capacity b" using assms(3) length_contents [OF ok] ok by (auto simp: buffer_ok_def)
  then show ?thesis using Op_push push_back_no_room [OF ok assms(2)] by simp
next
  case (Op_append s)
  then show ?thesis using append_no_room [OF ok assms(2), of s] assms(3) length_contents [OF ok] by auto
next
  case Op_clear
  then show ?thesis using assms(3) by simp
next
  case (Op_reserve n)
  then show ?thesis using grow_throws [OF ok, of n] assms(2,3) by (simp add: buffer_reserve_def)
qed

lemma run_no_room:
  assumes "buffer_ok b h" "\<not> growable" "\<not> run_needs (bf_capacity b) ops (contents b h)"
  shows "\<exists>e. buffer_run grow ops b h = Some (Inl e)"
  using assms
proof (induction ops arbitrary: b h)
  case Nil
  then show ?case by simp
next
  case (Cons op ops)
  show ?case
  proof (cases "op_need op (contents b h) \<le> bf_capacity b")
    case False
    then have "bf_capacity b < op_need op (contents b h)" by simp
    from step_no_room [OF Cons.prems(1,2) this] show ?thesis by auto
  next
    case True
    then have "growable \<or> op_need op (contents b h) \<le> bf_capacity b" ..
    from step_room [OF Cons.prems(1) this] obtain b1 h1 where
      1: "buffer_step grow op b h = Some (Inr (b1, h1))" "buffer_ok b1 h1" "contents b1 h1 = list_step op (contents b h)"
        "growable \<or> bf_capacity b1 = bf_capacity b" by blast
    have "\<not> run_needs (bf_capacity b1) ops (contents b1 h1)" using Cons.prems(2,3) 1(3,4) True by auto
    from Cons.IH [OF 1(2) Cons.prems(2) this] show ?thesis using 1(1) by auto
  qed
qed

end

lemma new_ok: "heap_ok h \<Longrightarrow> buffer_ok (MemoryBuffer_new d) h" "heap_ok h \<Longrightarrow> buffer_ok (FixedBuffer_new d) h"
  "contents (MemoryBuffer_new d) h = []" "contents (FixedBuffer_new d) h = []" "other_blocks (MemoryBuffer_new d) h = hp_blocks h"
  by (simp_all add: MemoryBuffer_new_def FixedBuffer_new_def buffer_ok_def memory_def contents_def other_blocks_def)

text \<open>Destroying a buffer leaves the blocks of the others.\<close>

lemma destroyed: "buffer_ok b h \<Longrightarrow> \<exists>h'. deallocate_buffer b h = Some h' \<and> hp_blocks h' = other_blocks b h"
  by (auto simp: deallocate_buffer_def deallocate_def buffer_ok_def memory_def other_blocks_def split: option.splits)



text \<open>
  \<open>grow_buffer\<close> of the writers, which \<open>Fmt_Writer\<close> has on texts: the new characters are the
  environment's.
\<close>

lemma writer_grows:
  assumes "buffer_ok b h"
  shows "\<exists>g b' h'. writer_grow_buffer (memory_grow fresh) n b h = Some (Inr ((bf_size b, b'), h')) \<and> buffer_ok b' h' \<and>
    grow_buffer g n (contents b h) = (bf_size b, contents b' h')"
proof -
  from memory_buffer.resize_room [OF assms, of "bf_size b + n" fresh] obtain b' h' x where
    1: "buffer_resize (memory_grow fresh) (bf_size b + n) b h = Some (Inr (b', h'))" "buffer_ok b' h'" "bf_size b' = bf_size b + n"
      "contents b' h' = take (bf_size b + n) (contents b h) @ x" by blast
  have c: "contents b' h' = contents b h @ x" using 1(4) length_contents [OF assms] by simp
  then have x: "length x = n" using length_contents [OF 1(2)] length_contents [OF assms] 1(3) by simp
  let ?g = "\<lparr>be_fresh = (\<lambda>i. x ! (i - bf_size b)), be_moves = (\<lambda>_ _. True)\<rparr>"
  have "map (be_fresh ?g) [bf_size b ..< bf_size b + n] = x" using x by (intro nth_equalityI) auto
  then have "grow_buffer ?g n (contents b h) = (bf_size b, contents b' h')" using c length_contents [OF assms] by (simp add: grow_buffer_def)
  then show ?thesis using 1(1,2) by (auto simp: writer_grow_buffer_def)
qed

text \<open>\<open>c_str\<close> puts a zero behind the contents, which stay the same.\<close>

lemma c_str_terminated:
  assumes "buffer_ok b h"
  shows "\<exists>b' h' m. writer_c_str (memory_grow fresh) b h = Some (Inr (b', h')) \<and> memory b' h' = Some m \<and> contents b' h' = contents b h \<and>
    take (bf_size b + 1) m = contents b h @ [CHR 0x00]"
proof -
  from memory_buffer.reserve_room [OF assms, of "bf_size b + 1" fresh] obtain b1 h1 where
    1: "buffer_reserve (memory_grow fresh) (bf_size b + 1) b h = Some (Inr (b1, h1))" "buffer_ok b1 h1" "bf_size b + 1 \<le> bf_capacity b1"
      "bf_size b1 = bf_size b" "contents b1 h1 = contents b h" by blast
  have "bf_size b1 + length [CHR 0x00] \<le> bf_capacity b1" using 1(3,4) by simp
  from write_at_end [OF 1(2) this, of "bf_size b1 + 1"] obtain b2 h2 where
    2: "write_memory (bf_size b1) [CHR 0x00] b1 h1 = Some (b2, h2)" "buffer_ok (b2\<lparr>bf_size := bf_size b1 + 1\<rparr>) h2"
      "contents (b2\<lparr>bf_size := bf_size b1 + 1\<rparr>) h2 = contents b1 h1 @ [CHR 0x00]" "contents b2 h2 = contents b1 h1"
    using 1(3,4) by auto
  obtain m where m: "memory b2 h2 = Some m" using 2(2) by (auto simp: buffer_ok_def memory_def split: option.splits)
  then have "memory (b2\<lparr>bf_size := bf_size b1 + 1\<rparr>) h2 = Some m" by (simp add: memory_def split: option.splits)
  then have "take (bf_size b + 1) m = contents b h @ [CHR 0x00]" using 2(3) 1(4,5) by (simp add: contents_def)
  then show ?thesis using 1 2 m by (auto simp: writer_c_str_def)
qed

section \<open>Moving\<close>

text \<open>
  The target of a move assignment gives its block back and has the contents of the source, which
  keeps no block.
\<close>

lemma moved_contents:
  assumes "buffer_ok b h" "buffer_ok other h" "length (bf_data b) = length (bf_data other)" "bf_ptr b = None \<or> bf_ptr b \<noteq> bf_ptr other"
  shows "\<exists>b' other' h'. MemoryBuffer_assign b other h = Some (b', other', h') \<and> buffer_ok b' h' \<and> contents b' h' = contents other h \<and>
    bf_ptr other' = None \<and> hp_blocks h' = other_blocks b h"
proof -
  obtain h' where h': "deallocate_buffer b h = Some h'" "hp_blocks h' = other_blocks b h" using destroyed [OF assms(1)] by blast
  have next_h: "hp_next h' = hp_next h"
    using h'(1) by (auto simp: deallocate_buffer_def deallocate_def split: option.splits if_splits)
  have ok: "heap_ok h'" using assms(1) h'(2) next_h by (auto simp: heap_ok_def buffer_ok_def other_blocks_def split: option.splits)
  show ?thesis
  proof (cases "bf_ptr other")
    case None
    then have d: "length (bf_data other) = bf_capacity other" "bf_size other \<le> length (bf_data other)"
      using assms(2) by (auto simp: buffer_ok_def memory_def)
    let ?b = "b\<lparr>bf_size := bf_size other, bf_capacity := bf_capacity other, bf_ptr := None,
      bf_data := take (bf_size other) (bf_data other) @ drop (bf_size other) (bf_data b)\<rparr>"
    have "MemoryBuffer_assign b other h = Some (?b, other, h')"
      using h'(1) None d assms(3) by (simp add: MemoryBuffer_assign_def move_buffer_def copy_to_fits Let_def)
    moreover have "buffer_ok ?b h'" "contents ?b h' = contents other h"
      using d assms(3) None ok by (auto simp: buffer_ok_def memory_def contents_def)
    ultimately show ?thesis using None h'(2) by blast
  next
    case (Some p)
    let ?b = "b\<lparr>bf_size := bf_size other, bf_capacity := bf_capacity other, bf_ptr := Some p\<rparr>"
    have "MemoryBuffer_assign b other h = Some (?b, other\<lparr>bf_ptr := None\<rparr>, h')"
      using h'(1) Some by (simp add: MemoryBuffer_assign_def move_buffer_def Let_def)
    moreover have "hp_blocks h' p = hp_blocks h p" using h'(2) assms(4) Some by (auto simp: other_blocks_def split: option.splits)
    then have "buffer_ok ?b h'" "contents ?b h' = contents other h"
      using assms(2) Some ok by (auto simp: buffer_ok_def memory_def contents_def)
    ultimately show ?thesis using h'(2) by (metis buffer.select_convs(2) buffer.surjective buffer.update_convs(2))
  qed
qed

text \<open>
  The source keeps the capacity of the block it gave away: when it is cleared and used again, it
  is written past the end of its array.
\<close>

lemma moved_from_overflows:
  "\<exists>b h b' other' h'. buffer_append (memory_grow (\<lambda>_. CHR ''?'')) ''abc'' (MemoryBuffer_new ''..'') heap_new = Some (Inr (b, h)) \<and>
     MemoryBuffer_assign (MemoryBuffer_new ''..'') b h = Some (b', other', h') \<and>
     buffer_append (memory_grow (\<lambda>_. CHR ''?'')) ''xyz'' (buffer_clear other') h' = None"
  by (simp add: buffer_append_def memory_grow_def MemoryBuffer_new_def memory_def allocate_def deallocate_buffer_def heap_new_def Let_def
      write_memory_def copy_to_def put_memory_def MemoryBuffer_assign_def move_buffer_def buffer_clear_def)

end
