(* ===== verification/Fmt_Float.thy ===== *)
theory Fmt_Float
  imports Fmt_Buffer
begin

text \<open>
  Floating-point numbers in the bundled fmt library: \<open>write_double\<close> and \<open>format_float\<close>
  (\<open>fmt/bundled/format.h\<close>, \<open>format.cc\<close>), which have C's \<open>snprintf\<close> write into the free part of the
  writer's buffer and arrange what it wrote in place. The type \<open>'d\<close> of the numbers and what the C
  library does with them is a parameter; the work on the buffer is not.
\<close>

section \<open>The C library\<close>

text \<open>
  \<open>fl_snprintf format args v\<close> is the whole text for a format with the arguments for its stars.
  For an array that is too small \<open>snprintf\<close> returns the length the text has, or, in C libraries
  from before C99, a negative number.
\<close>

record 'd float_lib =
  fl_signbit :: "'d \<Rightarrow> bool"
  fl_isnan :: "'d \<Rightarrow> bool"
  fl_isinf :: "'d \<Rightarrow> bool"
  fl_negate :: "'d \<Rightarrow> 'd"
  fl_snprintf :: "string \<Rightarrow> int list \<Rightarrow> 'd \<Rightarrow> string"
  fl_c99 :: bool
  fl_long :: bool

definition snprintf_at :: "'d float_lib \<Rightarrow> nat \<Rightarrow> nat \<Rightarrow> string \<Rightarrow> buffer \<Rightarrow> heap \<Rightarrow> (int \<times> buffer \<times> heap) option" where
  "snprintf_at fl start room s b h = map_option
     (\<lambda>(b, h). (if length s < room \<or> fl_c99 fl then int (length s) else - 1, b, h))
     (if room = 0 then Some (b, h) else write_memory start (take (room - 1) s @ [CHR 0x00]) b h)"

text \<open>The arguments \<open>format_float\<close> passes on, and what \<open>snprintf\<close> makes of them.\<close>

definition format_float :: "'d float_lib \<Rightarrow> string \<Rightarrow> nat \<Rightarrow> int \<Rightarrow> 'd \<Rightarrow> string" where
  "format_float fl fmt width precision v =
     fl_snprintf fl fmt ((if width = 0 then [] else [int width]) @ (if precision < 0 then [] else [precision])) v"

section \<open>Writing on the memory\<close>

text \<open>
  \<open>write_str\<close> with the pointer it gives: the padding around the \<open>str_size\<close> characters of the text, and
  then the text.
\<close>

definition pad_str :: "FormatSpec \<Rightarrow> nat \<Rightarrow> nat \<Rightarrow> string \<Rightarrow> (nat \<times> string) option" where
  "pad_str spec str_size out m = (
     let width = fs_width spec; fill = fs_fill spec in
     if width > str_size then
       if fs_align spec = ALIGN_RIGHT then do {
         m \<leftarrow> fill_to out (width - str_size) fill m;
         Some (out + (width - str_size), m)
       }
       else if fs_align spec = ALIGN_CENTER then fill_padding out width str_size fill m
       else do {
         m \<leftarrow> fill_to (out + str_size) (width - str_size) fill m;
         Some (out, m)
       }
     else Some (out, m))"

definition write_str_at ::
    "(nat \<Rightarrow> buffer \<Rightarrow> heap \<Rightarrow> buffer buffer_call) \<Rightarrow> string \<Rightarrow> FormatSpec \<Rightarrow> buffer \<Rightarrow> heap \<Rightarrow> (nat \<times> buffer) buffer_call" where
  "write_str_at grow s spec b h = (
     let size = length s; width = fs_width spec in
     bind_fmt (writer_grow_buffer grow (if width > size then width else size) b h) (\<lambda>((out, b), h).
     case memory b h of
       None \<Rightarrow> None
     | Some m \<Rightarrow> do {
         (out, m) \<leftarrow> pad_str spec size out m;
         m \<leftarrow> copy_to out s m;
         (case put_memory m b h of (b, h) \<Rightarrow> Some (Inr ((out, b), h)))
       }))"

section \<open>Numbers\<close>

definition double_type :: "char \<Rightarrow> exn + (char \<times> bool)" where
  "double_type ty =
     (if ty = CHR 0x00 then Inr (CHR ''g'', False)
      else if ty \<in> {CHR ''e'', CHR ''f'', CHR ''g'', CHR ''a''} then Inr (ty, False)
      else if ty \<in> {CHR ''F'', CHR ''E'', CHR ''G'', CHR ''A''} then Inr (ty, True)
      else Inl (report_unknown_type ty ''double''))"

definition double_sign :: "'d float_lib \<Rightarrow> 'd \<Rightarrow> FormatSpec \<Rightarrow> char option" where
  "double_sign fl v spec =
     (if fl_signbit fl v then Some (CHR ''-'')
      else if fs_flag spec SIGN_FLAG then Some (if fs_flag spec PLUS_FLAG then CHR ''+'' else CHR '' '')
      else None)"

text \<open>NaN and infinity: the text has a blank in front when there is a sign, which replaces it.\<close>

definition write_special ::
    "(nat \<Rightarrow> buffer \<Rightarrow> heap \<Rightarrow> buffer buffer_call) \<Rightarrow> string \<Rightarrow> char option \<Rightarrow> FormatSpec \<Rightarrow> buffer \<Rightarrow> heap \<Rightarrow> buffer buffer_call" where
  "write_special grow s sign spec b h =
     bind_fmt (write_str_at grow (if sign = None then s else CHR '' '' # s) spec b h) (\<lambda>((out, b), h).
       case sign of
         None \<Rightarrow> Some (Inr (b, h))
       | Some c \<Rightarrow> map_option Inr (write_memory out [c] b h))"

definition float_format :: "bool \<Rightarrow> bool \<Rightarrow> bool \<Rightarrow> int \<Rightarrow> bool \<Rightarrow> char \<Rightarrow> string" where
  "float_format hash left star precision long ty =
     ''%'' @ (if hash then ''#'' else []) @ (if left then ''-'' else []) @ (if star then ''*'' else []) @
     (if precision \<ge> 0 then ''.*'' else []) @ (if long then ''L'' else []) @ [ty]"

text \<open>The loop that makes room for the text, from \<open>offset\<close> on; it gives the text's length.\<close>

partial_function (option) float_loop ::
    "'d float_lib \<Rightarrow> (nat \<Rightarrow> buffer \<Rightarrow> heap \<Rightarrow> buffer buffer_call) \<Rightarrow> string \<Rightarrow> nat \<Rightarrow> buffer \<Rightarrow> heap \<Rightarrow> (nat \<times> buffer) buffer_call" where
  "float_loop fl grow s offset b h = (case snprintf_at fl offset (bf_capacity b - offset) s b h of
       None \<Rightarrow> None
     | Some (result, b, h) \<Rightarrow>
         if result \<ge> 0 \<and> offset + nat result < bf_capacity b then Some (Inr ((nat result, b), h))
         else (case buffer_reserve grow (if result \<ge> 0 then offset + nat result + 1 else bf_capacity b + 1) b h of
             None \<Rightarrow> None
           | Some (Inl e) \<Rightarrow> Some (Inl e)
           | Some (Inr (b, h)) \<Rightarrow> float_loop fl grow s offset b h))"

text \<open>Leading blanks become the fill; the position behind them.\<close>

function fill_blanks :: "char \<Rightarrow> nat \<Rightarrow> string \<Rightarrow> (nat \<times> string) option" where
  "fill_blanks fill i m =
     (if i \<ge> length m then None
      else if m ! i = CHR '' '' then fill_blanks fill (i + 1) (m[i := fill])
      else Some (i, m))"
  by pat_completeness auto
termination
  by (relation "measure (\<lambda>(fill, i, m). length m - i)") auto

declare fill_blanks.simps [simp del]

text \<open>
  What is done with the \<open>n\<close> characters at \<open>start\<close>: the place of the sign, centering, and the fill.
  The first gives the sign that is left to be placed.
\<close>

definition place_sign :: "char option \<Rightarrow> FormatSpec \<Rightarrow> nat \<Rightarrow> string \<Rightarrow> (char option \<times> string) option" where
  "place_sign sign spec start m = (case sign of
       None \<Rightarrow> Some (None, m)
     | Some c \<Rightarrow>
         if start \<ge> length m \<or> start = 0 then None
         else if fs_align spec \<notin> {ALIGN_RIGHT, ALIGN_DEFAULT} \<or> m ! start \<noteq> CHR '' '' then Some (None, m[start - 1 := c])
         else Some (Some c, m[start - 1 := fs_fill spec]))"

definition center_double :: "(nat \<Rightarrow> buffer \<Rightarrow> heap \<Rightarrow> buffer buffer_call) \<Rightarrow> FormatSpec \<Rightarrow> nat \<Rightarrow> buffer \<Rightarrow> heap \<Rightarrow> buffer buffer_call" where
  "center_double grow spec n b h = (
     let width = fs_width spec in
     bind_fmt (writer_grow_buffer grow width b h) (\<lambda>((p, b), h).
     case memory b h of
       None \<Rightarrow> None
     | Some m \<Rightarrow>
         if p + n > length m then None
         else do {
           m \<leftarrow> copy_to (p + (width - n) div 2) (take n (drop p m)) m;
           (_, m) \<leftarrow> fill_padding p width n (fs_fill spec) m;
           Some (Inr (put_memory m b h))
         }))"

definition finish_double ::
    "(nat \<Rightarrow> buffer \<Rightarrow> heap \<Rightarrow> buffer buffer_call) \<Rightarrow> char option \<Rightarrow> FormatSpec \<Rightarrow> nat \<Rightarrow> nat \<Rightarrow> buffer \<Rightarrow> heap \<Rightarrow> buffer buffer_call" where
  "finish_double grow sign spec start n b h = (case memory b h of
       None \<Rightarrow> None
     | Some m \<Rightarrow> do {
         (left_sign, m) \<leftarrow> place_sign sign spec start m;
         let n = (if sign = None then n else n + 1);
         let (b, h) = put_memory m b h;
         if fs_align spec = ALIGN_CENTER \<and> fs_width spec > n then center_double grow spec n b h
         else do {
           m \<leftarrow> (if fs_fill spec \<noteq> CHR '' '' \<or> left_sign \<noteq> None then do {
                  (start, m) \<leftarrow> fill_blanks (fs_fill spec) start m;
                  (case left_sign of None \<Rightarrow> Some m | Some c \<Rightarrow> if start = 0 then None else Some (m[start - 1 := c]))
                }
                else Some m);
           let (b, h) = put_memory m b h;
           bind_fmt (writer_grow_buffer grow n b h) (\<lambda>((_, b), h). Some (Inr (b, h)))
         }
       })"

definition write_double ::
    "'d float_lib \<Rightarrow> (nat \<Rightarrow> buffer \<Rightarrow> heap \<Rightarrow> buffer buffer_call) \<Rightarrow> 'd \<Rightarrow> FormatSpec \<Rightarrow> buffer \<Rightarrow> heap \<Rightarrow> buffer buffer_call" where
  "write_double fl grow v spec b h = (case double_type (fs_type spec) of
       Inl e \<Rightarrow> Some (Inl e)
     | Inr (ty, upper) \<Rightarrow>
         (let sign = double_sign fl v spec; v = (if fl_signbit fl v then fl_negate fl v else v) in
          if fl_isnan fl v then write_special grow (if upper then ''NAN'' else ''nan'') sign spec b h
          else if fl_isinf fl v then write_special grow (if upper then ''INF'' else ''inf'') sign spec b h
          else (
            let width = fs_width spec; offset = bf_size b in
            bind_fmt (if sign = None then Some (Inr (b, h)) else buffer_reserve grow (bf_size b + (if width > 1 then width else 1)) b h)
              (\<lambda>(b, h).
               let width = (if sign \<noteq> None \<and> width > 0 then width - 1 else width);
                   offset = (if sign = None then offset else offset + 1);
                   format = float_format (fs_flag spec HASH_FLAG) (fs_align spec = ALIGN_LEFT)
                     (fs_align spec \<noteq> ALIGN_CENTER \<and> width \<noteq> 0) (fs_precision spec) (fl_long fl) ty;
                   width_for_sprintf = (if fs_align spec = ALIGN_CENTER then 0 else width) in
               bind_fmt (float_loop fl grow (format_float fl format width_for_sprintf (fs_precision spec) v) offset b h)
                 (\<lambda>((n, b), h). finish_double grow sign spec offset n b h)))))"

section \<open>What is written\<close>

text \<open>
  What the C library says of \<open>snprintf\<close>: the text of a number is not empty and does not start with
  a blank, a width fills it with blanks on the left, or with \<open>-\<close> on the right.
\<close>

definition snprintf_laws :: "'d float_lib \<Rightarrow> bool" where
  "snprintf_laws fl \<longleftrightarrow> (\<forall>hash precision ty v.
     ty \<in> set ''efgaEFGA'' \<longrightarrow> (
     let args = (if precision < 0 then [] else [precision]);
         number = fl_snprintf fl (float_format hash False False precision (fl_long fl) ty) args v in
     number \<noteq> [] \<and> hd number \<noteq> CHR '' '' \<and>
     fl_snprintf fl (float_format hash True False precision (fl_long fl) ty) args v = number \<and>
     (\<forall>w > 0. fl_snprintf fl (float_format hash False True precision (fl_long fl) ty) (int w # args) v =
         replicate (w - length number) (CHR '' '') @ number \<and>
       fl_snprintf fl (float_format hash True True precision (fl_long fl) ty) (int w # args) v =
         number @ replicate (w - length number) (CHR '' ''))))"

definition number_of :: "'d float_lib \<Rightarrow> FormatSpec \<Rightarrow> char \<Rightarrow> 'd \<Rightarrow> string" where
  "number_of fl spec ty v =
     format_float fl (float_format (fs_flag spec HASH_FLAG) False False (fs_precision spec) (fl_long fl) ty) 0 (fs_precision spec) v"

text \<open>The text of a number; on the right of a left-aligned one there are blanks, whatever the fill.\<close>

definition double_text :: "'d float_lib \<Rightarrow> 'd \<Rightarrow> FormatSpec \<Rightarrow> exn + string" where
  "double_text fl v spec = bind_exn (double_type (fs_type spec)) (\<lambda>(ty, upper).
     let sign = (case double_sign fl v spec of None \<Rightarrow> [] | Some c \<Rightarrow> [c]); v = (if fl_signbit fl v then fl_negate fl v else v) in
     Inr (if fl_isnan fl v then str_text spec (sign @ (if upper then ''NAN'' else ''nan''))
       else if fl_isinf fl v then str_text spec (sign @ (if upper then ''INF'' else ''inf''))
       else aligned_text (fs_width spec) (fs_align spec) (if fs_align spec = ALIGN_LEFT then CHR '' '' else fs_fill spec)
         sign (number_of fl spec ty v)))"

section \<open>Strings\<close>

lemma length_str_text: "length (str_text spec s) = (if fs_width spec > length s then fs_width spec else length s)"
  by (cases "fs_align spec") (simp_all add: str_text_def aligned_text_def Let_def)

lemma str_layout:
  assumes "length x = (if fs_width spec > length s then fs_width spec else length s)"
  obtains L R m where "\<And>s'. length s' = length s \<Longrightarrow> str_text spec s' = L @ s' @ R"
    "pad_str spec (length s) (length t) (t @ x @ y) = Some (length t + length L, m)"
    "copy_to (length t + length L) s m = Some (t @ L @ s @ R @ y)"
proof (cases "fs_width spec > length s")
  case False
  show ?thesis
  proof (rule that [of "[]" "[]"])
    show "str_text spec s' = [] @ s' @ []" if "length s' = length s" for s'
      using False that by (simp add: str_text_def aligned_text_def split: Alignment.splits)
  qed (use False assms copy_mid [of _ t s x y] in \<open>simp_all add: pad_str_def\<close>)
next
  case True
  define n where "n = fs_width spec - length s"
  have x: "length x = n + length s" using True assms by (simp add: n_def)
  have w: "fs_width spec - length s' = n" if "length s' = length s" for s' :: string using that by (simp add: n_def)
  consider (right) "fs_align spec = ALIGN_RIGHT" | (center) "fs_align spec = ALIGN_CENTER"
    | (left) "fs_align spec \<noteq> ALIGN_RIGHT" "fs_align spec \<noteq> ALIGN_CENTER" by blast
  then show ?thesis
  proof cases
    case right
    obtain u v where uv: "x = u @ v" "length u = n" "length v = length s"
      by (rule that [of "take n x" "drop n x"]) (use x in simp_all)
    show ?thesis
    proof (rule that [of "replicate n (fs_fill spec)" "[]"])
      show "str_text spec s' = replicate n (fs_fill spec) @ s' @ []" if "length s' = length s" for s'
        using w [OF that] right by (simp add: str_text_def aligned_text_def)
      show "pad_str spec (length s) (length t) (t @ x @ y) =
          Some (length t + length (replicate n (fs_fill spec)), t @ replicate n (fs_fill spec) @ v @ y)"
        using True right uv by (simp add: pad_str_def fill_mid flip: n_def)
    qed (use uv copy_mid [of _ "t @ replicate n (fs_fill spec)" s v y] in simp)
  next
    case center
    let ?l = "n div 2" and ?r = "n - n div 2"
    obtain u v u' where uv: "x = u @ v @ u'" "length u = ?l" "length v = length s" "length u' = ?r"
    proof
      show "x = take ?l x @ take (length s) (drop ?l x) @ drop (?l + length s) x"
        by (metis add.commute append_take_drop_id drop_drop)
    qed (use x in auto)
    show ?thesis
    proof (rule that [of "replicate ?l (fs_fill spec)" "replicate ?r (fs_fill spec)"])
      show "str_text spec s' = replicate ?l (fs_fill spec) @ s' @ replicate ?r (fs_fill spec)" if "length s' = length s" for s'
        using w [OF that] center by (simp add: str_text_def aligned_text_def Let_def)
      show "pad_str spec (length s) (length t) (t @ x @ y) =
          Some (length t + length (replicate ?l (fs_fill spec)), t @ replicate ?l (fs_fill spec) @ v @ replicate ?r (fs_fill spec) @ y)"
        using True center uv fill_mid [of _ "t @ replicate ?l (fs_fill spec) @ v" ?r u' "fs_fill spec" y]
        by (simp add: pad_str_def fill_padding_def fill_mid Let_def add.assoc flip: n_def)
    qed (use uv copy_mid [of _ "t @ replicate ?l (fs_fill spec)" s v "replicate ?r (fs_fill spec) @ y"] in simp)
  next
    case left
    obtain u v where uv: "x = u @ v" "length u = length s" "length v = n"
      by (rule that [of "take (length s) x" "drop (length s) x"]) (use x in simp_all)
    show ?thesis
    proof (rule that [of "[]" "replicate n (fs_fill spec)"])
      show "str_text spec s' = [] @ s' @ replicate n (fs_fill spec)" if "length s' = length s" for s'
        using w [OF that] left by (simp add: str_text_def aligned_text_def)
      show "pad_str spec (length s) (length t) (t @ x @ y) = Some (length t + length ([] :: string), t @ u @ replicate n (fs_fill spec) @ y)"
        using True left uv fill_mid [of _ "t @ u" n v "fs_fill spec" y] by (simp add: pad_str_def flip: n_def)
    qed (use uv copy_mid [of _ t s u] in simp)
  qed
qed

lemma memory_split: "buffer_ok b h \<Longrightarrow> memory b h = Some m \<Longrightarrow> m = contents b h @ drop (bf_size b) m"
  by (simp add: contents_def)

text \<open>A buffer whose memory is replaced by one of the same size.\<close>

lemma put_memory_ok:
  assumes "buffer_ok b h" "length m = bf_capacity b"
  obtains b' h' where "put_memory m b h = (b', h')" "buffer_ok b' h'" "bf_size b' = bf_size b" "bf_capacity b' = bf_capacity b"
    "memory b' h' = Some m" "contents b' h' = take (bf_size b) m" "other_blocks b' h' = other_blocks b h"
proof -
  obtain m0 where m0: "memory b h = Some m0" using assms(1) by (rule buffer_okE)
  obtain b' h' where p: "put_memory m b h = (b', h')" by fastforce
  note q = put_memoryE [OF p m0]
  have "heap_ok h" using assms(1) by (simp add: buffer_ok_def)
  note q = q [OF this]
  then show ?thesis using that p assms by (simp add: buffer_ok_def contents_def)
qed

text \<open>\<open>write_str\<close> appends the padded text; the pointer is the one to the text in its padding.\<close>

lemma write_str_at_appends:
  assumes "buffer_ok b h"
  obtains L R b' h' where "write_str_at (memory_grow fresh) s spec b h = Some (Inr ((bf_size b + length L, b'), h'))" "buffer_ok b' h'"
    "contents b' h' = contents b h @ L @ s @ R" "other_blocks b' h' = other_blocks b h"
    "\<And>s'. length s' = length s \<Longrightarrow> str_text spec s' = L @ s' @ R"
proof -
  let ?n = "if fs_width spec > length s then fs_width spec else length s"
  from memory_buffer.resize_room [OF assms, of "bf_size b + ?n" fresh] obtain b1 h1 x where
    1: "buffer_resize (memory_grow fresh) (bf_size b + ?n) b h = Some (Inr (b1, h1))" "buffer_ok b1 h1" "bf_size b1 = bf_size b + ?n"
      "contents b1 h1 = take (bf_size b + ?n) (contents b h) @ x" "other_blocks b1 h1 = other_blocks b h" by blast
  have l: "length (contents b h) = bf_size b" using assms by (rule length_contents)
  have c: "contents b1 h1 = contents b h @ x" using 1(4) l by simp
  then have x: "length x = ?n" using length_contents [OF 1(2)] l 1(3) by simp
  obtain m where m: "memory b1 h1 = Some m" "length m = bf_capacity b1" using 1(2) by (rule buffer_okE)
  have split: "m = contents b h @ x @ drop (bf_size b1) m" using memory_split [OF 1(2) m(1)] c by simp
  obtain L R m1 where
    L: "\<And>s'. length s' = length s \<Longrightarrow> str_text spec s' = L @ s' @ R" "pad_str spec (length s) (bf_size b) m = Some (bf_size b + length L, m1)"
      "copy_to (bf_size b + length L) s m1 = Some (contents b h @ L @ s @ R @ drop (bf_size b1) m)"
    using str_layout [OF x, of "contents b h" "drop (bf_size b1) m"] l split [symmetric] by metis
  have n: "length (L @ s @ R) = ?n" unfolding L(1) [OF refl, symmetric] by (rule length_str_text)
  have "length (contents b h @ L @ s @ R @ drop (bf_size b1) m) = length m"
    using n l x by (subst split) (simp only: length_append add.assoc)
  then have "length (contents b h @ L @ s @ R @ drop (bf_size b1) m) = bf_capacity b1" using m(2) by simp
  then obtain b2 h2 where
    2: "put_memory (contents b h @ L @ s @ R @ drop (bf_size b1) m) b1 h1 = (b2, h2)" "buffer_ok b2 h2"
      "contents b2 h2 = take (bf_size b1) (contents b h @ L @ s @ R @ drop (bf_size b1) m)" "other_blocks b2 h2 = other_blocks b1 h1"
    using put_memory_ok [OF 1(2)] by metis
  have "bf_size b1 = length (contents b h @ L @ s @ R)" using n l 1(3) by simp
  then have "contents b2 h2 = contents b h @ L @ s @ R" unfolding 2(3) by simp
  moreover have "write_str_at (memory_grow fresh) s spec b h = Some (Inr ((bf_size b + length L, b2), h2))"
    unfolding write_str_at_def writer_grow_buffer_def Let_def 1(1) using m(1) L(2,3) 2(1) by simp
  ultimately show ?thesis using that 1(5) 2(2,4) L(1) by simp
qed

lemma write_special_ok:
  assumes "buffer_ok b h"
  shows "\<exists>b' h'. write_special (memory_grow fresh) s sign spec b h = Some (Inr (b', h')) \<and> buffer_ok b' h' \<and>
    contents b' h' = contents b h @ str_text spec ((case sign of None \<Rightarrow> [] | Some c \<Rightarrow> [c]) @ s) \<and> other_blocks b' h' = other_blocks b h"
proof -
  let ?s = "if sign = None then s else CHR '' '' # s"
  obtain L R b1 h1 where 1: "write_str_at (memory_grow fresh) ?s spec b h = Some (Inr ((bf_size b + length L, b1), h1))" "buffer_ok b1 h1"
    "contents b1 h1 = contents b h @ L @ ?s @ R" "other_blocks b1 h1 = other_blocks b h"
    "\<And>s'. length s' = length ?s \<Longrightarrow> str_text spec s' = L @ s' @ R" by (rule write_str_at_appends [OF assms, of fresh ?s spec]) blast
  show ?thesis
  proof (cases sign)
    case None
    then show ?thesis using 1 by (simp add: write_special_def)
  next
    case (Some c)
    obtain m where m: "memory b1 h1 = Some m" "length m = bf_capacity b1" using 1(2) by (rule buffer_okE)
    let ?y = "drop (bf_size b1) m" and ?i = "bf_size b + length L"
    have l: "length (contents b h) = bf_size b" using assms by (rule length_contents)
    have split: "m = contents b h @ L @ CHR '' '' # s @ R @ ?y" using memory_split [OF 1(2) m(1)] 1(3) Some by simp
    have "copy_to ?i [c] m = Some (contents b h @ L @ c # s @ R @ ?y)"
      by (subst split) (use copy_mid [of ?i "contents b h @ L" "[c]" "'' ''" "s @ R @ ?y"] l in simp)
    then have w: "write_memory ?i [c] b1 h1 = Some (put_memory (contents b h @ L @ c # s @ R @ ?y) b1 h1)"
      using m(1) by (simp add: write_memory_def)
    have "length (contents b h @ L @ c # s @ R @ ?y) = length m" by (subst split) simp
    then have "length (contents b h @ L @ c # s @ R @ ?y) = bf_capacity b1" using m(2) by simp
    then obtain b2 h2 where
      2: "put_memory (contents b h @ L @ c # s @ R @ ?y) b1 h1 = (b2, h2)" "buffer_ok b2 h2"
        "contents b2 h2 = take (bf_size b1) (contents b h @ L @ c # s @ R @ ?y)" "other_blocks b2 h2 = other_blocks b1 h1"
      using put_memory_ok [OF 1(2)] by metis
    have "bf_size b1 = length (contents b h @ L @ c # s @ R)" using length_contents [OF 1(2)] 1(3) Some by simp
    then have "contents b2 h2 = contents b h @ str_text spec (c # s)" unfolding 2(3) using 1(5) [of "c # s"] Some by simp
    moreover have "write_special (memory_grow fresh) s sign spec b h = Some (Inr (b2, h2))"
      using 1(1) w 2(1) Some by (simp add: write_special_def)
    ultimately show ?thesis using 1(4) 2(2,4) Some by simp
  qed
qed

section \<open>Making room\<close>

text \<open>
  The loop around \<open>snprintf\<close> ends, whatever the C library returns for an array that is too small,
  with the whole text behind \<open>offset\<close>, where the contents of the buffer do not reach.
\<close>

lemma snprintf_at_ok:
  assumes "buffer_ok b h" "bf_size b \<le> offset" "offset \<le> bf_capacity b"
  shows "\<exists>b' h'. snprintf_at fl offset (bf_capacity b - offset) s b h =
      Some (if offset + length s < bf_capacity b \<or> fl_c99 fl then int (length s) else - 1, b', h') \<and> buffer_ok b' h' \<and>
    bf_size b' = bf_size b \<and> bf_capacity b' = bf_capacity b \<and> contents b' h' = contents b h \<and> other_blocks b' h' = other_blocks b h \<and>
    (offset + length s < bf_capacity b \<longrightarrow> (\<exists>m y. memory b' h' = Some (m @ s @ y) \<and> length m = offset \<and> y \<noteq> []))"
proof (cases "bf_capacity b - offset = 0")
  case True
  then show ?thesis using assms by (simp add: snprintf_at_def)
next
  case False
  let ?t = "take (bf_capacity b - offset - 1) s @ [CHR 0x00]"
  obtain m where m: "memory b h = Some m" "length m = bf_capacity b" using assms(1) by (rule buffer_okE)
  have "offset + length ?t \<le> bf_capacity b" using False by (auto simp: min_def)
  from write_free [OF assms(1) m(1) assms(2) this] obtain b' h' where
    w: "write_memory offset ?t b h = Some (b', h')" "buffer_ok b' h'" "bf_size b' = bf_size b" "bf_capacity b' = bf_capacity b"
      "contents b' h' = contents b h" "other_blocks b' h' = other_blocks b h"
      "memory b' h' = Some (take offset m @ ?t @ drop (offset + length ?t) m)" by blast
  have e: "length s < bf_capacity b - offset \<longleftrightarrow> offset + length s < bf_capacity b" by (simp add: less_diff_conv add.commute)
  have "\<exists>m y. memory b' h' = Some (m @ s @ y) \<and> length m = offset \<and> y \<noteq> []" if "offset + length s < bf_capacity b"
    by (rule exI [of _ "take offset m"], rule exI [of _ "CHR 0x00 # drop (offset + length ?t) m"])
      (use w(7) that assms(3) m(2) in simp)
  then show ?thesis using w(1-6) False by (auto simp: snprintf_at_def e)
qed

lemma float_loop_ends:
  assumes "buffer_ok b h" "bf_size b \<le> offset" "offset \<le> bf_capacity b"
  shows "\<exists>b' h' m y. float_loop fl (memory_grow fresh) s offset b h = Some (Inr ((length s, b'), h')) \<and> buffer_ok b' h' \<and>
    bf_size b' = bf_size b \<and> bf_capacity b \<le> bf_capacity b' \<and> contents b' h' = contents b h \<and> other_blocks b' h' = other_blocks b h \<and>
    memory b' h' = Some (m @ s @ y) \<and> length m = offset \<and> y \<noteq> []"
  using assms
proof (induction "offset + length s + 1 - bf_capacity b" arbitrary: b h rule: less_induct)
  case less
  let ?r = "if offset + length s < bf_capacity b \<or> fl_c99 fl then int (length s) else - 1"
  obtain b1 h1 where 1: "snprintf_at fl offset (bf_capacity b - offset) s b h = Some (?r, b1, h1)" "buffer_ok b1 h1"
    "bf_size b1 = bf_size b" "bf_capacity b1 = bf_capacity b" "contents b1 h1 = contents b h" "other_blocks b1 h1 = other_blocks b h"
    "offset + length s < bf_capacity b \<longrightarrow> (\<exists>m y. memory b1 h1 = Some (m @ s @ y) \<and> length m = offset \<and> y \<noteq> [])"
    using snprintf_at_ok [OF less.prems] by blast
  show ?case
  proof (cases "offset + length s < bf_capacity b")
    case True
    then have "float_loop fl (memory_grow fresh) s offset b h = Some (Inr ((length s, b1), h1))"
      using 1(1,4) by (subst float_loop.simps) simp
    then show ?thesis using 1 True by auto
  next
    case False
    let ?n = "if fl_c99 fl then offset + length s + 1 else bf_capacity b + 1"
    obtain b2 h2 where 2: "buffer_reserve (memory_grow fresh) ?n b1 h1 = Some (Inr (b2, h2))" "buffer_ok b2 h2" "?n \<le> bf_capacity b2"
      "bf_size b2 = bf_size b1" "contents b2 h2 = contents b1 h1" "other_blocks b2 h2 = other_blocks b1 h1"
      using memory_buffer.reserve_room [OF 1(2), of ?n fresh] by blast
    have cap: "bf_capacity b < bf_capacity b2" using 2(3) False by (auto split: if_splits)
    have "float_loop fl (memory_grow fresh) s offset b h = float_loop fl (memory_grow fresh) s offset b2 h2"
      using 1(1,4) 2(1) False by (subst float_loop.simps) (auto simp: nat_add_distrib)
    moreover have "offset + length s + 1 - bf_capacity b2 < offset + length s + 1 - bf_capacity b" using cap False by simp
    note less.hyps [OF this 2(2)]
    ultimately show ?thesis using 1(3-6) 2(4-6) cap less.prems(2,3) by fastforce
  qed
qed

section \<open>In its place\<close>

lemma fill_blanks_run:
  "i = length x \<Longrightarrow> z \<noteq> [] \<Longrightarrow> hd z \<noteq> CHR '' '' \<Longrightarrow>
    fill_blanks f i (x @ replicate k (CHR '' '') @ z) = Some (i + k, x @ replicate k f @ z)"
proof (induction k arbitrary: i x)
  case 0
  then show ?case by (subst fill_blanks.simps) (auto simp: nth_append hd_conv_nth)
next
  case (Suc k)
  have "fill_blanks f i (x @ replicate (Suc k) (CHR '' '') @ z) = fill_blanks f (i + 1) ((x @ [f]) @ replicate k (CHR '' '') @ z)"
    using Suc.prems by (subst fill_blanks.simps) (simp add: nth_append)
  also have "\<dots> = Some (i + 1 + k, (x @ [f]) @ replicate k f @ z)" using Suc.prems by (intro Suc.IH) simp_all
  finally show ?case by (simp add: replicate_app_Cons_same)
qed

text \<open>Growing inside of the capacity moves nothing.\<close>

lemma grow_in_place:
  assumes "buffer_ok b h" "memory b h = Some m" "bf_size b + n \<le> bf_capacity b"
  shows "writer_grow_buffer grow n b h = Some (Inr ((bf_size b, b\<lparr>bf_size := bf_size b + n\<rparr>), h))"
    "buffer_ok (b\<lparr>bf_size := bf_size b + n\<rparr>) h" "memory (b\<lparr>bf_size := bf_size b + n\<rparr>) h = Some m"
    "contents (b\<lparr>bf_size := bf_size b + n\<rparr>) h = take (bf_size b + n) m"
    "other_blocks (b\<lparr>bf_size := bf_size b + n\<rparr>) h = other_blocks b h"
  using assms by (auto simp: writer_grow_buffer_def buffer_resize_def buffer_ok_def memory_def contents_def other_blocks_def
      split: option.splits)

text \<open>
  The sign goes in front of the number, into the blanks of a right-aligned one, whose fill then
  includes the place left for it.
\<close>

lemma sign_and_fill:
  assumes "length C + length J = start" "length J = (if sign = None then 0 else 1)" "num \<noteq> []" "hd num \<noteq> CHR '' ''"
    "k = 0 \<or> fs_align spec \<noteq> ALIGN_LEFT \<and> fs_align spec \<noteq> ALIGN_CENTER"
    "sg = (case sign of None \<Rightarrow> [] | Some c \<Rightarrow> [c])"
    "m' = C @ (if fs_align spec = ALIGN_NUMERIC then sg @ replicate k (fs_fill spec) else replicate k (fs_fill spec) @ sg) @ num @ y"
  shows "do {
      (left_sign, m) \<leftarrow> place_sign sign spec start (C @ J @ replicate k (CHR '' '') @ num @ y);
      if fs_fill spec \<noteq> CHR '' '' \<or> left_sign \<noteq> None then do {
        (start, m) \<leftarrow> fill_blanks (fs_fill spec) start m;
        (case left_sign of None \<Rightarrow> Some m | Some c \<Rightarrow> if start = 0 then None else Some (m[start - 1 := c]))
      }
      else Some m
    } = Some m'"
proof (cases sign)
  case None
  then show ?thesis using assms fill_blanks_run [of start C "num @ y" "fs_fill spec" k] by (auto simp: place_sign_def)
next
  case (Some c)
  then obtain j where J: "J = [j]" "start = length C + 1" using assms(1,2) by (cases J) auto
  have at: "(C @ J @ replicate k (CHR '' '') @ num @ y) ! start = (replicate k (CHR '' '') @ num @ y) ! 0"
    using J by (simp add: nth_append)
  have first: "(replicate k (CHR '' '') @ num @ y) ! 0 = CHR '' '' \<longleftrightarrow> k > 0" using assms(3,4)
    by (cases k) (auto simp: nth_append hd_conv_nth)
  have set_sign: "(C @ J @ replicate k (CHR '' '') @ num @ y)[start - 1 := x] = (C @ [x]) @ replicate k (CHR '' '') @ num @ y" for x
    using J by (simp add: list_update_append)
  have fb: "fill_blanks f start ((C @ [x]) @ replicate k (CHR '' '') @ num @ y) = Some (start + k, (C @ [x]) @ replicate k f @ num @ y)" for f x
    by (rule fill_blanks_run) (use assms(3,4) J in auto)
  show ?thesis
  proof (cases "(fs_align spec = ALIGN_RIGHT \<or> fs_align spec = ALIGN_DEFAULT) \<and> k > 0")
    case True
    then have "place_sign sign spec start (C @ J @ replicate k (CHR '' '') @ num @ y) =
        Some (Some c, (C @ [fs_fill spec]) @ replicate k (CHR '' '') @ num @ y)"
      using Some J at first set_sign assms(3) by (auto simp: place_sign_def)
    moreover have "((C @ [fs_fill spec]) @ replicate k (fs_fill spec) @ num @ y)[start + k - 1 := c] = m'"
    proof -
      have e: "(C @ [fs_fill spec]) @ replicate k (fs_fill spec) @ num @ y = (C @ replicate k (fs_fill spec)) @ fs_fill spec # num @ y"
        by (simp add: replicate_app_Cons_same)
      have i: "start + k - 1 = length (C @ replicate k (fs_fill spec))" using J by simp
      show ?thesis unfolding e i list_update_length using True Some assms(6,7) by auto
    qed
    ultimately show ?thesis using fb J by simp
  next
    case False
    then have k: "k = 0 \<or> fs_align spec = ALIGN_NUMERIC" using assms(5) by (cases "fs_align spec") auto
    from False have "place_sign sign spec start (C @ J @ replicate k (CHR '' '') @ num @ y) =
        Some (None, (C @ [c]) @ replicate k (CHR '' '') @ num @ y)"
      using Some J at first set_sign assms(3) by (auto simp: place_sign_def)
    then show ?thesis using fb k Some assms(6,7) by auto
  qed
qed

lemma finish_plain:
  assumes ok: "buffer_ok b h" and m: "memory b h = Some (contents b h @ J @ replicate k (CHR '' '') @ num @ y)"
    and J: "length J = (if sign = None then 0 else 1)" and start: "start = bf_size b + length J"
    and n: "n = k + length num + r" "r \<le> length y" and num: "num \<noteq> []" "hd num \<noteq> CHR '' ''"
    and k: "k = 0 \<or> fs_align spec \<noteq> ALIGN_LEFT \<and> fs_align spec \<noteq> ALIGN_CENTER"
    and wide: "\<not> (fs_align spec = ALIGN_CENTER \<and> fs_width spec > length J + n)"
    and sg: "sg = (case sign of None \<Rightarrow> [] | Some c \<Rightarrow> [c])"
  shows "\<exists>b' h'. finish_double grow sign spec start n b h = Some (Inr (b', h')) \<and> buffer_ok b' h' \<and>
    contents b' h' = contents b h @ (if fs_align spec = ALIGN_NUMERIC then sg @ replicate k (fs_fill spec) else replicate k (fs_fill spec) @ sg) @
      num @ take r y \<and> other_blocks b' h' = other_blocks b h"
proof -
  let ?pre = "if fs_align spec = ALIGN_NUMERIC then sg @ replicate k (fs_fill spec) else replicate k (fs_fill spec) @ sg"
  let ?m = "contents b h @ J @ replicate k (CHR '' '') @ num @ y" and ?m' = "contents b h @ ?pre @ num @ y"
  let ?n = "if sign = None then n else n + 1"
  have lm: "length ?m = bf_capacity b" using ok m by (auto simp: buffer_ok_def)
  have lc: "length (contents b h) = bf_size b" using ok by (rule length_contents)
  have lsg: "length sg = length J" using J sg by (simp split: option.splits)
  have "length (contents b h) + length J = start" using lc start by simp
  note fin = sign_and_fill [OF this J num k sg refl, where y = y]
  then obtain left_sign m1 where
    1: "place_sign sign spec start ?m = Some (left_sign, m1)"
      "(if fs_fill spec \<noteq> CHR '' '' \<or> left_sign \<noteq> None then do {
          (start, m) \<leftarrow> fill_blanks (fs_fill spec) start m1;
          (case left_sign of None \<Rightarrow> Some m | Some c \<Rightarrow> if start = 0 then None else Some (m[start - 1 := c]))
        } else Some m1) = Some ?m'"
    by (cases "place_sign sign spec start ?m") auto
  have "length m1 = length ?m" using 1(1) by (auto simp: place_sign_def split: option.splits if_splits)
  from trans [OF this lm] have "length m1 = bf_capacity b" .
  then obtain b1 h1 where 2: "put_memory m1 b h = (b1, h1)" "buffer_ok b1 h1" "bf_size b1 = bf_size b" "bf_capacity b1 = bf_capacity b"
    "other_blocks b1 h1 = other_blocks b h" using put_memory_ok [OF ok] by metis
  have "length ?m' = length ?m" using lsg by simp
  then have "length ?m' = bf_capacity b1" using lm 2(4) by (simp only:)
  then obtain b2 h2 where 3: "put_memory ?m' b1 h1 = (b2, h2)" "buffer_ok b2 h2" "bf_size b2 = bf_size b1" "bf_capacity b2 = bf_capacity b1"
    "memory b2 h2 = Some ?m'" "other_blocks b2 h2 = other_blocks b1 h1" using put_memory_ok [OF 2(2)] by metis
  have nn: "?n = length J + n" using J by simp
  have "bf_size b2 + ?n \<le> bf_capacity b2" unfolding nn using 2(3,4) 3(3,4) lm lc n by simp
  note 4 = grow_in_place [OF 3(2,5) this]
  have "finish_double grow sign spec start n b h = Some (Inr (b2\<lparr>bf_size := bf_size b2 + ?n\<rparr>, h2))"
    unfolding finish_double_def Let_def m using 1(1) 2(1) wide nn 1(2) 3(1) 4(1) [of grow] by (simp add: add.commute, use wide in auto)
  moreover have "take (bf_size b2 + ?n) ?m' = contents b h @ ?pre @ num @ take r y"
    unfolding nn using 2(3) 3(3) lc lsg n by simp
  ultimately show ?thesis using 2(5) 3(6) 4 by metis
qed

lemma three_pieces:
  assumes "i + j + k \<le> length x"
  obtains u v w z where "x = u @ v @ w @ z" "length u = i" "length v = j" "length w = k"
proof -
  have "x = take i x @ take j (drop i x) @ take k (drop j (drop i x)) @ drop k (drop j (drop i x))"
    by (simp only: append_take_drop_id)
  then show ?thesis by (rule that) (use assms in simp_all)
qed

lemma center_double_eq:
  assumes "writer_grow_buffer grow (fs_width spec) b h = Some (Inr ((p, b'), h'))" "memory b' h' = Some m" "p + n \<le> length m"
    "copy_to (p + (fs_width spec - n) div 2) (take n (drop p m)) m = Some m1" "fill_padding p (fs_width spec) n (fs_fill spec) m1 = Some (q, m2)"
  shows "center_double grow spec n b h = Some (Inr (put_memory m2 b' h'))"
  using assms by (simp add: center_double_def Let_def)

lemma finish_center_eq:
  assumes "memory b h = Some m" "place_sign sign spec start m = Some (l, m1)" "put_memory m1 b h = (b1, h1)"
    "fs_align spec = ALIGN_CENTER" "n' = (if sign = None then n else n + 1)" "fs_width spec > n'"
    "center_double grow spec n' b1 h1 = Some (Inr r)"
  shows "finish_double grow sign spec start n b h = Some (Inr r)"
  using assms(1-4,6,7) unfolding assms(5) by (simp add: finish_double_def Let_def)

lemma finish_center:
  assumes ok: "buffer_ok b h" and m: "memory b h = Some (contents b h @ J @ num @ y)"
    and J: "length J = (if sign = None then 0 else 1)" and start: "start = bf_size b + length J"
    and num: "num \<noteq> []" "hd num \<noteq> CHR '' ''" and center: "fs_align spec = ALIGN_CENTER"
    and wide: "fs_width spec > length J + length num" and room: "bf_size b + fs_width spec \<le> bf_capacity b"
    and sg: "sg = (case sign of None \<Rightarrow> [] | Some c \<Rightarrow> [c])"
  shows "\<exists>b' h'. finish_double grow sign spec start (length num) b h = Some (Inr (b', h')) \<and> buffer_ok b' h' \<and>
    contents b' h' = contents b h @ aligned_text (fs_width spec) ALIGN_CENTER (fs_fill spec) sg num \<and> other_blocks b' h' = other_blocks b h"
proof -
  let ?m = "contents b h @ J @ num @ y" and ?m1 = "contents b h @ sg @ num @ y" and ?w = "fs_width spec" and ?t = "sg @ num"
  let ?n = "if sign = None then length num else length num + 1"
  define n where "n = ?w - length ?t"
  have lm: "length ?m = bf_capacity b" using ok m by (auto simp: buffer_ok_def)
  have lc: "length (contents b h) = bf_size b" using ok by (rule length_contents)
  have lsg: "length sg = length J" using J sg by (simp split: option.splits)
  have nn: "?n = length ?t" using J lsg by simp
  have w: "?w = n + length ?t" using wide lsg by (simp add: n_def)
  have 1: "place_sign sign spec start ?m = Some (None, ?m1)"
  proof (cases sign)
    case None
    then show ?thesis using J sg by (simp add: place_sign_def)
  next
    case (Some c)
    then obtain j where "J = [j]" using J by (cases J) auto
    then show ?thesis using Some start sg lc num(1) center by (auto simp: place_sign_def list_update_append)
  qed
  have l1: "length ?m1 = bf_capacity b" using lm lsg by simp
  then obtain b1 h1 where 2: "put_memory ?m1 b h = (b1, h1)" "buffer_ok b1 h1" "bf_size b1 = bf_size b" "bf_capacity b1 = bf_capacity b"
    "memory b1 h1 = Some ?m1" "other_blocks b1 h1 = other_blocks b h" using put_memory_ok [OF ok] by metis
  have "bf_size b1 + ?w \<le> bf_capacity b1" using room 2(3,4) by simp
  note 3 = grow_in_place [OF 2(2,5) this]
  let ?b = "b1\<lparr>bf_size := bf_size b1 + ?w\<rparr>" and ?l = "n div 2" and ?r = "n - n div 2"
  have "?l + length ?t + ?r \<le> length (?t @ y)" using l1 lc room w by simp
  then obtain u v u' y' where uv: "?t @ y = u @ v @ u' @ y'" "length u = ?l" "length v = length ?t" "length u' = ?r"
    by (rule three_pieces)
  have m1: "?m1 = contents b h @ u @ v @ u' @ y'" using uv(1) by simp
  let ?L = "replicate ?l (fs_fill spec)" and ?R = "replicate ?r (fs_fill spec)" and ?c = "contents b h"
  have p: "bf_size b1 = length ?c" using lc 2(3) by simp
  have t: "take (length ?t) (drop (length ?c) ?m1) = ?t" by simp
  have c: "copy_to (length ?c + (?w - length ?t) div 2) (take (length ?t) (drop (length ?c) ?m1)) ?m1 = Some (?c @ u @ ?t @ u' @ y')"
    unfolding t unfolding n_def [symmetric] m1 using copy_mid [of "length ?c + ?l" "?c @ u" ?t v "u' @ y'"] uv(2,3) by simp
  have f: "fill_padding (length ?c) ?w (length ?t) (fs_fill spec) (?c @ u @ ?t @ u' @ y') =
      Some (length ?c + ?l, ?c @ ?L @ ?t @ ?R @ y')"
    using uv(2,4) fill_mid [of _ "?c @ ?L @ ?t" ?r u' "fs_fill spec" y'] fill_mid [of _ ?c ?l u "fs_fill spec" "?t @ u' @ y'"]
    by (simp add: fill_padding_def Let_def add.assoc w)
  have room1: "bf_size b1 + length ?t \<le> length ?m1" unfolding p by simp
  have 4: "center_double grow spec (length ?t) b1 h1 = Some (Inr (put_memory (?c @ ?L @ ?t @ ?R @ y') ?b h1))"
    by (rule center_double_eq [OF 3(1,3) room1 c [folded p] f [folded p]])
  have "length (?c @ ?L @ ?t @ ?R @ y') = length ?m1" unfolding m1 using uv(2-4) by simp
  from trans [OF this l1] have "length (?c @ ?L @ ?t @ ?R @ y') = bf_capacity ?b" using 2(4) by simp
  then obtain b2 h2 where 5: "put_memory (?c @ ?L @ ?t @ ?R @ y') ?b h1 = (b2, h2)" "buffer_ok b2 h2"
    "contents b2 h2 = take (bf_size ?b) (?c @ ?L @ ?t @ ?R @ y')" "other_blocks b2 h2 = other_blocks ?b h1" by (rule put_memory_ok [OF 3(2)])
  have "bf_size ?b = length (?c @ ?L @ ?t @ ?R)" using lc 2(3) w by simp
  then have "contents b2 h2 = ?c @ ?L @ ?t @ ?R" unfolding 5(3) by simp
  moreover have "aligned_text ?w ALIGN_CENTER (fs_fill spec) sg num = ?L @ ?t @ ?R" by (simp add: aligned_text_def n_def Let_def)
  moreover have "finish_double grow sign spec start (length num) b h = Some (Inr (b2, h2))"
    by (rule finish_center_eq [OF m 1 2(1) center nn [symmetric]]) (use wide lsg 4 5(1) in simp_all)
  ultimately show ?thesis using 5(2,4) 3(5) 2(6) by simp
qed

section \<open>The whole number\<close>

lemma double_type_valid: "double_type ty = Inr (ty', upper) \<Longrightarrow> ty' \<in> set ''efgaEFGA''"
  by (auto simp: double_type_def split: if_splits)

text \<open>What \<open>snprintf\<close> makes of the format that \<open>write_double\<close> has built.\<close>

lemma sprintf_text:
  assumes "snprintf_laws fl" "ty \<in> set ''efgaEFGA''" "num = number_of fl spec ty v"
    "fmt = float_format (fs_flag spec HASH_FLAG) (fs_align spec = ALIGN_LEFT) (fs_align spec \<noteq> ALIGN_CENTER \<and> w \<noteq> 0) (fs_precision spec) (fl_long fl) ty"
  shows "num \<noteq> []" "hd num \<noteq> CHR '' ''"
    "format_float fl fmt (if fs_align spec = ALIGN_CENTER then 0 else w) (fs_precision spec) v =
       (if fs_align spec = ALIGN_CENTER then num
        else if fs_align spec = ALIGN_LEFT then num @ replicate (w - length num) (CHR '' '')
        else replicate (w - length num) (CHR '' '') @ num)"
  using assms(1) [unfolded snprintf_laws_def Let_def, rule_format, OF assms(2), where precision = "fs_precision spec" and hash = "fs_flag spec HASH_FLAG" and v = v]
  by (auto simp: assms(3,4) number_of_def format_float_def)

lemma write_double_finite:
  assumes "double_type (fs_type spec) = Inr (ty, upper)" "sign = double_sign fl v spec" "u = (if fl_signbit fl v then fl_negate fl v else v)"
    "\<not> fl_isnan fl u" "\<not> fl_isinf fl u" "w = fs_width spec - (if sign = None then 0 else 1)" "offset = bf_size b + (if sign = None then 0 else 1)"
    "fmt = float_format (fs_flag spec HASH_FLAG) (fs_align spec = ALIGN_LEFT) (fs_align spec \<noteq> ALIGN_CENTER \<and> w \<noteq> 0) (fs_precision spec) (fl_long fl) ty"
    "(if sign = None then Some (Inr (b, h)) else buffer_reserve grow (bf_size b + (if fs_width spec > 1 then fs_width spec else 1)) b h) = Some (Inr (b1, h1))"
    "float_loop fl grow (format_float fl fmt (if fs_align spec = ALIGN_CENTER then 0 else w) (fs_precision spec) u) offset b1 h1 = Some (Inr ((n, b2), h2))"
  shows "write_double fl grow v spec b h = finish_double grow sign spec offset n b2 h2"
proof -
  have w: "(if sign \<noteq> None \<and> fs_width spec > 0 then fs_width spec - 1 else fs_width spec) = w"
    "(if sign = None then bf_size b else bf_size b + 1) = offset" using assms(6,7) by auto
  show ?thesis unfolding write_double_def assms(1) sum.case prod.case Let_def assms(2,3) [symmetric]
    by (simp only: assms(4,5,9) if_False bind_fmt_simps prod.case w assms(8) [symmetric] assms(10))
qed


text \<open>A library that knows numbers by their sign and digits, and shows them with all of them.\<close>

definition sample_lib :: "(bool \<times> string) float_lib" where
  "sample_lib = \<lparr>fl_signbit = fst, fl_isnan = (\<lambda>v. snd v = ''nan''), fl_isinf = (\<lambda>v. snd v = ''inf''),
     fl_negate = (\<lambda>(neg, ds). (\<not> neg, ds)),
     fl_snprintf = (\<lambda>fmt args v.
       let number = (if snd v = [] \<or> hd (snd v) = CHR '' '' then ''0'' else snd v);
           blanks = (if length args > (if CHR ''.'' \<in> set fmt then 1 else 0) then replicate (nat (hd args) - length number) (CHR '' '') else [])
       in if CHR ''-'' \<in> set fmt then number @ blanks else blanks @ number),
     fl_c99 = True, fl_long = False\<rparr>"

lemma sample_lib_laws: "snprintf_laws sample_lib"
proof -
  have "CHR ''-'' \<in> set (float_format hash left star precision long ty) \<longleftrightarrow> left"
    "CHR ''.'' \<in> set (float_format hash left star precision long ty) \<longleftrightarrow> precision \<ge> 0" if "ty \<in> set ''efgaEFGA''" for hash left star precision long ty
    using that by (auto simp: float_format_def)
  then show ?thesis by (simp add: snprintf_laws_def sample_lib_def Let_def)
qed


text \<open>
  Without that room the padding moves the buffer, to a block that gets the contents of the buffer
  only: the digits, which are behind them, are lost.
\<close>

lemma centered_number_lost:
  "\<exists>b h. write_double sample_lib (memory_grow (\<lambda>_. CHR ''?'')) (False, ''1.5'')
     \<lparr>fs_width = 7, fs_fill = CHR '' '', fs_align = ALIGN_CENTER, fs_flags = 0, fs_precision = - 1, fs_type = CHR ''f''\<rparr>
     (MemoryBuffer_new ''....'') heap_new = Some (Inr (b, h)) \<and> contents b h = ''  ???  ''"
proof -
  let ?spec = "\<lparr>fs_width = 7, fs_fill = CHR '' '', fs_align = ALIGN_CENTER, fs_flags = 0, fs_precision = - 1, fs_type = CHR ''f''\<rparr>"
    and ?b = "MemoryBuffer_new ''....''" and ?grow = "memory_grow (\<lambda>_. CHR ''?'')" and ?v = "(False, ''1.5'')"
  let ?b1 = "?b\<lparr>bf_data := ''1.5'' @ [CHR 0x00]\<rparr>"
  let ?fmt = "float_format (fs_flag ?spec HASH_FLAG) (fs_align ?spec = ALIGN_LEFT) (fs_align ?spec \<noteq> ALIGN_CENTER \<and> (7 :: nat) \<noteq> 0)
      (fs_precision ?spec) (fl_long sample_lib) CHR ''f''"
  let ?shown = "format_float sample_lib ?fmt (if fs_align ?spec = ALIGN_CENTER then 0 else 7) (fs_precision ?spec) ?v"
  have shown: "?shown = ''1.5''" by (simp add: format_float_def float_format_def sample_lib_def)
  have "float_loop sample_lib ?grow ''1.5'' 0 ?b heap_new = Some (Inr ((3, ?b1), heap_new))"
    by (subst float_loop.simps) (simp add: snprintf_at_def write_memory_def memory_def MemoryBuffer_new_def copy_to_def put_memory_def)
  then have loop: "float_loop sample_lib ?grow ?shown 0 ?b heap_new = Some (Inr ((3, ?b1), heap_new))" unfolding shown .
  have "write_double sample_lib ?grow ?v ?spec ?b heap_new = finish_double ?grow None ?spec 0 3 ?b1 heap_new"
    by (rule write_double_finite [of ?spec "CHR ''f''" False None sample_lib ?v ?v 7 0 ?b ?fmt heap_new ?grow ?b heap_new 3 ?b1 heap_new, OF _ _ _ _ _ _ _ refl _ loop])
      (simp_all add: double_type_def double_sign_def sample_lib_def MemoryBuffer_new_def fs_flag_def)
  moreover have "Suc (Suc (Suc (Suc 0))) div Suc (Suc 0) = Suc (Suc 0)" by code_simp
  then have "\<exists>b h. finish_double ?grow None ?spec 0 3 ?b1 heap_new = Some (Inr (b, h)) \<and> contents b h = ''  ???  ''"
    by (simp add: finish_double_def Let_def memory_def MemoryBuffer_new_def put_memory_def place_sign_def center_double_def
        writer_grow_buffer_def buffer_resize_def memory_grow_def allocate_def deallocate_buffer_def heap_new_def copy_to_def
        fill_padding_def fill_to_def contents_def map_replicate_const numeral_eq_Suc)
  ultimately show ?thesis by simp
qed

end
