(* ===== verification/Fmt_Stream.thy ===== *)
theory Fmt_Stream
  imports Fmt_Buffer
begin

text \<open>
  fmt and C++ streams (\<open>fmt/bundled/ostream.h\<close>, \<open>ostream.cc\<close>) and dates (\<open>time.h\<close>): values with
  an output operator are written into a buffer through a stream buffer and formatted as strings;
  what was formatted is written to a stream in pieces; \<open>strftime\<close> writes into the writer's buffer,
  which grows until the text fits.
\<close>

section \<open>The stream buffer\<close>

text \<open>
  The pointers of \<open>FormatBuf\<close> are offsets into the array that the buffer had when they were set.
  A streamed character goes to the next free place; without one, \<open>overflow\<close> is called.
\<close>

record format_buf =
  fb_array :: "nat option"
  fb_pptr :: nat
  fb_epptr :: nat

definition FormatBuf_new :: "buffer \<Rightarrow> format_buf" where
  "FormatBuf_new b = \<lparr>fb_array = bf_ptr b, fb_pptr = 0, fb_epptr = bf_capacity b\<rparr>"

definition FormatBuf_overflow :: "(nat \<Rightarrow> buffer \<Rightarrow> heap \<Rightarrow> buffer buffer_call) \<Rightarrow> char \<Rightarrow> format_buf \<Rightarrow> buffer \<Rightarrow> heap \<Rightarrow> (format_buf \<times> buffer) buffer_call" where
  "FormatBuf_overflow grow ch f b h = (
     let buf_size = fb_pptr f in
     bind_fmt (buffer_resize grow buf_size b h) (\<lambda>(b, h).
     bind_fmt (buffer_reserve grow (buf_size * 2) b h) (\<lambda>(b, h).
     map_option (\<lambda>(b, h). Inr ((\<lparr>fb_array = bf_ptr b, fb_pptr = buf_size + 1, fb_epptr = buf_size * 2\<rparr>, b), h))
       (write_memory buf_size [ch] b h))))"

text \<open>\<open>sputc\<close>, and the characters of an output operator one after the other.\<close>

definition sputc :: "(nat \<Rightarrow> buffer \<Rightarrow> heap \<Rightarrow> buffer buffer_call) \<Rightarrow> char \<Rightarrow> format_buf \<Rightarrow> buffer \<Rightarrow> heap \<Rightarrow> (format_buf \<times> buffer) buffer_call" where
  "sputc grow ch f b h =
     (if fb_pptr f < fb_epptr f then
        (if fb_array f \<noteq> bf_ptr b then None
         else map_option (\<lambda>(b, h). Inr ((f\<lparr>fb_pptr := fb_pptr f + 1\<rparr>, b), h)) (write_memory (fb_pptr f) [ch] b h))
      else FormatBuf_overflow grow ch f b h)"

fun sputn :: "(nat \<Rightarrow> buffer \<Rightarrow> heap \<Rightarrow> buffer buffer_call) \<Rightarrow> string \<Rightarrow> format_buf \<Rightarrow> buffer \<Rightarrow> heap \<Rightarrow> (format_buf \<times> buffer) buffer_call" where
  "sputn grow [] f b h = Some (Inr ((f, b), h))"
| "sputn grow (ch # s) f b h = bind_fmt (sputc grow ch f b h) (\<lambda>((f, b), h). sputn grow s f b h)"

text \<open>
  The text that \<open>output << value\<close> leaves for the formatter, in a new buffer that is destroyed
  afterwards; \<open>shown\<close> is what the operator writes.
\<close>

definition streamed :: "(nat \<Rightarrow> char) \<Rightarrow> string \<Rightarrow> string \<Rightarrow> heap \<Rightarrow> (exn + (string \<times> heap)) option" where
  "streamed fresh uninitialized shown h = (
     let b = MemoryBuffer_new uninitialized in
     bind_fmt (sputn (memory_grow fresh) shown (FormatBuf_new b) b h) (\<lambda>((f, b), h).
       case memory b h of
         None \<Rightarrow> None
       | Some m \<Rightarrow>
           if fb_pptr f > length m then None
           else map_option (\<lambda>h. Inr (take (fb_pptr f) m, h)) (deallocate_buffer b h)))"

text \<open>
  \<open>format\<close> for a value with an output operator: the formatter is called again with the text as a
  string argument. \<open>format_custom\<close> is \<open>BasicFormatter::format\<close> for such an argument, which is of
  the type \<open>CUSTOM\<close>.
\<close>

definition format_streamed ::
    "buffer_env \<Rightarrow> string \<Rightarrow> ('d \<Rightarrow> FormatSpec \<Rightarrow> string \<Rightarrow> (exn + string) option) \<Rightarrow> (nat \<Rightarrow> char) \<Rightarrow> string \<Rightarrow> string \<Rightarrow>
     'd Arg list \<Rightarrow> int \<Rightarrow> string \<Rightarrow> string \<Rightarrow> heap \<Rightarrow> (exn + (int \<times> string \<times> string)) option" where
  "format_streamed g sep wd fresh uninitialized shown args n s b h =
     bind_fmt (streamed fresh uninitialized shown h) (\<lambda>(str, h). format_arg g sep wd args (Arg_STRING str) n s b)"

definition format_custom ::
    "buffer_env \<Rightarrow> string \<Rightarrow> ('d \<Rightarrow> FormatSpec \<Rightarrow> string \<Rightarrow> (exn + string) option) \<Rightarrow> (nat \<Rightarrow> char) \<Rightarrow> string \<Rightarrow> string \<Rightarrow>
     'd Arg list \<Rightarrow> int \<Rightarrow> string \<Rightarrow> string \<Rightarrow> heap \<Rightarrow> (exn + (int \<times> string \<times> string)) option" where
  "format_custom g sep wd fresh uninitialized shown args n s b h =
     (if peek s = CHR '':'' then format_streamed g sep wd fresh uninitialized shown args n s b h
      else if peek s \<noteq> CHR ''}'' then
        Some (Inl (Format_error (''missing '' @ [CHR 0x27, CHR ''}'', CHR 0x27] @ '' in format string'')))
      else bind_fmt (format_streamed g sep wd fresh uninitialized shown args n s b h) (\<lambda>(n, _, b). Some (Inr (n, tl s, b))))"

section \<open>Writing to a stream\<close>

text \<open>The calls of \<open>os.write\<close> that put \<open>data\<close> out, each with a size that \<open>std::streamsize\<close> holds.\<close>

definition max_streamsize :: nat where "max_streamsize = 2 ^ 63 - 1"

function write_chunks :: "string \<Rightarrow> string list" where
  "write_chunks data = (
     let n = (if length data \<le> max_streamsize then length data else max_streamsize); rest = drop n data in
     take n data # (if rest = [] then [] else write_chunks rest))"
  by pat_completeness auto
termination
  by (relation "measure length") (auto simp: max_streamsize_def split: if_splits)

declare write_chunks.simps [simp del]

definition write_to_stream :: "string \<Rightarrow> string list \<Rightarrow> string list" where
  "write_to_stream w os = os @ write_chunks w"

definition print_stream ::
    "buffer_env \<Rightarrow> string \<Rightarrow> ('d \<Rightarrow> FormatSpec \<Rightarrow> string \<Rightarrow> (exn + string) option) \<Rightarrow> string \<Rightarrow> 'd Arg list \<Rightarrow> string list \<Rightarrow>
     (exn + string list) option" where
  "print_stream g sep wd format_str args os =
     bind_fmt (format g sep wd format_str args []) (\<lambda>w. Some (Inr (write_to_stream w os)))"

definition fprintf_stream ::
    "buffer_env \<Rightarrow> string \<Rightarrow> ('d \<Rightarrow> FormatSpec \<Rightarrow> string \<Rightarrow> (exn + string) option) \<Rightarrow> string \<Rightarrow> 'd Arg list \<Rightarrow> string list \<Rightarrow>
     (exn + (int \<times> string list)) option" where
  "fprintf_stream g sep wd format_str args os =
     bind_fmt (printf g sep wd format_str args []) (\<lambda>w. Some (Inr (to_signed 32 (int (length w)), write_to_stream w os)))"

section \<open>Dates\<close>

text \<open>
  C's \<open>strftime\<close>: it returns the length of the text it wrote, or 0 when the text with its
  terminating zero is longer than the array, which is then not read.
\<close>

definition strftime_into :: "string \<Rightarrow> nat \<Rightarrow> nat \<Rightarrow> buffer \<Rightarrow> heap \<Rightarrow> (nat \<times> buffer \<times> heap) option" where
  "strftime_into shown start n b h =
     (if length shown < n
      then map_option (\<lambda>(b, h). (length shown, b, h)) (write_memory start (shown @ [CHR 0x00]) b h)
      else Some (0, b, h))"

partial_function (option) tm_loop ::
    "(nat \<Rightarrow> buffer \<Rightarrow> heap \<Rightarrow> buffer buffer_call) \<Rightarrow> string \<Rightarrow> nat \<Rightarrow> nat \<Rightarrow> buffer \<Rightarrow> heap \<Rightarrow> buffer buffer_call" where
  "tm_loop grow shown format_size start b h = (
     let n = bf_capacity b - start in
     case strftime_into shown start n b h of
       None \<Rightarrow> None
     | Some (count, b, h) \<Rightarrow>
         if count \<noteq> 0 then buffer_resize grow (start + count) b h
         else if n \<ge> format_size * 256 then Some (Inr (b, h))
         else (case buffer_reserve grow (bf_capacity b + (if n > 10 then n else 10)) b h of
             None \<Rightarrow> None
           | Some (Inl e) \<Rightarrow> Some (Inl e)
           | Some (Inr (b, h)) \<Rightarrow> tm_loop grow shown format_size start b h))"

definition format_tm ::
    "(nat \<Rightarrow> buffer \<Rightarrow> heap \<Rightarrow> buffer buffer_call) \<Rightarrow> (string \<Rightarrow> 't \<Rightarrow> string) \<Rightarrow> 't \<Rightarrow> string \<Rightarrow> buffer \<Rightarrow> heap \<Rightarrow> (string \<times> buffer) buffer_call" where
  "format_tm grow strftime t s b h = (
     let s = (if peek s = CHR '':'' then tl s else s);
         fmt = takeWhile (\<lambda>c. c \<noteq> CHR 0x00 \<and> c \<noteq> CHR ''}'') s; end = drop (length fmt) s in
     if peek end \<noteq> CHR ''}'' then Some (Inl (Format_error (''missing '' @ [CHR 0x27, CHR ''}'', CHR 0x27] @ '' in format string'')))
     else bind_fmt (tm_loop grow (strftime fmt t) (length fmt + 1) (bf_size b) b h) (\<lambda>(b, h). Some (Inr ((tl end, b), h))))"

section \<open>Streamed text\<close>

definition stream_ok :: "format_buf \<Rightarrow> buffer \<Rightarrow> heap \<Rightarrow> string \<Rightarrow> bool" where
  "stream_ok f b h t \<longleftrightarrow> fb_array f = bf_ptr b \<and> heap_ok h \<and> bf_size b \<le> fb_pptr f \<and> fb_pptr f \<le> fb_epptr f \<and>
     fb_epptr f \<le> bf_capacity b \<and> 0 < fb_epptr f \<and> (\<exists>m. memory b h = Some m \<and> length m = bf_capacity b \<and> take (fb_pptr f) m = t)"

lemma sputc_ok:
  assumes "stream_ok f b h t"
  shows "\<exists>f' b' h'. sputc (memory_grow fresh) c f b h = Some (Inr ((f', b'), h')) \<and> stream_ok f' b' h' (t @ [c]) \<and>
    other_blocks b' h' = other_blocks b h"
proof -
  obtain m where m: "memory b h = Some m" "length m = bf_capacity b" "take (fb_pptr f) m = t" using assms by (auto simp: stream_ok_def)
  have ok: "heap_ok h" "fb_pptr f \<le> fb_epptr f" "fb_epptr f \<le> bf_capacity b" "0 < fb_epptr f" "fb_array f = bf_ptr b"
    using assms by (auto simp: stream_ok_def)
  show ?thesis
  proof (cases "fb_pptr f < fb_epptr f")
    case True
    then have fits: "fb_pptr f + length [c] \<le> length m" using ok(3) m(2) by simp
    obtain b' h' where w: "put_memory (take (fb_pptr f) m @ [c] @ drop (fb_pptr f + length [c]) m) b h = (b', h')" by fastforce
    note p = put_memoryE [OF w m(1) ok(1)]
    have "sputc (memory_grow fresh) c f b h = Some (Inr ((f\<lparr>fb_pptr := fb_pptr f + 1\<rparr>, b'), h'))"
      using True ok(5) write_in_bounds [OF m(1) fits] w by (simp add: sputc_def)
    moreover have "stream_ok (f\<lparr>fb_pptr := fb_pptr f + 1\<rparr>) b' h' (t @ [c])"
      using assms True p m fits by (auto simp: stream_ok_def)
    ultimately show ?thesis using p(6) by blast
  next
    case False
    let ?n = "fb_pptr f"
    have n: "?n = fb_epptr f" "0 < ?n" "?n \<le> bf_capacity b" using False ok by auto
    let ?b1 = "b\<lparr>bf_size := ?n\<rparr>"
    have b1: "buffer_resize (memory_grow fresh) ?n b h = Some (Inr (?b1, h))" using n(3) by (simp add: buffer_resize_def)
    have mem: "memory ?b1 h = Some m" "other_blocks ?b1 h = other_blocks b h"
      using m(1) by (simp_all add: memory_def other_blocks_def split: option.splits)
    have ok1: "buffer_ok ?b1 h" "contents ?b1 h = t" using mem m n(3) ok(1) by (simp_all add: buffer_ok_def contents_def)
    obtain b2 h2 where 2: "buffer_reserve (memory_grow fresh) (?n * 2) ?b1 h = Some (Inr (b2, h2))" "buffer_ok b2 h2"
      "?n * 2 \<le> bf_capacity b2" "bf_size b2 = ?n" "contents b2 h2 = t" "other_blocks b2 h2 = other_blocks ?b1 h"
      using memory_buffer.reserve_room [OF ok1(1), of "?n * 2" fresh] ok1(2) by auto
    obtain m2 where m2: "memory b2 h2 = Some m2" "length m2 = bf_capacity b2" "take ?n m2 = t"
      using 2(2,4,5) by (metis buffer_okE)
    have fits: "?n + length [c] \<le> length m2" using m2(2) 2(3) n(2) by simp
    obtain b3 h3 where w: "put_memory (take ?n m2 @ [c] @ drop (?n + length [c]) m2) b2 h2 = (b3, h3)" by fastforce
    have "heap_ok h2" using 2(2) by (simp add: buffer_ok_def)
    note p = put_memoryE [OF w m2(1) this]
    have "sputc (memory_grow fresh) c f b h = Some (Inr ((\<lparr>fb_array = bf_ptr b3, fb_pptr = ?n + 1, fb_epptr = ?n * 2\<rparr>, b3), h3))"
      using False b1 2(1) write_in_bounds [OF m2(1) fits] w by (simp add: sputc_def FormatBuf_overflow_def Let_def)
    moreover have "stream_ok \<lparr>fb_array = bf_ptr b3, fb_pptr = ?n + 1, fb_epptr = ?n * 2\<rparr> b3 h3 (t @ [c])"
      using p m2 fits n(2) 2(3,4) by (auto simp: stream_ok_def)
    ultimately show ?thesis using p(6) 2(6) mem(2) by metis
  qed
qed

lemma sputn_ok:
  "stream_ok f b h t \<Longrightarrow> \<exists>f' b' h'. sputn (memory_grow fresh) s f b h = Some (Inr ((f', b'), h')) \<and> stream_ok f' b' h' (t @ s) \<and>
    other_blocks b' h' = other_blocks b h"
proof (induction s arbitrary: f b h t)
  case Nil
  then show ?case by simp
next
  case (Cons c s)
  obtain f1 b1 h1 where 1: "sputc (memory_grow fresh) c f b h = Some (Inr ((f1, b1), h1))" "stream_ok f1 b1 h1 (t @ [c])"
    "other_blocks b1 h1 = other_blocks b h" using sputc_ok [OF Cons.prems] by blast
  from Cons.IH [OF 1(2)] show ?case using 1 by auto
qed

lemma streamed_text:
  assumes "heap_ok h" "uninitialized \<noteq> []"
  shows "\<exists>h'. streamed fresh uninitialized s h = Some (Inr (s, h')) \<and> hp_blocks h' = hp_blocks h"
proof -
  let ?b = "MemoryBuffer_new uninitialized"
  have "stream_ok (FormatBuf_new ?b) ?b h []"
    using assms by (simp add: stream_ok_def FormatBuf_new_def MemoryBuffer_new_def memory_def)
  from sputn_ok [OF this, of fresh s] obtain f b h1 where
    1: "sputn (memory_grow fresh) s (FormatBuf_new ?b) ?b h = Some (Inr ((f, b), h1))" "stream_ok f b h1 s"
      "other_blocks b h1 = other_blocks ?b h" by auto
  then obtain m where m: "memory b h1 = Some m" "take (fb_pptr f) m = s" "fb_pptr f \<le> length m" and "buffer_ok b h1"
    unfolding stream_ok_def buffer_ok_def by (metis le_trans)
  from destroyed [OF this(4)] obtain h2 where "deallocate_buffer b h1 = Some h2" "hp_blocks h2 = other_blocks b h1" by blast
  then show ?thesis using 1 m by (auto simp: streamed_def new_ok)
qed

text \<open>
  (C39) Values with an output operator format as the text that the operator writes: for every
  specification, width, precision, error and place in the format string, \<open>BasicFormatter::format\<close>
  does for a value whose operator writes \<open>s\<close> what it does for the string \<open>s\<close>, however long \<open>s\<close> is
  compared to the buffer.
\<close>

theorem streamed_value_is_string:
  assumes "heap_ok h" "uninitialized \<noteq> []"
  shows "format_custom g sep wd fresh uninitialized shown args n s b h = format_arg g sep wd args (Arg_STRING shown) n s b"
proof -
  obtain h' where h': "streamed fresh uninitialized shown h = Some (Inr (shown, h'))" using streamed_text [OF assms] by blast
  then have f: "format_streamed g sep wd fresh uninitialized shown args n s b h = format_arg g sep wd args (Arg_STRING shown) n s b"
    by (simp add: format_streamed_def)
  show ?thesis
  proof (cases "peek s = CHR '':''")
    case True
    then show ?thesis by (simp add: format_custom_def f)
  next
    case False
    then show ?thesis
      by (auto simp: format_custom_def f format_arg_def parse_spec_def split: option.splits sum.splits)
  qed
qed

theorem streamed_value_is_string_witness:
  "format_custom \<lparr>be_fresh = (\<lambda>_. CHR ''?''), be_moves = (\<lambda>_ _. True)\<rparr> '','' (\<lambda>(d :: unit) spec b. None) (\<lambda>_. CHR ''?'') ''..'' ''point''
     [] 0 '':>7}!'' ''p='' heap_new = Some (Inr (0, ''!'', ''p=  point''))"
proof -
  have "heap_ok heap_new" "''..'' \<noteq> []" by (simp_all add: heap_ok_def heap_new_def)
  note eq = streamed_value_is_string [OF this]
  have two_blanks: "replicate 2 (CHR '' '') = ''  ''" by (simp add: numeral_2_eq_2)
  show ?thesis unfolding eq
    by (simp add: format_arg_def parse_spec_def parse_align_def align_of_def check_align_def parse_sign_def parse_hash_def parse_zero_def
        parse_width_def parse_precision_def parse_type_def peek_def isdigit_def parse_nonnegative_int_def digit_val_def Let_def
        write_str_value_def write_str_eq str_text_def aligned_text_def two_blanks)
qed

section \<open>Pieces\<close>

lemma write_chunks_data: "concat (write_chunks data) = data \<and> (\<forall>c \<in> set (write_chunks data). length c \<le> max_streamsize)"
proof (induction data rule: write_chunks.induct)
  case (1 data)
  show ?case
  proof (cases "length data \<le> max_streamsize")
    case True
    have "write_chunks data = [data]" by (subst write_chunks.simps) (simp add: True)
    then show ?thesis using True by simp
  next
    case False
    have "write_chunks data = take max_streamsize data # write_chunks (drop max_streamsize data)"
      by (subst write_chunks.simps) (use False in simp)
    moreover have "concat (write_chunks (drop max_streamsize data)) = drop max_streamsize data \<and>
        (\<forall>c \<in> set (write_chunks (drop max_streamsize data)). length c \<le> max_streamsize)"
      using 1 [OF refl refl] False by simp
    ultimately show ?thesis by simp
  qed
qed

lemma printed_to_stream:
  assumes "format g sep wd format_str args [] = Some (Inr w)"
  shows "\<exists>os'. print_stream g sep wd format_str args os = Some (Inr (os @ os')) \<and> concat os' = w \<and> (\<forall>c \<in> set os'. length c \<le> max_streamsize)"
  using assms write_chunks_data [of w] by (auto simp: print_stream_def write_to_stream_def)

text \<open>The result of \<open>fprintf\<close> is an \<open>int\<close>: a text of 4 GiB and one character counts as 1.\<close>

lemma fprintf_stream_wraps:
  assumes "printf g sep wd format_str args [] = Some (Inr w)" "length w = 2 ^ 32 + 1"
  shows "\<exists>os'. fprintf_stream g sep wd format_str args os = Some (Inr (1, os'))"
  using assms by (simp add: fprintf_stream_def to_signed_def)

section \<open>Dates fit\<close>

lemma tm_loop_ends:
  assumes "buffer_ok b h"
  shows "\<exists>b' h'. tm_loop (memory_grow fresh) shown format_size (bf_size b) b h = Some (Inr (b', h')) \<and> buffer_ok b' h' \<and>
    other_blocks b' h' = other_blocks b h \<and>
    (if shown \<noteq> [] \<and> length shown < format_size * 256 then contents b' h' = contents b h @ shown
     else contents b' h' = contents b h \<or> contents b' h' = contents b h @ shown)"
  using assms
proof (induction "format_size * 256 - (bf_capacity b - bf_size b)" arbitrary: b h rule: less_induct)
  case less
  let ?n = "bf_capacity b - bf_size b" and ?start = "bf_size b"
  have le: "?start \<le> bf_capacity b" using less.prems by (simp add: buffer_ok_def)
  show ?case
  proof (cases "length shown < ?n \<and> shown \<noteq> []")
    case True
    then have room: "bf_size b + length (shown @ [CHR 0x00]) \<le> bf_capacity b" by (simp add: less_diff_conv)
    then have fits: "bf_size b + length shown \<le> bf_capacity b" by simp
    from write_behind [OF less.prems room] obtain b1 h1 m where
      1: "write_memory ?start (shown @ [CHR 0x00]) b h = Some (b1, h1)" "buffer_ok b1 h1" "bf_capacity b1 = bf_capacity b"
        "other_blocks b1 h1 = other_blocks b h" "memory b1 h1 = Some m"
        "take (?start + length (shown @ [CHR 0x00])) m = contents b h @ shown @ [CHR 0x00]" by blast
    let ?b = "b1\<lparr>bf_size := ?start + length shown\<rparr>"
    have r: "buffer_resize (memory_grow fresh) (?start + length shown) b1 h1 = Some (Inr (?b, h1))"
      using fits 1(3) by (simp add: buffer_resize_def)
    have mem: "memory ?b h1 = Some m" "other_blocks ?b h1 = other_blocks b1 h1"
      using 1(5) by (simp_all add: memory_def other_blocks_def split: option.splits)
    have "take (?start + length shown) m = take (?start + length shown) (take (?start + length (shown @ [CHR 0x00])) m)" by simp
    also have "\<dots> = contents b h @ shown" unfolding 1(6) using length_contents [OF less.prems] by simp
    finally have "contents ?b h1 = contents b h @ shown" using mem by (simp add: contents_def)
    moreover have "buffer_ok ?b h1" using 1(2,3,5) mem fits by (auto simp: buffer_ok_def)
    moreover have "tm_loop (memory_grow fresh) shown format_size ?start b h = Some (Inr (?b, h1))"
      using True 1(1) r by (subst tm_loop.simps) (simp add: strftime_into_def Let_def)
    ultimately show ?thesis using mem(2) 1(4) by auto
  next
    case False
    obtain b1 h1 where 1: "strftime_into shown ?start ?n b h = Some (0, b1, h1)" "buffer_ok b1 h1" "bf_size b1 = ?start"
      "bf_capacity b1 = bf_capacity b" "contents b1 h1 = contents b h" "other_blocks b1 h1 = other_blocks b h"
    proof (cases "length shown < ?n")
      case True
      then have "bf_size b + length [CHR 0x00] \<le> bf_capacity b" using le by simp
      from write_behind [OF less.prems this] that show ?thesis using True False by (auto simp: strftime_into_def)
    next
      case f: False
      then show ?thesis using that less.prems by (simp add: strftime_into_def)
    qed
    show ?thesis
    proof (cases "?n \<ge> format_size * 256")
      case True
      then have "tm_loop (memory_grow fresh) shown format_size ?start b h = Some (Inr (b1, h1))"
        using 1(1) by (subst tm_loop.simps) (simp add: Let_def)
      moreover have "\<not> (shown \<noteq> [] \<and> length shown < format_size * 256)" using True False by auto
      ultimately show ?thesis using 1 by auto
    next
      case f: False
      let ?more = "bf_capacity b1 + (if ?n > 10 then ?n else 10)"
      obtain b2 h2 where 2: "buffer_reserve (memory_grow fresh) ?more b1 h1 = Some (Inr (b2, h2))" "buffer_ok b2 h2"
        "?more \<le> bf_capacity b2" "bf_size b2 = bf_size b1" "contents b2 h2 = contents b1 h1" "other_blocks b2 h2 = other_blocks b1 h1"
        using memory_buffer.reserve_room [OF 1(2), of ?more fresh] by blast
      have "tm_loop (memory_grow fresh) shown format_size ?start b h = tm_loop (memory_grow fresh) shown format_size (bf_size b2) b2 h2"
        using 1(1,3) 2(1,4) f by (subst tm_loop.simps) (simp add: Let_def)
      moreover have "format_size * 256 - (bf_capacity b2 - bf_size b2) < format_size * 256 - ?n"
        using f 2(3,4) 1(3,4) le by (auto split: if_splits)
      from less.hyps [OF this 2(2)] obtain b3 h3 where
        3: "tm_loop (memory_grow fresh) shown format_size (bf_size b2) b2 h2 = Some (Inr (b3, h3))" "buffer_ok b3 h3"
          "other_blocks b3 h3 = other_blocks b2 h2"
          "if shown \<noteq> [] \<and> length shown < format_size * 256 then contents b3 h3 = contents b2 h2 @ shown
           else contents b3 h3 = contents b2 h2 \<or> contents b3 h3 = contents b2 h2 @ shown" by blast
      ultimately show ?thesis using 1(5,6) 2(5,6) by (intro exI [of _ b3] exI [of _ h3]) (auto split: if_splits)
    qed
  qed
qed

text \<open>
  (C40) Formatting a date returns and stays in its buffer. For a format \<open>:fmt}\<close> the loop around
  \<open>strftime\<close> ends, the text is appended when it is not empty and less than 256 times as long as the
  format, otherwise it is appended as a whole or not at all, and parsing goes on behind the
  brace; without a brace the error says so.
\<close>

theorem date_appended:
  assumes "buffer_ok b h" "CHR 0x00 \<notin> set fmt" "CHR ''}'' \<notin> set fmt"
  shows "(\<exists>b' h'. format_tm (memory_grow fresh) strftime t (CHR '':'' # fmt @ CHR ''}'' # rest) b h = Some (Inr ((rest, b'), h')) \<and>
      buffer_ok b' h' \<and> other_blocks b' h' = other_blocks b h \<and>
      (let shown = strftime fmt t in
       if shown \<noteq> [] \<and> length shown < (length fmt + 1) * 256 then contents b' h' = contents b h @ shown
       else contents b' h' = contents b h \<or> contents b' h' = contents b h @ shown)) \<and>
    format_tm (memory_grow fresh) strftime t (CHR '':'' # fmt) b h =
      Some (Inl (Format_error (''missing '' @ [CHR 0x27, CHR ''}'', CHR 0x27] @ '' in format string'')))"
proof
  let ?s = "CHR '':'' # fmt @ CHR ''}'' # rest"
  have p: "takeWhile (\<lambda>c. c \<noteq> CHR 0x00 \<and> c \<noteq> CHR ''}'') (fmt @ x) = fmt @ takeWhile (\<lambda>c. c \<noteq> CHR 0x00 \<and> c \<noteq> CHR ''}'') x" for x
    using assms(2,3) by (intro takeWhile_append2) auto
  have all: "takeWhile (\<lambda>c. c \<noteq> CHR 0x00 \<and> c \<noteq> CHR ''}'') fmt = fmt" using p [of "[]"] by (simp del: takeWhile_eq_all_conv)
  have f: "format_tm (memory_grow fresh) strftime t ?s b h =
      bind_fmt (tm_loop (memory_grow fresh) (strftime fmt t) (length fmt + 1) (bf_size b) b h) (\<lambda>(b, h). Some (Inr ((rest, b), h)))"
    using p [of "CHR ''}'' # rest"] by (simp add: format_tm_def peek_def Let_def)
  show "\<exists>b' h'. format_tm (memory_grow fresh) strftime t ?s b h = Some (Inr ((rest, b'), h')) \<and>
      buffer_ok b' h' \<and> other_blocks b' h' = other_blocks b h \<and>
      (let shown = strftime fmt t in
       if shown \<noteq> [] \<and> length shown < (length fmt + 1) * 256 then contents b' h' = contents b h @ shown
       else contents b' h' = contents b h \<or> contents b' h' = contents b h @ shown)"
    using tm_loop_ends [OF assms(1), of fresh "strftime fmt t" "length fmt + 1"] unfolding f Let_def by fastforce
  show "format_tm (memory_grow fresh) strftime t (CHR '':'' # fmt) b h =
      Some (Inl (Format_error (''missing '' @ [CHR 0x27, CHR ''}'', CHR 0x27] @ '' in format string'')))"
    by (simp add: format_tm_def peek_def Let_def all)
qed

theorem date_appended_witness:
  "\<exists>b h. format_tm (memory_grow (\<lambda>_. CHR ''?'')) (\<lambda>fmt (t :: nat). ''2026-11-18'') 0 '':%F}!'' (MemoryBuffer_new ''....'') heap_new =
     Some (Inr ((''!'', b), h)) \<and> contents b h = ''2026-11-18''"
  using date_appended [of "MemoryBuffer_new ''....''" heap_new "''%F''" "\<lambda>_. CHR ''?''" "\<lambda>fmt (t :: nat). ''2026-11-18''" 0 "''!''"]
  by (simp add: new_ok heap_ok_def heap_new_def) blast

end
