(* ===== verification/Posix_File.thy ===== *)
theory Posix_File
  imports Fmt_Printf
begin

text \<open>
  fmt's wrappers of POSIX files (\<open>fmt/bundled/posix.h\<close>, \<open>posix.cc\<close>): \<open>File\<close> owns a file
  descriptor, \<open>BufferedFile\<close> a stream of the C library; both can be moved, not copied, and
  close what they own when they are destroyed. The operating system is a parameter: a record of
  its calls on a state \<open>'k\<close> of the process, with the laws \<open>posix_laws\<close> of its documentation. The
  live objects are a store, since the operations change their arguments and these may be the
  same object. The lemmas show that every descriptor has at most one owner, none is leaked or
  closed twice, also when calls fail or are interrupted, and that all operations return.
\<close>

section \<open>System calls\<close>

record 'k posix =
  px_errno :: "'k \<Rightarrow> int"
  px_open :: "string \<Rightarrow> int \<Rightarrow> int \<Rightarrow> 'k \<Rightarrow> int \<times> 'k"
  px_close :: "int \<Rightarrow> 'k \<Rightarrow> int \<times> 'k"
  px_fstat :: "int \<Rightarrow> 'k \<Rightarrow> (int \<times> int) \<times> 'k"
  px_read :: "int \<Rightarrow> size_t \<Rightarrow> 'k \<Rightarrow> (int \<times> string) \<times> 'k"
  px_write :: "int \<Rightarrow> string \<Rightarrow> 'k \<Rightarrow> int \<times> 'k"
  px_dup :: "int \<Rightarrow> 'k \<Rightarrow> int \<times> 'k"
  px_dup2 :: "int \<Rightarrow> int \<Rightarrow> 'k \<Rightarrow> int \<times> 'k"
  px_pipe :: "'k \<Rightarrow> (int \<times> int \<times> int) \<times> 'k"
  px_fopen :: "string \<Rightarrow> string \<Rightarrow> 'k \<Rightarrow> nat \<times> 'k"
  px_fdopen :: "int \<Rightarrow> string \<Rightarrow> 'k \<Rightarrow> nat \<times> 'k"
  px_fclose :: "nat \<Rightarrow> 'k \<Rightarrow> int \<times> 'k"
  px_fileno :: "nat \<Rightarrow> 'k \<Rightarrow> int \<times> 'k"
  px_pagesize :: "'k \<Rightarrow> int \<times> 'k"
  px_strerror_r :: "int \<Rightarrow> nat \<Rightarrow> string \<times> bool"
  px_memory :: buffer_env
  px_thousands_sep :: string

definition EINTR :: int where "EINTR = 4"

text \<open>\<open>S_IRUSR | S_IWUSR\<close>.\<close>

definition user_rw :: int where "user_rw = 384"

text \<open>
  The live objects: a file has its descriptor, \<open>- 1\<close> when it has none, a buffered file the
  address of its stream, 0 when it has none.
\<close>

record 'k objects =
  ob_kernel :: 'k
  ob_stderr :: string
  ob_files :: "nat \<Rightarrow> int option"
  ob_buffered :: "nat \<Rightarrow> nat option"

definition objects_new :: "'k \<Rightarrow> 'k objects" where
  "objects_new k = \<lparr>ob_kernel = k, ob_stderr = [], ob_files = Map.empty, ob_buffered = Map.empty\<rparr>"

definition system_call :: "('k \<Rightarrow> 'r \<times> 'k) \<Rightarrow> 'k objects \<Rightarrow> 'r \<times> 'k objects" where
  "system_call f s = (case f (ob_kernel s) of (r, k) \<Rightarrow> (r, s\<lparr>ob_kernel := k\<rparr>))"

text \<open>
  \<open>FMT_RETRY_VAL\<close>: the call is made again while it gives the error result and was interrupted.
  \<open>None\<close> is a call that is interrupted forever.
\<close>

partial_function (option) retry_val :: "('k \<Rightarrow> int) \<Rightarrow> ('r \<Rightarrow> bool) \<Rightarrow> ('k \<Rightarrow> 'r \<times> 'k) \<Rightarrow> 'k \<Rightarrow> ('r \<times> 'k) option" where
  "retry_val errno is_error f k = (case f k of (r, k) \<Rightarrow>
     if is_error r \<and> errno k = EINTR then retry_val errno is_error f k else Some (r, k))"

definition retry_call :: "'k posix \<Rightarrow> ('r \<Rightarrow> bool) \<Rightarrow> ('k \<Rightarrow> 'r \<times> 'k) \<Rightarrow> 'k objects \<Rightarrow> ('r \<times> 'k objects) option" where
  "retry_call px is_error f s =
     map_option (\<lambda>(r, k). (r, s\<lparr>ob_kernel := k\<rparr>)) (retry_val (px_errno px) is_error f (ob_kernel s))"

section \<open>Errors\<close>

text \<open>The constructor of \<open>SystemError\<close>; what it gives is the exception that is thrown.\<close>

definition SystemError_init :: "'k posix \<Rightarrow> int \<Rightarrow> string \<Rightarrow> unit Arg list \<Rightarrow> exn option" where
  "SystemError_init px err_code format_str args =
     (case format (px_memory px) (px_thousands_sep px) (\<lambda>d spec b. None) format_str args [] of
        None \<Rightarrow> None
      | Some (Inl e) \<Rightarrow> Some e
      | Some (Inr message) \<Rightarrow> map_option (System_error err_code) (format_system_error (px_strerror_r px) err_code message []))"

definition throw_errno :: "'k posix \<Rightarrow> string \<Rightarrow> unit Arg list \<Rightarrow> 'k objects \<Rightarrow> ('k objects, 'a) call" where
  "throw_errno px format_str args s =
     map_option (\<lambda>e. (Inl e, s)) (SystemError_init px (px_errno px (ob_kernel s)) format_str args)"

definition report_errno :: "'k posix \<Rightarrow> string \<Rightarrow> 'k objects \<Rightarrow> 'k objects option" where
  "report_errno px message s =
     map_option (\<lambda>e. s\<lparr>ob_stderr := e\<rparr>)
       (report_system_error (px_strerror_r px) (px_errno px (ob_kernel s)) message (ob_stderr s))"

definition cstring_arg :: "string \<Rightarrow> unit Arg" where
  "cstring_arg s = Arg_CSTRING 1 (Some s)"

section \<open>Files\<close>

definition put_file :: "nat \<Rightarrow> int \<Rightarrow> 'k objects \<Rightarrow> 'k objects" where
  "put_file i fd s = s\<lparr>ob_files := (ob_files s)(i \<mapsto> fd)\<rparr>"

definition descriptor :: "nat \<Rightarrow> 'k objects \<Rightarrow> int" where
  "descriptor i s = the (ob_files s i)"

definition File_new :: "nat \<Rightarrow> 'k objects \<Rightarrow> 'k objects" where
  "File_new i s = put_file i (- 1) s"

definition File_open :: "'k posix \<Rightarrow> nat \<Rightarrow> string \<Rightarrow> int \<Rightarrow> 'k objects \<Rightarrow> ('k objects, unit) call" where
  "File_open px i path oflag s = (case retry_call px (\<lambda>fd. fd = - 1) (px_open px path oflag user_rw) s of
       None \<Rightarrow> None
     | Some (fd, s) \<Rightarrow>
         if fd = - 1 then throw_errno px ''cannot open file {}'' [cstring_arg path] s
         else Some (Inr (), put_file i fd s))"

text \<open>The destructor of a file with the descriptor \<open>fd\<close>; closing is not retried.\<close>

definition fd_destroy :: "'k posix \<Rightarrow> int \<Rightarrow> 'k objects \<Rightarrow> 'k objects option" where
  "fd_destroy px fd s =
     (if fd = - 1 then Some s
      else (case system_call (px_close px fd) s of (r, s) \<Rightarrow>
        if r \<noteq> 0 then report_errno px ''cannot close file'' s else Some s))"

definition File_destroy :: "'k posix \<Rightarrow> nat \<Rightarrow> 'k objects \<Rightarrow> 'k objects option" where
  "File_destroy px i s = map_option (\<lambda>s. s\<lparr>ob_files := (ob_files s)(i := None)\<rparr>) (fd_destroy px (descriptor i s) s)"

definition File_close :: "'k posix \<Rightarrow> nat \<Rightarrow> 'k objects \<Rightarrow> ('k objects, unit) call" where
  "File_close px i s =
     (if descriptor i s = - 1 then Some (Inr (), s)
      else (case system_call (px_close px (descriptor i s)) s of (r, s) \<Rightarrow>
        (let s = put_file i (- 1) s in
         if r \<noteq> 0 then throw_errno px ''cannot close file'' [] s else Some (Inr (), s))))"

text \<open>
  Moving: the constructor, the assignment from another object and the one from a temporary
  object, which is destroyed when closing the old descriptor throws.
\<close>

definition File_move :: "nat \<Rightarrow> nat \<Rightarrow> 'k objects \<Rightarrow> 'k objects" where
  "File_move i other s = put_file other (- 1) (put_file i (descriptor other s) s)"

definition File_assign :: "'k posix \<Rightarrow> nat \<Rightarrow> nat \<Rightarrow> 'k objects \<Rightarrow> ('k objects, unit) call" where
  "File_assign px i other s = bind_call (File_close px i s) (\<lambda>_ s. Some (Inr (), File_move i other s))"

definition File_assign_temporary :: "'k posix \<Rightarrow> nat \<Rightarrow> int \<Rightarrow> 'k objects \<Rightarrow> ('k objects, unit) call" where
  "File_assign_temporary px i fd s = (case File_close px i s of
       None \<Rightarrow> None
     | Some (Inl e, s) \<Rightarrow> map_option (\<lambda>s. (Inl e, s)) (fd_destroy px fd s)
     | Some (Inr _, s) \<Rightarrow> Some (Inr (), put_file i fd s))"

definition File_size :: "'k posix \<Rightarrow> nat \<Rightarrow> 'k objects \<Rightarrow> ('k objects, int) call" where
  "File_size px i s = (case system_call (px_fstat px (descriptor i s)) s of ((r, st_size), s) \<Rightarrow>
     if r = - 1 then throw_errno px ''cannot get file attributes'' [] s else Some (Inr st_size, s))"

text \<open>Reading gives the count and the bytes, writing the count.\<close>

definition File_read :: "'k posix \<Rightarrow> nat \<Rightarrow> size_t \<Rightarrow> 'k objects \<Rightarrow> ('k objects, size_t \<times> string) call" where
  "File_read px i count s = (case retry_call px (\<lambda>(n, data). n = - 1) (px_read px (descriptor i s) count) s of
       None \<Rightarrow> None
     | Some ((n, data), s) \<Rightarrow>
         if n < 0 then throw_errno px ''cannot read from file'' [] s else Some (Inr (word_of_int n, data), s))"

definition File_write :: "'k posix \<Rightarrow> nat \<Rightarrow> string \<Rightarrow> 'k objects \<Rightarrow> ('k objects, size_t) call" where
  "File_write px i data s = (case retry_call px (\<lambda>n. n = - 1) (px_write px (descriptor i s) data) s of
       None \<Rightarrow> None
     | Some (n, s) \<Rightarrow>
         if n < 0 then throw_errno px ''cannot write to file'' [] s else Some (Inr (word_of_int n), s))"

definition File_dup :: "'k posix \<Rightarrow> nat \<Rightarrow> int \<Rightarrow> 'k objects \<Rightarrow> ('k objects, unit) call" where
  "File_dup px i fd s = (case system_call (px_dup px fd) s of (new_fd, s) \<Rightarrow>
     if new_fd = - 1 then throw_errno px ''cannot duplicate file descriptor {}'' [Arg_INT fd] s
     else Some (Inr (), put_file i new_fd s))"

definition File_dup2 :: "'k posix \<Rightarrow> nat \<Rightarrow> int \<Rightarrow> 'k objects \<Rightarrow> ('k objects, unit) call" where
  "File_dup2 px i fd s = (case retry_call px (\<lambda>r. r = - 1) (px_dup2 px (descriptor i s) fd) s of
       None \<Rightarrow> None
     | Some (r, s) \<Rightarrow>
         if r = - 1 then throw_errno px ''cannot duplicate file descriptor {} to {}'' [Arg_INT (descriptor i s), Arg_INT fd] s
         else Some (Inr (), s))"

text \<open>The overload that reports through an error code, which it leaves alone on success.\<close>

definition File_dup2_ec :: "'k posix \<Rightarrow> nat \<Rightarrow> int \<Rightarrow> int \<Rightarrow> 'k objects \<Rightarrow> ('k objects, int) call" where
  "File_dup2_ec px i fd ec s = (case retry_call px (\<lambda>r. r = - 1) (px_dup2 px (descriptor i s) fd) s of
       None \<Rightarrow> None
     | Some (r, s) \<Rightarrow> Some (Inr (if r = - 1 then px_errno px (ob_kernel s) else ec), s))"

definition File_pipe :: "'k posix \<Rightarrow> nat \<Rightarrow> nat \<Rightarrow> 'k objects \<Rightarrow> ('k objects, unit) call" where
  "File_pipe px read_end write_end s =
     bind_call (File_close px read_end s) (\<lambda>_ s.
     bind_call (File_close px write_end s) (\<lambda>_ s.
     case system_call (px_pipe px) s of ((r, fd0, fd1), s) \<Rightarrow>
       if r \<noteq> 0 then throw_errno px ''cannot create pipe'' [] s
       else bind_call (File_assign_temporary px read_end fd0 s) (\<lambda>_ s. File_assign_temporary px write_end fd1 s)))"

definition getpagesize :: "'k posix \<Rightarrow> 'k objects \<Rightarrow> ('k objects, int) call" where
  "getpagesize px s = (case system_call (px_pagesize px) s of (page_size, s) \<Rightarrow>
     if page_size < 0 then throw_errno px ''cannot get memory page size'' [] s else Some (Inr page_size, s))"

section \<open>Buffered files\<close>

definition put_buffered :: "nat \<Rightarrow> nat \<Rightarrow> 'k objects \<Rightarrow> 'k objects" where
  "put_buffered i p s = s\<lparr>ob_buffered := (ob_buffered s)(i \<mapsto> p)\<rparr>"

definition stream :: "nat \<Rightarrow> 'k objects \<Rightarrow> nat" where
  "stream i s = the (ob_buffered s i)"

definition BufferedFile_new :: "nat \<Rightarrow> 'k objects \<Rightarrow> 'k objects" where
  "BufferedFile_new i s = put_buffered i 0 s"

definition BufferedFile_open :: "'k posix \<Rightarrow> nat \<Rightarrow> string \<Rightarrow> string \<Rightarrow> 'k objects \<Rightarrow> ('k objects, unit) call" where
  "BufferedFile_open px i filename mode s = (case retry_call px (\<lambda>p. p = 0) (px_fopen px filename mode) s of
       None \<Rightarrow> None
     | Some (p, s) \<Rightarrow>
         if p = 0 then throw_errno px ''cannot open file {}'' [cstring_arg filename] s
         else Some (Inr (), put_buffered i p s))"

definition BufferedFile_destroy :: "'k posix \<Rightarrow> nat \<Rightarrow> 'k objects \<Rightarrow> 'k objects option" where
  "BufferedFile_destroy px i s = map_option (\<lambda>s. s\<lparr>ob_buffered := (ob_buffered s)(i := None)\<rparr>)
     (if stream i s = 0 then Some s
      else (case system_call (px_fclose px (stream i s)) s of (r, s) \<Rightarrow>
        if r \<noteq> 0 then report_errno px ''cannot close file'' s else Some s))"

definition BufferedFile_close :: "'k posix \<Rightarrow> nat \<Rightarrow> 'k objects \<Rightarrow> ('k objects, unit) call" where
  "BufferedFile_close px i s =
     (if stream i s = 0 then Some (Inr (), s)
      else (case system_call (px_fclose px (stream i s)) s of (r, s) \<Rightarrow>
        (let s = put_buffered i 0 s in
         if r \<noteq> 0 then throw_errno px ''cannot close file'' [] s else Some (Inr (), s))))"

definition BufferedFile_move :: "nat \<Rightarrow> nat \<Rightarrow> 'k objects \<Rightarrow> 'k objects" where
  "BufferedFile_move i other s = put_buffered other 0 (put_buffered i (stream other s) s)"

definition BufferedFile_assign :: "'k posix \<Rightarrow> nat \<Rightarrow> nat \<Rightarrow> 'k objects \<Rightarrow> ('k objects, unit) call" where
  "BufferedFile_assign px i other s = bind_call (BufferedFile_close px i s) (\<lambda>_ s. Some (Inr (), BufferedFile_move i other s))"

text \<open>\<open>fileno\<close> of a null pointer is undefined.\<close>

definition BufferedFile_fileno :: "'k posix \<Rightarrow> nat \<Rightarrow> 'k objects \<Rightarrow> ('k objects, int) call" where
  "BufferedFile_fileno px i s =
     (if stream i s = 0 then None
      else (case system_call (px_fileno px (stream i s)) s of (fd, s) \<Rightarrow>
        if fd = - 1 then throw_errno px ''cannot get file descriptor'' [] s else Some (Inr fd, s)))"

text \<open>\<open>File::fdopen\<close>: the buffered file takes the descriptor over.\<close>

definition File_fdopen :: "'k posix \<Rightarrow> nat \<Rightarrow> string \<Rightarrow> nat \<Rightarrow> 'k objects \<Rightarrow> ('k objects, unit) call" where
  "File_fdopen px i mode b s = (case system_call (px_fdopen px (descriptor i s) mode) s of (p, s) \<Rightarrow>
     if p = 0 then throw_errno px ''cannot associate stream with file descriptor'' [] s
     else Some (Inr (), put_file i (- 1) (put_buffered b p s)))"

end
