(* ===== verification/Posix_Props.thy ===== *)
theory Posix_Props
  imports Posix_File
begin

text \<open>
  Ownership of file descriptors by fmt's \<open>File\<close> and \<open>BufferedFile\<close> objects, over everything a
  client can do with them; system calls that are interrupted; and that all of it returns.
\<close>

section \<open>The operating system\<close>

text \<open>
  What its documentation says of the calls: \<open>fds\<close> are the open descriptors, \<open>strm\<close> the streams
  with their descriptors. A new descriptor or stream is one that was not in use; closing releases
  the descriptor whatever it returns, which is why the code does not retry it; a call that fails
  opens nothing; other calls leave descriptors and streams alone.
\<close>

definition opens :: "('k \<Rightarrow> int set) \<Rightarrow> ('k \<Rightarrow> nat \<Rightarrow> int option) \<Rightarrow> ('k \<Rightarrow> int \<times> 'k) \<Rightarrow> bool" where
  "opens fds strm f \<longleftrightarrow> (\<forall>k r k'. f k = (r, k') \<longrightarrow> strm k' = strm k \<and>
     (if r = - 1 then fds k' = fds k else r \<notin> fds k \<and> fds k' = insert r (fds k)))"

definition keeps :: "('k \<Rightarrow> int set) \<Rightarrow> ('k \<Rightarrow> nat \<Rightarrow> int option) \<Rightarrow> ('k \<Rightarrow> 'r \<times> 'k) \<Rightarrow> bool" where
  "keeps fds strm f \<longleftrightarrow> (\<forall>k r k'. f k = (r, k') \<longrightarrow> strm k' = strm k \<and> fds k' = fds k)"

definition posix_laws :: "'k posix \<Rightarrow> ('k \<Rightarrow> int set) \<Rightarrow> ('k \<Rightarrow> nat \<Rightarrow> int option) \<Rightarrow> bool" where
  "posix_laws px fds strm \<longleftrightarrow>
     (\<forall>k. fds k \<subseteq> {0 .. int_max}) \<and>
     (\<forall>path oflag mode. opens fds strm (px_open px path oflag mode)) \<and>
     (\<forall>fd. opens fds strm (px_dup px fd)) \<and>
     (\<forall>fd k r k'. px_close px fd k = (r, k') \<longrightarrow> fds k' = fds k - {fd} \<and> strm k' = strm k) \<and>
     (\<forall>fd target k r k'. px_dup2 px fd target k = (r, k') \<longrightarrow>
        strm k' = strm k \<and> fds k' = (if r = - 1 then fds k else insert target (fds k))) \<and>
     (\<forall>k r a b k'. px_pipe px k = ((r, a, b), k') \<longrightarrow> strm k' = strm k \<and>
        (if r \<noteq> 0 then fds k' = fds k else a \<noteq> b \<and> a \<notin> fds k \<and> b \<notin> fds k \<and> fds k' = insert b (insert a (fds k)))) \<and>
     (\<forall>filename mode k p k'. px_fopen px filename mode k = (p, k') \<longrightarrow>
        (if p = 0 then fds k' = fds k \<and> strm k' = strm k
         else strm k p = None \<and> (\<exists>fd. fd \<notin> fds k \<and> fds k' = insert fd (fds k) \<and> strm k' = (strm k)(p \<mapsto> fd)))) \<and>
     (\<forall>fd mode k p k'. px_fdopen px fd mode k = (p, k') \<longrightarrow> fds k' = fds k \<and>
        (if p = 0 then strm k' = strm k else strm k p = None \<and> fd \<in> fds k \<and> strm k' = (strm k)(p \<mapsto> fd))) \<and>
     (\<forall>p k r k' fd. px_fclose px p k = (r, k') \<longrightarrow> strm k p = Some fd \<longrightarrow>
        fds k' = fds k - {fd} \<and> strm k' = (strm k)(p := None)) \<and>
     (\<forall>fd. keeps fds strm (px_fstat px fd)) \<and>
     (\<forall>fd n. keeps fds strm (px_read px fd n)) \<and>
     (\<forall>fd data. keeps fds strm (px_write px fd data)) \<and>
     (\<forall>p. keeps fds strm (px_fileno px p)) \<and>
     keeps fds strm (px_pagesize px)"

text \<open>
  No call is interrupted forever: a measure \<open>m\<close> on the state goes down with every interruption.
  System messages do not need an endless buffer.
\<close>

definition interruptions_end :: "'k posix \<Rightarrow> ('k \<Rightarrow> nat) \<Rightarrow> ('r \<Rightarrow> bool) \<Rightarrow> ('k \<Rightarrow> 'r \<times> 'k) \<Rightarrow> bool" where
  "interruptions_end px m is_error f \<longleftrightarrow>
     (\<forall>k r k'. f k = (r, k') \<longrightarrow> is_error r \<longrightarrow> px_errno px k' = EINTR \<longrightarrow> m k' < m k)"

definition responsive :: "'k posix \<Rightarrow> ('k \<Rightarrow> nat) \<Rightarrow> bool" where
  "responsive px m \<longleftrightarrow>
     (\<forall>path oflag mode. interruptions_end px m (\<lambda>fd. fd = - 1) (px_open px path oflag mode)) \<and>
     (\<forall>fd n. interruptions_end px m (\<lambda>(n, data). n = - 1) (px_read px fd n)) \<and>
     (\<forall>fd data. interruptions_end px m (\<lambda>n. n = - 1) (px_write px fd data)) \<and>
     (\<forall>fd target. interruptions_end px m (\<lambda>r. r = - 1) (px_dup2 px fd target)) \<and>
     (\<forall>filename mode. interruptions_end px m (\<lambda>p. p = 0) (px_fopen px filename mode)) \<and>
     (\<forall>code. \<exists>msg. \<forall>n. px_strerror_r px code n = (take (n - 1) msg, True))"

section \<open>Clients\<close>

datatype posix_op =
    New nat | Open nat string int | Dup nat int | Move nat nat | Assign nat nat | Close nat | Destroy nat
  | Read nat size_t | Write nat string | Size nat | Dup2 nat int | Dup2_ec nat int int | Pipe nat nat
  | BNew nat | BOpen nat string string | Fdopen nat string nat | BMove nat nat | BAssign nat nat | BClose nat
  | BDestroy nat | BFileno nat | Pagesize

text \<open>The language lets a client construct objects it does not have and use those it has.\<close>

fun op_ok :: "posix_op \<Rightarrow> 'k objects \<Rightarrow> bool" where
  "op_ok (New i) s \<longleftrightarrow> ob_files s i = None"
| "op_ok (Open i path oflag) s \<longleftrightarrow> ob_files s i = None \<and> CHR 0x00 \<notin> set path"
| "op_ok (Dup i fd) s \<longleftrightarrow> ob_files s i = None \<and> int_in_range Int_t fd"
| "op_ok (Move i j) s \<longleftrightarrow> ob_files s i = None \<and> ob_files s j \<noteq> None"
| "op_ok (Assign i j) s \<longleftrightarrow> ob_files s i \<noteq> None \<and> ob_files s j \<noteq> None"
| "op_ok (Close i) s \<longleftrightarrow> ob_files s i \<noteq> None"
| "op_ok (Destroy i) s \<longleftrightarrow> ob_files s i \<noteq> None"
| "op_ok (Read i n) s \<longleftrightarrow> ob_files s i \<noteq> None"
| "op_ok (Write i data) s \<longleftrightarrow> ob_files s i \<noteq> None"
| "op_ok (Size i) s \<longleftrightarrow> ob_files s i \<noteq> None"
| "op_ok (Dup2 i fd) s \<longleftrightarrow> ob_files s i \<noteq> None \<and> int_in_range Int_t fd"
| "op_ok (Dup2_ec i fd ec) s \<longleftrightarrow> ob_files s i \<noteq> None \<and> int_in_range Int_t fd"
| "op_ok (Pipe i j) s \<longleftrightarrow> ob_files s i \<noteq> None \<and> ob_files s j \<noteq> None"
| "op_ok (BNew i) s \<longleftrightarrow> ob_buffered s i = None"
| "op_ok (BOpen i filename mode) s \<longleftrightarrow> ob_buffered s i = None \<and> CHR 0x00 \<notin> set filename"
| "op_ok (Fdopen i mode b) s \<longleftrightarrow> ob_files s i \<noteq> None \<and> ob_buffered s b = None"
| "op_ok (BMove i j) s \<longleftrightarrow> ob_buffered s i = None \<and> ob_buffered s j \<noteq> None"
| "op_ok (BAssign i j) s \<longleftrightarrow> ob_buffered s i \<noteq> None \<and> ob_buffered s j \<noteq> None"
| "op_ok (BClose i) s \<longleftrightarrow> ob_buffered s i \<noteq> None"
| "op_ok (BDestroy i) s \<longleftrightarrow> ob_buffered s i \<noteq> None"
| "op_ok (BFileno i) s \<longleftrightarrow> ob_buffered s i \<noteq> None \<and> stream i s \<noteq> 0"
| "op_ok Pagesize s \<longleftrightarrow> True"

text \<open>One operation, without what it returns; whether it throws is of no matter.\<close>

definition void :: "('k objects, 'a) call \<Rightarrow> 'k objects option" where
  "void c = map_option snd c"

fun posix_step :: "'k posix \<Rightarrow> posix_op \<Rightarrow> 'k objects \<Rightarrow> 'k objects option" where
  "posix_step px (New i) s = Some (File_new i s)"
| "posix_step px (Open i path oflag) s = void (File_open px i path oflag s)"
| "posix_step px (Dup i fd) s = void (File_dup px i fd s)"
| "posix_step px (Move i j) s = Some (File_move i j s)"
| "posix_step px (Assign i j) s = void (File_assign px i j s)"
| "posix_step px (Close i) s = void (File_close px i s)"
| "posix_step px (Destroy i) s = File_destroy px i s"
| "posix_step px (Read i n) s = void (File_read px i n s)"
| "posix_step px (Write i data) s = void (File_write px i data s)"
| "posix_step px (Size i) s = void (File_size px i s)"
| "posix_step px (Dup2 i fd) s = void (File_dup2 px i fd s)"
| "posix_step px (Dup2_ec i fd ec) s = void (File_dup2_ec px i fd ec s)"
| "posix_step px (Pipe i j) s = void (File_pipe px i j s)"
| "posix_step px (BNew i) s = Some (BufferedFile_new i s)"
| "posix_step px (BOpen i filename mode) s = void (BufferedFile_open px i filename mode s)"
| "posix_step px (Fdopen i mode b) s = void (File_fdopen px i mode b s)"
| "posix_step px (BMove i j) s = Some (BufferedFile_move i j s)"
| "posix_step px (BAssign i j) s = void (BufferedFile_assign px i j s)"
| "posix_step px (BClose i) s = void (BufferedFile_close px i s)"
| "posix_step px (BDestroy i) s = BufferedFile_destroy px i s"
| "posix_step px (BFileno i) s = void (BufferedFile_fileno px i s)"
| "posix_step px Pagesize s = void (getpagesize px s)"

text \<open>The descriptors that a client overwrites with \<open>dup2\<close> are ones it manages itself.\<close>

fun dup2_target :: "posix_op \<Rightarrow> int set" where
  "dup2_target (Dup2 i fd) = {fd}"
| "dup2_target (Dup2_ec i fd ec) = {fd}"
| "dup2_target _ = {}"

inductive posix_run :: "'k posix \<Rightarrow> 'k \<Rightarrow> int set \<Rightarrow> 'k objects \<Rightarrow> bool" for px k where
  start: "posix_run px k {} (objects_new k)"
| step: "posix_run px k targets s \<Longrightarrow> op_ok op s \<Longrightarrow> posix_step px op s = Some s' \<Longrightarrow>
    posix_run px k (dup2_target op \<union> targets) s'"

section \<open>Ownership\<close>

text \<open>The descriptor that an object owns: \<open>Inl\<close> is a file, \<open>Inr\<close> a buffered file.\<close>

fun held :: "('k \<Rightarrow> nat \<Rightarrow> int option) \<Rightarrow> 'k objects \<Rightarrow> nat + nat \<Rightarrow> int option" where
  "held strm s (Inl i) = (case ob_files s i of Some fd \<Rightarrow> if fd = - 1 then None else Some fd | None \<Rightarrow> None)"
| "held strm s (Inr i) = (case ob_buffered s i of Some p \<Rightarrow> if p = 0 then None else strm (ob_kernel s) p | None \<Rightarrow> None)"

definition owns :: "('o \<Rightarrow> int option) \<Rightarrow> int set \<Rightarrow> int set \<Rightarrow> int set \<Rightarrow> bool" where
  "owns H fds base targets \<longleftrightarrow>
     (\<forall>x y d. H x = Some d \<longrightarrow> H y = Some d \<longrightarrow> x = y) \<and> ran H \<subseteq> fds - base \<and> base \<subseteq> fds \<and> fds \<subseteq> base \<union> targets \<union> ran H"

lemma owns_empty: "owns Map.empty fds fds {}"
  by (simp add: owns_def)

lemma owns_acquire: "owns H fds base targets \<Longrightarrow> d \<notin> fds \<Longrightarrow> H x = None \<Longrightarrow> owns (H(x \<mapsto> d)) (insert d fds) base targets"
  unfolding owns_def by (auto dest: ranI)

lemma ran_release: "\<forall>x y d. H x = Some d \<longrightarrow> H y = Some d \<longrightarrow> x = y \<Longrightarrow> H x = Some d \<Longrightarrow> ran (H(x := None)) = ran H - {d}"
  by (auto simp: ran_def) (metis option.inject)

lemma owns_release: "owns H fds base targets \<Longrightarrow> H x = Some d \<Longrightarrow> owns (H(x := None)) (fds - {d}) base targets"
  unfolding owns_def using ran_release [of H x d] by (auto dest: ranI)

lemma owns_move:
  assumes "owns H fds base targets" "H x = Some d" "H y = None"
  shows "owns (H(x := None, y \<mapsto> d)) fds base targets"
proof -
  have "owns (H(x := None)) (fds - {d}) base targets" using assms(1,2) by (rule owns_release)
  then have "owns ((H(x := None))(y \<mapsto> d)) (insert d (fds - {d})) base targets" using assms(3) by (intro owns_acquire) auto
  moreover have "insert d (fds - {d}) = fds" using assms(1,2) by (auto simp: owns_def dest: ranI)
  ultimately show ?thesis by simp
qed

lemma owns_target: "owns H fds base targets \<Longrightarrow> owns H (insert t fds) base (insert t targets)"
  unfolding owns_def by auto

lemma owns_more: "owns H fds base targets \<Longrightarrow> owns H fds base (insert t targets)"
  unfolding owns_def by auto

text \<open>The invariant: the objects own the descriptors, and their streams exist.\<close>

definition good :: "('k \<Rightarrow> int set) \<Rightarrow> ('k \<Rightarrow> nat \<Rightarrow> int option) \<Rightarrow> int set \<Rightarrow> int set \<Rightarrow> 'k objects \<Rightarrow> bool" where
  "good fds strm base targets s \<longleftrightarrow>
     owns (held strm s) (fds (ob_kernel s)) base targets \<and>
     (\<forall>i p. ob_buffered s i = Some p \<longrightarrow> p \<noteq> 0 \<longrightarrow> strm (ob_kernel s) p \<noteq> None)"

lemma held_put_file [simp]: "held strm (put_file i fd s) = (held strm s)(Inl i := if fd = - 1 then None else Some fd)"
proof
  show "held strm (put_file i fd s) x = ((held strm s)(Inl i := if fd = - 1 then None else Some fd)) x" for x
    by (cases x) (simp_all add: put_file_def split: option.splits)
qed

lemma held_put_buffered [simp]:
  "held strm (put_buffered i p s) = (held strm s)(Inr i := if p = 0 then None else strm (ob_kernel s) p)"
proof
  show "held strm (put_buffered i p s) x = ((held strm s)(Inr i := if p = 0 then None else strm (ob_kernel s) p)) x" for x
    by (cases x) (simp_all add: put_buffered_def split: option.splits)
qed

lemma held_remove_file [simp]: "held strm (s\<lparr>ob_files := (ob_files s)(i := None)\<rparr>) = (held strm s)(Inl i := None)"
proof
  show "held strm (s\<lparr>ob_files := (ob_files s)(i := None)\<rparr>) x = ((held strm s)(Inl i := None)) x" for x
    by (cases x) (simp_all split: option.splits)
qed

lemma held_remove_buffered [simp]: "held strm (s\<lparr>ob_buffered := (ob_buffered s)(i := None)\<rparr>) = (held strm s)(Inr i := None)"
proof
  show "held strm (s\<lparr>ob_buffered := (ob_buffered s)(i := None)\<rparr>) x = ((held strm s)(Inr i := None)) x" for x
    by (cases x) (simp_all split: option.splits)
qed

lemma held_kernel: "strm k = strm (ob_kernel s) \<Longrightarrow> held strm (s\<lparr>ob_kernel := k\<rparr>) = held strm s"
proof
  show "held strm (s\<lparr>ob_kernel := k\<rparr>) x = held strm s x" if "strm k = strm (ob_kernel s)" for x
    using that by (cases x) (simp_all split: option.splits)
qed

lemma held_stderr [simp]: "held strm (s\<lparr>ob_stderr := e\<rparr>) = held strm s"
proof
  show "held strm (s\<lparr>ob_stderr := e\<rparr>) x = held strm s x" for x
    by (cases x) (simp_all split: option.splits)
qed

lemma put_simps [simp]:
  "ob_kernel (put_file i fd s) = ob_kernel s" "ob_kernel (put_buffered i p s) = ob_kernel s"
  "ob_buffered (put_file i fd s) = ob_buffered s" "ob_files (put_buffered i p s) = ob_files s"
  "ob_files (put_file i fd s) = (ob_files s)(i \<mapsto> fd)" "ob_buffered (put_buffered i p s) = (ob_buffered s)(i \<mapsto> p)"
  "ob_stderr (put_file i fd s) = ob_stderr s" "ob_stderr (put_buffered i p s) = ob_stderr s"
  by (simp_all add: put_file_def put_buffered_def)

lemma good_kernel: "good fds strm base targets s \<Longrightarrow> fds k = fds (ob_kernel s) \<Longrightarrow> strm k = strm (ob_kernel s) \<Longrightarrow>
    good fds strm base targets (s\<lparr>ob_kernel := k\<rparr>)"
  by (simp add: good_def held_kernel)

lemma good_stderr [simp]: "good fds strm base targets (s\<lparr>ob_stderr := e\<rparr>) \<longleftrightarrow> good fds strm base targets s"
  by (simp add: good_def)

lemma system_call_eq: "system_call f s = (r, s') \<longleftrightarrow> (\<exists>k. f (ob_kernel s) = (r, k) \<and> s' = s\<lparr>ob_kernel := k\<rparr>)"
  by (auto simp: system_call_def split: prod.splits)

text \<open>The last call of a retried one is made in a state that the failed ones lead to.\<close>

lemma retry_val_last:
  assumes "retry_val errno is_error f k = Some y"
  shows "\<forall>k r k'. f k = (r, k') \<longrightarrow> is_error r \<longrightarrow> P k \<longrightarrow> P k' \<Longrightarrow> P k \<Longrightarrow> \<exists>k0. P k0 \<and> f k0 = y"
proof (induction rule: retry_val.raw_induct [OF _ assms, consumes 0, case_names step])
  case (step rec errno is_error f k y)
  then show ?case by (auto split: prod.splits if_splits)
qed

section \<open>Every operation keeps the invariant\<close>

lemma posix_lawsD:
  assumes "posix_laws px fds strm"
  shows "fds k \<subseteq> {0 .. int_max}"
    "opens fds strm (px_open px path oflag mode)" "opens fds strm (px_dup px fd)"
    "px_close px fd k = (r, k') \<Longrightarrow> fds k' = fds k - {fd} \<and> strm k' = strm k"
    "px_dup2 px fd target k = (r, k') \<Longrightarrow> strm k' = strm k \<and> fds k' = (if r = - 1 then fds k else insert target (fds k))"
    "px_fdopen px fd md k = (p, k') \<Longrightarrow> fds k' = fds k \<and>
       (if p = 0 then strm k' = strm k else strm k p = None \<and> fd \<in> fds k \<and> strm k' = (strm k)(p \<mapsto> fd))"
    "px_fopen px filename md k = (p, k') \<Longrightarrow>
       (if p = 0 then fds k' = fds k \<and> strm k' = strm k
        else strm k p = None \<and> (\<exists>fd. fd \<notin> fds k \<and> fds k' = insert fd (fds k) \<and> strm k' = (strm k)(p \<mapsto> fd)))"
    "px_fclose px p k = (r, k') \<Longrightarrow> strm k p = Some fd \<Longrightarrow> fds k' = fds k - {fd} \<and> strm k' = (strm k)(p := None)"
    "keeps fds strm (px_fstat px fd)" "keeps fds strm (px_read px fd n)" "keeps fds strm (px_write px fd data)"
    "keeps fds strm (px_fileno px p)" "keeps fds strm (px_pagesize px)"
  by (insert assms [unfolded posix_laws_def], (elim conjE, (metis | simp))+)

lemma pipe_law:
  assumes "posix_laws px fds strm" "px_pipe px k = ((r, a, b), k')"
  shows "strm k' = strm k" "r \<noteq> 0 \<Longrightarrow> fds k' = fds k"
    "r = 0 \<Longrightarrow> a \<noteq> b \<and> a \<notin> fds k \<and> b \<notin> fds k \<and> fds k' = insert b (insert a (fds k))"
  by (insert assms(1) [unfolded posix_laws_def] assms(2), metis+)

definition good_call :: "('k \<Rightarrow> int set) \<Rightarrow> ('k \<Rightarrow> nat \<Rightarrow> int option) \<Rightarrow> int set \<Rightarrow> int set \<Rightarrow> ('k objects, 'a) call \<Rightarrow> bool" where
  "good_call fds strm base targets c \<longleftrightarrow> (\<forall>x s. c = Some (x, s) \<longrightarrow> good fds strm base targets s)"

lemma good_call_simps [simp]:
  "good_call fds strm base targets None"
  "good_call fds strm base targets (Some (x, s)) \<longleftrightarrow> good fds strm base targets s"
  by (simp_all add: good_call_def)

lemma good_call_bind:
  "good_call fds strm base targets m \<Longrightarrow>
   (\<And>a s. m = Some (Inr a, s) \<Longrightarrow> good fds strm base targets s \<Longrightarrow> good_call fds strm base targets (f a s)) \<Longrightarrow>
   good_call fds strm base targets (bind_call m f)"
  by (auto simp: bind_call_def good_call_def split: option.splits sum.splits prod.splits)

lemma good_throw [simp]: "good fds strm base targets s \<Longrightarrow> good_call fds strm base targets (throw_errno px fmt args s)"
  by (auto simp: throw_errno_def good_call_def)

lemma good_report: "report_errno px msg s = Some s' \<Longrightarrow> good fds strm base targets s \<Longrightarrow> good fds strm base targets s'"
  by (auto simp: report_errno_def)

lemma good_void: "good_call fds strm base targets c \<Longrightarrow> void c = Some s \<Longrightarrow> good fds strm base targets s"
  by (auto simp: void_def good_call_def)

lemma good_keeps: "keeps fds strm f \<Longrightarrow> good fds strm base targets s \<Longrightarrow> f (ob_kernel s) = (r, k) \<Longrightarrow>
    good fds strm base targets (s\<lparr>ob_kernel := k\<rparr>)"
  by (rule good_kernel) (auto simp: keeps_def)

text \<open>A retried call is one call, when those that fail change no descriptor.\<close>

lemma retry_call_last:
  assumes "retry_call px is_error f s = Some (r, s')" "good fds strm base targets s"
    and "\<And>k r k'. f k = (r, k') \<Longrightarrow> is_error r \<Longrightarrow> fds k' = fds k \<and> strm k' = strm k"
  obtains k s0 where "good fds strm base targets s0" "ob_files s0 = ob_files s" "ob_buffered s0 = ob_buffered s"
    "f (ob_kernel s0) = (r, k)" "s' = s0\<lparr>ob_kernel := k\<rparr>"
proof -
  obtain k where k: "retry_val (px_errno px) is_error f (ob_kernel s) = Some (r, k)" "s' = s\<lparr>ob_kernel := k\<rparr>"
    using assms(1) by (auto simp: retry_call_def)
  obtain k0 where "fds k0 = fds (ob_kernel s) \<and> strm k0 = strm (ob_kernel s)" "f k0 = (r, k)"
    using retry_val_last [OF k(1), of "\<lambda>k0. fds k0 = fds (ob_kernel s) \<and> strm k0 = strm (ob_kernel s)"] assms(3) by metis
  then show ?thesis using that [of "s\<lparr>ob_kernel := k0\<rparr>" k] good_kernel [OF assms(2)] k(2) by simp
qed

lemma good_new_file:
  assumes "opens fds strm f" "good fds strm base targets s" "f (ob_kernel s) = (fd, k)" "fd \<noteq> - 1" "ob_files s i = None"
  shows "good fds strm base targets (put_file i fd (s\<lparr>ob_kernel := k\<rparr>))"
proof -
  have k: "strm k = strm (ob_kernel s)" "fd \<notin> fds (ob_kernel s)" "fds k = insert fd (fds (ob_kernel s))"
    using assms(1,3,4) unfolding opens_def by metis+
  have "owns ((held strm s)(Inl i \<mapsto> fd)) (fds k) base targets"
    unfolding k(3) using assms(2,5) k(2) by (intro owns_acquire) (auto simp: good_def)
  then show ?thesis using assms(2,4) k by (simp add: good_def held_kernel)
qed

lemma good_failed: "opens fds strm f \<Longrightarrow> good fds strm base targets s \<Longrightarrow> f (ob_kernel s) = (- 1, k) \<Longrightarrow>
    good fds strm base targets (s\<lparr>ob_kernel := k\<rparr>)"
  by (rule good_kernel) (auto simp: opens_def)

lemma good_File_open:
  assumes "posix_laws px fds strm" "good fds strm base targets s" "ob_files s i = None"
  shows "good_call fds strm base targets (File_open px i path oflag s)"
proof (cases "retry_call px (\<lambda>fd. fd = - 1) (px_open px path oflag user_rw) s")
  case None
  then show ?thesis by (simp add: File_open_def)
next
  case (Some r)
  obtain fd s' where r: "r = (fd, s')" by fastforce
  note law = posix_lawsD(2) [OF assms(1), of path oflag user_rw]
  from Some [unfolded r] assms(2) obtain k s0 where s0: "good fds strm base targets s0" "ob_files s0 = ob_files s"
    "px_open px path oflag user_rw (ob_kernel s0) = (fd, k)" "s' = s0\<lparr>ob_kernel := k\<rparr>"
    by (rule retry_call_last) (use law in \<open>auto simp: opens_def\<close>)
  show ?thesis
  proof (cases "fd = - 1")
    case True
    then show ?thesis using good_failed [OF law s0(1)] s0 by (simp add: File_open_def Some r)
  next
    case False
    then show ?thesis using good_new_file [OF law s0(1,3) False] s0 assms(3) by (simp add: File_open_def Some r)
  qed
qed

lemma good_File_dup:
  assumes "posix_laws px fds strm" "good fds strm base targets s" "ob_files s i = None"
  shows "good_call fds strm base targets (File_dup px i fd s)"
proof -
  obtain new_fd k where k: "px_dup px fd (ob_kernel s) = (new_fd, k)" by fastforce
  note law = posix_lawsD(3) [OF assms(1), of fd]
  show ?thesis using good_failed [OF law assms(2)] good_new_file [OF law assms(2) k _ assms(3)] k
    by (auto simp: File_dup_def system_call_def)
qed

lemma descriptor_held: "ob_files s i \<noteq> None \<Longrightarrow> descriptor i s \<noteq> - 1 \<Longrightarrow> held strm s (Inl i) = Some (descriptor i s)"
  by (auto simp: descriptor_def)

lemma good_released:
  assumes "posix_laws px fds strm" "good fds strm base targets s" "ob_files s i \<noteq> None" "descriptor i s \<noteq> - 1"
    and "px_close px (descriptor i s) (ob_kernel s) = (r, k)"
  shows "good fds strm base targets (put_file i (- 1) (s\<lparr>ob_kernel := k\<rparr>))"
    "good fds strm base targets (s\<lparr>ob_kernel := k, ob_files := (ob_files s)(i := None)\<rparr>)"
proof -
  have k: "fds k = fds (ob_kernel s) - {descriptor i s}" "strm k = strm (ob_kernel s)"
    using posix_lawsD(4) [OF assms(1,5)] by auto
  have "owns ((held strm s)(Inl i := None)) (fds k) base targets"
    unfolding k(1) using assms(2) descriptor_held [OF assms(3,4)] by (intro owns_release) (auto simp: good_def)
  then show "good fds strm base targets (put_file i (- 1) (s\<lparr>ob_kernel := k\<rparr>))"
    "good fds strm base targets (s\<lparr>ob_kernel := k, ob_files := (ob_files s)(i := None)\<rparr>)"
    using assms(2) k held_remove_file [of strm "s\<lparr>ob_kernel := k\<rparr>" i] by (simp_all add: good_def held_kernel)
qed

lemma good_File_close:
  assumes "posix_laws px fds strm" "good fds strm base targets s" "ob_files s i \<noteq> None"
  shows "good_call fds strm base targets (File_close px i s)"
proof -
  obtain r k where "px_close px (descriptor i s) (ob_kernel s) = (r, k)" by fastforce
  then show ?thesis using good_released(1) [OF assms] assms(2) by (auto simp: File_close_def system_call_def Let_def)
qed

lemma good_File_destroy:
  assumes "posix_laws px fds strm" "good fds strm base targets s" "ob_files s i \<noteq> None" "File_destroy px i s = Some s'"
  shows "good fds strm base targets s'"
proof (cases "descriptor i s = - 1")
  case True
  then have "held strm s (Inl i) = None" using assms(3) by (auto simp: descriptor_def)
  then have "(held strm s)(Inl i := None) = held strm s" by auto
  then show ?thesis using True assms(2,4) by (auto simp: File_destroy_def fd_destroy_def good_def)
next
  case False
  obtain r k where k: "px_close px (descriptor i s) (ob_kernel s) = (r, k)" by fastforce
  have "s' = s\<lparr>ob_kernel := k, ob_files := (ob_files s)(i := None), ob_stderr := ob_stderr s'\<rparr>"
    using assms(4) k False by (auto simp: File_destroy_def fd_destroy_def system_call_def report_errno_def split: if_splits)
  moreover have "good fds strm base targets (s\<lparr>ob_kernel := k, ob_files := (ob_files s)(i := None)\<rparr>)"
    using good_released(2) [OF assms(1-3) False k] .
  ultimately show ?thesis by (metis good_stderr)
qed

lemma good_new: "good fds strm base targets s \<Longrightarrow> ob_files s i = None \<Longrightarrow> good fds strm base targets (File_new i s)"
  "good fds strm base targets s \<Longrightarrow> ob_buffered s i = None \<Longrightarrow> good fds strm base targets (BufferedFile_new i s)"
proof -
  have "(held strm s)(Inl i := None) = held strm s" if "ob_files s i = None" using that by auto
  then show "good fds strm base targets s \<Longrightarrow> ob_files s i = None \<Longrightarrow> good fds strm base targets (File_new i s)"
    by (simp add: File_new_def good_def)
  have "(held strm s)(Inr i := None) = held strm s" if "ob_buffered s i = None" using that by auto
  then show "good fds strm base targets s \<Longrightarrow> ob_buffered s i = None \<Longrightarrow> good fds strm base targets (BufferedFile_new i s)"
    by (simp add: BufferedFile_new_def good_def)
qed

text \<open>Moving, to an object that owns nothing.\<close>

lemma good_File_move:
  assumes "good fds strm base targets s" "held strm s (Inl i) = None" "ob_files s j \<noteq> None"
  shows "good fds strm base targets (File_move i j s)"
proof (cases "descriptor j s = - 1")
  case True
  then have "held strm (File_move i j s) = held strm s"
    using assms(2,3) by (auto simp: File_move_def descriptor_def fun_eq_iff)
  then show ?thesis using assms(1) by (simp add: good_def File_move_def)
next
  case False
  have j: "held strm s (Inl j) = Some (descriptor j s)" using descriptor_held [OF assms(3) False] .
  then have "i \<noteq> j" using assms(2) by auto
  then have "held strm (File_move i j s) = (held strm s)(Inl j := None, Inl i \<mapsto> descriptor j s)"
    using False by (auto simp: File_move_def)
  moreover have "owns ((held strm s)(Inl j := None, Inl i \<mapsto> descriptor j s)) (fds (ob_kernel s)) base targets"
    using assms(1,2) j by (intro owns_move) (auto simp: good_def)
  ultimately show ?thesis using assms(1) by (simp add: good_def File_move_def)
qed

lemma File_close_files:
  assumes "File_close px i s = Some (x, s')" "ob_files s i \<noteq> None"
  shows "ob_files s' = (ob_files s)(i \<mapsto> - 1)" "ob_buffered s' = ob_buffered s"
  using assms by (auto simp: File_close_def system_call_def throw_errno_def descriptor_def fun_eq_iff Let_def split: if_splits prod.splits)

lemma good_File_assign:
  assumes "posix_laws px fds strm" "good fds strm base targets s" "ob_files s i \<noteq> None" "ob_files s j \<noteq> None"
  shows "good_call fds strm base targets (File_assign px i j s)"
  unfolding File_assign_def
proof (rule good_call_bind [OF good_File_close [OF assms(1-3)]])
  fix a s1
  assume "File_close px i s = Some (Inr a, s1)" and g: "good fds strm base targets s1"
  then have "ob_files s1 = (ob_files s)(i \<mapsto> - 1)" using File_close_files(1) assms(3) by blast
  then show "good_call fds strm base targets (Some (Inr (), File_move i j s1))"
    using g assms(4) by (simp add: good_File_move)
qed

lemma File_close_closed: "descriptor i s = - 1 \<Longrightarrow> File_close px i s = Some (Inr (), s)"
  by (simp add: File_close_def)

text \<open>The ends of a pipe are taken over by the two objects, which may be one.\<close>

lemma good_pipe_ends:
  assumes laws: "posix_laws px fds strm" and g: "good fds strm base targets s"
    and closed: "ob_files s i = Some (- 1)" "ob_files s j = Some (- 1)"
    and k: "px_pipe px (ob_kernel s) = ((0, a, b), k)"
  shows "good_call fds strm base targets
    (bind_call (File_assign_temporary px i a (s\<lparr>ob_kernel := k\<rparr>)) (\<lambda>_ s. File_assign_temporary px j b s))"
proof -
  let ?s = "put_file i a (s\<lparr>ob_kernel := k\<rparr>)"
  have new: "strm k = strm (ob_kernel s)" "a \<noteq> b" "a \<notin> fds (ob_kernel s)" "b \<notin> fds (ob_kernel s)"
    "fds k = insert b (insert a (fds (ob_kernel s)))" using pipe_law [OF laws k] by auto
  have pos: "a \<noteq> - 1" "b \<noteq> - 1" using new(5) posix_lawsD(1) [OF laws, of k] by auto
  have H: "held strm ?s = (held strm s)(Inl i \<mapsto> a)" using pos new(1) by (simp add: held_kernel)
  have first: "File_assign_temporary px i a (s\<lparr>ob_kernel := k\<rparr>) = Some (Inr (), ?s)"
    using closed by (simp add: File_assign_temporary_def File_close_def descriptor_def)
  have own1: "owns ((held strm s)(Inl i \<mapsto> a)) (insert a (fds (ob_kernel s))) base targets"
    using g new(3) closed by (intro owns_acquire) (auto simp: good_def)
  have streams: "\<forall>i p. ob_buffered s i = Some p \<longrightarrow> p \<noteq> 0 \<longrightarrow> strm k p \<noteq> None" using g new(1) by (simp add: good_def)
  show ?thesis
  proof (cases "i = j")
    case False
    then have "File_assign_temporary px j b ?s = Some (Inr (), put_file j b ?s)"
      using closed by (simp add: File_assign_temporary_def File_close_def descriptor_def)
    moreover have "owns ((held strm s)(Inl i \<mapsto> a, Inl j \<mapsto> b)) (fds k) base targets"
      unfolding new(5) by (rule owns_acquire [OF own1]) (use new(2,4) closed False in auto)
    ultimately show ?thesis using first pos new(1) streams by (simp add: good_def held_kernel)
  next
    case True
    obtain r k2 where k2: "px_close px a k = (r, k2)" by fastforce
    have f2: "fds k2 = fds k - {a}" "strm k2 = strm k" using posix_lawsD(4) [OF laws k2] by auto
    have rel: "owns ((held strm s)(Inl i := None)) (fds (ob_kernel s)) base targets"
      using owns_release [OF own1, of "Inl i" a] new(3) by simp
    then have own2: "owns ((held strm s)(Inl i \<mapsto> b)) (fds k2) base targets"
      using owns_acquire [OF rel, of b "Inl i"] f2(1) new(2-5) by (simp add: insert_Diff_if)
    let ?t = "put_file i (- 1) (?s\<lparr>ob_kernel := k2\<rparr>)"
    have c: "File_close px i ?s = (if r \<noteq> 0 then throw_errno px ''cannot close file'' [] ?t else Some (Inr (), ?t))"
      using pos(1) k2 by (simp add: File_close_def system_call_def descriptor_def Let_def)
    have "good fds strm base targets s2" if "fd_destroy px b ?t = Some s2" for s2
    proof -
      obtain r3 k3 where k3: "px_close px b k2 = (r3, k3)" by fastforce
      have f3: "fds k3 = fds (ob_kernel s)" "strm k3 = strm k"
        using posix_lawsD(4) [OF laws k3] f2 new(2-5) by auto
      have "s2 = (put_file i (- 1) (?s\<lparr>ob_kernel := k3\<rparr>))\<lparr>ob_stderr := ob_stderr s2\<rparr>"
        using that k3 pos by (auto simp: fd_destroy_def system_call_def report_errno_def put_file_def split: if_splits)
      moreover have "good fds strm base targets (put_file i (- 1) (?s\<lparr>ob_kernel := k3\<rparr>))"
        using rel streams f3 new(1) by (simp add: good_def held_kernel)
      ultimately show ?thesis by (metis good_stderr)
    qed
    moreover have "good fds strm base targets (put_file i b ?t)"
      using own2 pos f2(2) new(1) streams by (simp add: good_def held_kernel)
    ultimately show ?thesis using first c True
      by (auto simp: File_assign_temporary_def throw_errno_def good_call_def split: option.splits)
  qed
qed

lemma good_File_pipe:
  assumes laws: "posix_laws px fds strm" and g: "good fds strm base targets s"
    and live: "ob_files s i \<noteq> None" "ob_files s j \<noteq> None"
  shows "good_call fds strm base targets (File_pipe px i j s)"
  unfolding File_pipe_def
proof (intro good_call_bind good_File_close [OF laws g live(1)])
  fix x s1 assume s1: "File_close px i s = Some (Inr x, s1)" "good fds strm base targets s1"
  have f1: "ob_files s1 = (ob_files s)(i \<mapsto> - 1)" using File_close_files(1) [OF s1(1) live(1)] .
  show "good_call fds strm base targets (File_close px j s1)"
    using laws s1(2) by (rule good_File_close) (use live f1 in auto)
  fix y s2 assume s2: "File_close px j s1 = Some (Inr y, s2)" "good fds strm base targets s2"
  have "ob_files s2 = (ob_files s1)(j \<mapsto> - 1)" by (rule File_close_files(1) [OF s2(1)]) (use live f1 in auto)
  then have closed: "ob_files s2 i = Some (- 1)" "ob_files s2 j = Some (- 1)" using f1 by auto
  obtain r a b k where k: "px_pipe px (ob_kernel s2) = ((r, a, b), k)" by (metis prod.exhaust)
  show "good_call fds strm base targets (case system_call (px_pipe px) s2 of ((r, fd0, fd1), s) \<Rightarrow>
       if r \<noteq> 0 then throw_errno px ''cannot create pipe'' [] s
       else bind_call (File_assign_temporary px i fd0 s) (\<lambda>_ s. File_assign_temporary px j fd1 s))"
  proof (cases "r = 0")
    case True
    then show ?thesis using good_pipe_ends [OF laws s2(2) closed] k by (simp add: system_call_def)
  next
    case False
    then show ?thesis using good_kernel [OF s2(2), of k] pipe_law [OF laws k] k by (simp add: system_call_def)
  qed
qed

lemma good_dup2_call:
  assumes "posix_laws px fds strm" "good fds strm base targets s" "retry_call px (\<lambda>r. r = - 1) (px_dup2 px fd target) s = Some (r, s')"
  shows "good fds strm base (insert target targets) s'"
proof -
  obtain k s0 where s0: "good fds strm base targets s0" "px_dup2 px fd target (ob_kernel s0) = (r, k)" "s' = s0\<lparr>ob_kernel := k\<rparr>"
    using assms(3,2) by (rule retry_call_last) (use posix_lawsD(5) [OF assms(1)] in auto)
  have "strm k = strm (ob_kernel s0)" "fds k = fds (ob_kernel s0) \<or> fds k = insert target (fds (ob_kernel s0))"
    using posix_lawsD(5) [OF assms(1) s0(2)] by (auto split: if_splits)
  then show ?thesis using s0(1,3) by (auto simp: good_def held_kernel intro: owns_target owns_more)
qed

lemma good_File_dup2:
  assumes "posix_laws px fds strm" "good fds strm base targets s"
  shows "good_call fds strm base (insert fd targets) (File_dup2 px i fd s)"
    "good_call fds strm base (insert fd targets) (File_dup2_ec px i fd ec s)"
  using good_dup2_call [OF assms] unfolding File_dup2_def File_dup2_ec_def by (auto split: option.splits)

lemma good_once: "good fds strm base targets s \<Longrightarrow> keeps fds strm f \<Longrightarrow> system_call f s = (r, s') \<Longrightarrow> good fds strm base targets s'"
  by (auto simp: system_call_eq intro: good_keeps)

lemma good_again:
  assumes "good fds strm base targets s" "keeps fds strm f" "retry_call px e f s = Some (r, s')"
  shows "good fds strm base targets s'"
  using assms(3,1) by (rule retry_call_last) (use assms(2) good_keeps [OF assms(2)] in \<open>auto simp: keeps_def\<close>)

lemma good_keeping:
  assumes "posix_laws px fds strm" "good fds strm base targets s"
  shows "good_call fds strm base targets (File_size px i s)" "good_call fds strm base targets (File_read px i n s)"
    "good_call fds strm base targets (File_write px i data s)" "good_call fds strm base targets (BufferedFile_fileno px i s)"
    "good_call fds strm base targets (getpagesize px s)"
proof -
  note laws = posix_lawsD [OF assms(1)] and once = good_once [OF assms(2)] and again = good_again [OF assms(2)]
  show "good_call fds strm base targets (File_size px i s)"
    by (auto simp: File_size_def intro: good_throw once [OF laws(9)] split: prod.splits)
  show "good_call fds strm base targets (BufferedFile_fileno px i s)"
    by (auto simp: BufferedFile_fileno_def intro: good_throw once [OF laws(12)] split: prod.splits)
  show "good_call fds strm base targets (getpagesize px s)"
    by (auto simp: getpagesize_def intro: good_throw once [OF laws(13)] split: prod.splits)
  show "good_call fds strm base targets (File_read px i n s)"
    by (auto simp: File_read_def intro: good_throw again [OF laws(10)] split: option.splits)
  show "good_call fds strm base targets (File_write px i data s)"
    by (auto simp: File_write_def intro: good_throw again [OF laws(11)] split: option.splits)
qed

text \<open>A new stream changes nothing for the objects, one that is closed only its owner.\<close>

lemma good_stream: "good fds strm base targets s \<Longrightarrow> ob_buffered s i = Some p \<Longrightarrow> p \<noteq> 0 \<Longrightarrow> \<exists>d. strm (ob_kernel s) p = Some d"
  by (auto simp: good_def)

lemma good_one_owner: "good fds strm base targets s \<Longrightarrow> held strm s x = Some d \<Longrightarrow> held strm s y = Some d \<Longrightarrow> x = y"
  unfolding good_def owns_def by metis

lemma held_stream_added:
  assumes "good fds strm base targets s" "strm (ob_kernel s) p = None" "strm k = (strm (ob_kernel s))(p \<mapsto> fd)"
  shows "held strm (s\<lparr>ob_kernel := k\<rparr>) = held strm s"
proof
  have "q \<noteq> p" if "ob_buffered s i = Some q" "q \<noteq> 0" for i q using good_stream [OF assms(1) that] assms(2) by auto
  then show "held strm (s\<lparr>ob_kernel := k\<rparr>) x = held strm s x" for x
    using assms(3) by (cases x) (simp_all split: option.split)
qed

lemma held_stream_removed:
  assumes "good fds strm base targets s" "ob_buffered s i = Some p" "p \<noteq> 0" "strm k = (strm (ob_kernel s))(p := None)"
  shows "held strm (s\<lparr>ob_kernel := k\<rparr>) = (held strm s)(Inr i := None)"
    "ob_buffered s j = Some q \<Longrightarrow> q \<noteq> 0 \<Longrightarrow> j \<noteq> i \<Longrightarrow> strm k q \<noteq> None"
proof -
  obtain d where d: "strm (ob_kernel s) p = Some d" using good_stream [OF assms(1-3)] by auto
  have only: "j = i" if "ob_buffered s j = Some p" for j
    using good_one_owner [OF assms(1), of "Inr j" d "Inr i"] that assms(2,3) d by simp
  show "held strm (s\<lparr>ob_kernel := k\<rparr>) = (held strm s)(Inr i := None)"
  proof
    show "held strm (s\<lparr>ob_kernel := k\<rparr>) x = ((held strm s)(Inr i := None)) x" for x
    proof (cases x)
      case (Inr j)
      have "q \<noteq> p" if "ob_buffered s j = Some q" "j \<noteq> i" for q using that only by blast
      then show ?thesis using Inr assms(2-4) by (cases "j = i") (simp_all split: option.split)
    qed simp
  qed
  show "strm k q \<noteq> None" if "ob_buffered s j = Some q" "q \<noteq> 0" "j \<noteq> i"
  proof -
    have "q \<noteq> p" using that only by blast
    then show ?thesis using good_stream [OF assms(1) that(1,2)] assms(4) by simp
  qed
qed

lemma good_BufferedFile_open:
  assumes "posix_laws px fds strm" "good fds strm base targets s" "ob_buffered s i = None"
  shows "good_call fds strm base targets (BufferedFile_open px i filename md s)"
proof (cases "retry_call px (\<lambda>p. p = 0) (px_fopen px filename md) s")
  case None
  then show ?thesis by (simp add: BufferedFile_open_def)
next
  case (Some r)
  obtain p s' where r: "r = (p, s')" by fastforce
  note law = posix_lawsD(7) [OF assms(1), of filename md]
  from Some [unfolded r] assms(2) obtain k s0 where s0: "good fds strm base targets s0" "ob_buffered s0 = ob_buffered s"
    "px_fopen px filename md (ob_kernel s0) = (p, k)" "s' = s0\<lparr>ob_kernel := k\<rparr>"
    by (rule retry_call_last) (use law in auto)
  show ?thesis
  proof (cases "p = 0")
    case True
    then have "good fds strm base targets s'" using law [OF s0(3)] s0(1,4) by (simp add: good_kernel)
    then show ?thesis using True by (simp add: BufferedFile_open_def Some r)
  next
    case False
    then obtain fd where fd: "strm (ob_kernel s0) p = None" "fd \<notin> fds (ob_kernel s0)" "fds k = insert fd (fds (ob_kernel s0))"
      "strm k = (strm (ob_kernel s0))(p \<mapsto> fd)" using law [OF s0(3)] by auto
    have "owns ((held strm s0)(Inr i \<mapsto> fd)) (fds k) base targets"
      unfolding fd(3) using s0(1,2) fd(2) assms(3) by (intro owns_acquire) (auto simp: good_def)
    then have "good fds strm base targets (put_buffered i p s')"
      using False fd s0(1,4) held_stream_added [OF s0(1) fd(1,4)] by (auto simp: good_def)
    then show ?thesis using False by (simp add: BufferedFile_open_def Some r)
  qed
qed

lemma good_stream_closed:
  assumes laws: "posix_laws px fds strm" and g: "good fds strm base targets s" and p: "ob_buffered s i = Some p" "p \<noteq> 0"
    and k: "px_fclose px p (ob_kernel s) = (r, k)"
  shows "good fds strm base targets (put_buffered i 0 (s\<lparr>ob_kernel := k\<rparr>))"
    "good fds strm base targets (s\<lparr>ob_kernel := k, ob_buffered := (ob_buffered s)(i := None)\<rparr>)"
proof -
  obtain d where d: "strm (ob_kernel s) p = Some d" using g p by (auto simp: good_def)
  note c = posix_lawsD(8) [OF laws k d]
  note H = held_stream_removed [OF g p c [THEN conjunct2]]
  have "owns ((held strm s)(Inr i := None)) (fds k) base targets"
    unfolding c [THEN conjunct1] using g p d by (intro owns_release) (auto simp: good_def)
  then show "good fds strm base targets (put_buffered i 0 (s\<lparr>ob_kernel := k\<rparr>))"
    "good fds strm base targets (s\<lparr>ob_kernel := k, ob_buffered := (ob_buffered s)(i := None)\<rparr>)"
    using H(1) H(2) held_remove_buffered [of strm "s\<lparr>ob_kernel := k\<rparr>" i] by (auto simp: good_def split: if_splits)
qed

lemma good_BufferedFile_close:
  assumes "posix_laws px fds strm" "good fds strm base targets s" "ob_buffered s i \<noteq> None"
  shows "good_call fds strm base targets (BufferedFile_close px i s)"
proof -
  obtain p where p: "ob_buffered s i = Some p" using assms(3) by auto
  obtain r k where "px_fclose px p (ob_kernel s) = (r, k)" by fastforce
  then show ?thesis using good_stream_closed(1) [OF assms(1,2) p] assms(2) p
    by (auto simp: BufferedFile_close_def stream_def system_call_def Let_def)
qed

lemma good_BufferedFile_destroy:
  assumes "posix_laws px fds strm" "good fds strm base targets s" "ob_buffered s i \<noteq> None" "BufferedFile_destroy px i s = Some s'"
  shows "good fds strm base targets s'"
proof -
  obtain p where p: "ob_buffered s i = Some p" using assms(3) by auto
  show ?thesis
  proof (cases "p = 0")
    case True
    then have "(held strm s)(Inr i := None) = held strm s" using p by auto
    then show ?thesis using True p assms(2,4) by (auto simp: BufferedFile_destroy_def stream_def good_def split: if_splits)
  next
    case False
    obtain r k where k: "px_fclose px p (ob_kernel s) = (r, k)" by fastforce
    have "s' = s\<lparr>ob_kernel := k, ob_buffered := (ob_buffered s)(i := None), ob_stderr := ob_stderr s'\<rparr>"
      using assms(4) k False p by (auto simp: BufferedFile_destroy_def stream_def system_call_def report_errno_def split: if_splits)
    then show ?thesis using good_stream_closed(2) [OF assms(1,2) p False k] by (metis good_stderr)
  qed
qed

lemma good_BufferedFile_move:
  assumes "good fds strm base targets s" "held strm s (Inr i) = None" "ob_buffered s j \<noteq> None"
  shows "good fds strm base targets (BufferedFile_move i j s)"
proof -
  obtain p where p: "ob_buffered s j = Some p" using assms(3) by auto
  show ?thesis
  proof (cases "p = 0")
    case True
    then have "held strm (BufferedFile_move i j s) = held strm s"
      using assms(2) p by (auto simp: BufferedFile_move_def stream_def fun_eq_iff)
    then show ?thesis using assms(1) p True by (simp add: good_def BufferedFile_move_def stream_def)
  next
    case False
    obtain d where d: "strm (ob_kernel s) p = Some d" using assms(1) p False by (auto simp: good_def)
    then have j: "held strm s (Inr j) = Some d" using p False by simp
    then have "i \<noteq> j" using assms(2) by auto
    then have "held strm (BufferedFile_move i j s) = (held strm s)(Inr j := None, Inr i \<mapsto> d)"
      using p d False by (auto simp: BufferedFile_move_def stream_def)
    moreover have "owns ((held strm s)(Inr j := None, Inr i \<mapsto> d)) (fds (ob_kernel s)) base targets"
      using assms(1,2) j by (intro owns_move) (auto simp: good_def)
    ultimately show ?thesis using assms(1) p d by (simp add: good_def BufferedFile_move_def stream_def)
  qed
qed

lemma good_BufferedFile_assign:
  assumes "posix_laws px fds strm" "good fds strm base targets s" "ob_buffered s i \<noteq> None" "ob_buffered s j \<noteq> None"
  shows "good_call fds strm base targets (BufferedFile_assign px i j s)"
  unfolding BufferedFile_assign_def
proof (rule good_call_bind [OF good_BufferedFile_close [OF assms(1-3)]])
  fix a s1
  assume c: "BufferedFile_close px i s = Some (Inr a, s1)" and g: "good fds strm base targets s1"
  have "ob_buffered s1 = (ob_buffered s)(i \<mapsto> 0)"
    using c assms(3) by (auto simp: BufferedFile_close_def system_call_def throw_errno_def stream_def fun_eq_iff Let_def split: if_splits prod.splits)
  then show "good_call fds strm base targets (Some (Inr (), BufferedFile_move i j s1))"
    using g assms(4) by (simp add: good_BufferedFile_move)
qed

lemma good_File_fdopen:
  assumes laws: "posix_laws px fds strm" and g: "good fds strm base targets s" and live: "ob_files s i \<noteq> None" "ob_buffered s b = None"
  shows "good_call fds strm base targets (File_fdopen px i md b s)"
proof -
  obtain p k where k: "px_fdopen px (descriptor i s) md (ob_kernel s) = (p, k)" by fastforce
  note law = posix_lawsD(6) [OF laws k]
  show ?thesis
  proof (cases "p = 0")
    case True
    then show ?thesis using good_kernel [OF g, of k] law k by (simp add: File_fdopen_def system_call_def)
  next
    case False
    then have new: "fds k = fds (ob_kernel s)" "strm (ob_kernel s) p = None" "descriptor i s \<in> fds (ob_kernel s)"
      "strm k = (strm (ob_kernel s))(p \<mapsto> descriptor i s)" using law by auto
    have pos: "descriptor i s \<noteq> - 1" using new(3) posix_lawsD(1) [OF laws, of "ob_kernel s"] by auto
    have "owns ((held strm s)(Inl i := None, Inr b \<mapsto> descriptor i s)) (fds (ob_kernel s)) base targets"
      using g descriptor_held [OF live(1) pos] live(2) by (intro owns_move) (auto simp: good_def)
    then have "good fds strm base targets (put_file i (- 1) (put_buffered b p (s\<lparr>ob_kernel := k\<rparr>)))"
      using False g new held_stream_added [OF g new(2,4)] by (auto simp: good_def fun_upd_twist)
    then show ?thesis using False k by (simp add: File_fdopen_def system_call_def)
  qed
qed

lemma good_step:
  assumes "posix_laws px fds strm" "good fds strm base targets s" "op_ok op s" "posix_step px op s = Some s'"
  shows "good fds strm base (dup2_target op \<union> targets) s'"
proof -
  note laws = assms(1,2)
  show ?thesis
  proof (cases op)
    case (Move i j)
    then have "held strm s (Inl i) = None" using assms(3) by simp
    then show ?thesis using Move assms(3,4) good_File_move [OF assms(2)] by auto
  next
    case (BMove i j)
    then have "held strm s (Inr i) = None" using assms(3) by simp
    then show ?thesis using BMove assms(3,4) good_BufferedFile_move [OF assms(2)] by auto
  next
    case (Destroy i)
    then show ?thesis using assms(3,4) good_File_destroy [OF laws] by auto
  next
    case (BDestroy i)
    then show ?thesis using assms(3,4) good_BufferedFile_destroy [OF laws] by auto
  next
    case (Dup2 i fd)
    then show ?thesis using assms(4) good_void [OF good_File_dup2(1) [OF laws]] by auto
  next
    case (Dup2_ec i fd ec)
    then show ?thesis using assms(4) good_void [OF good_File_dup2(2) [OF laws]] by auto
  next
    case (Assign i j)
    then show ?thesis using assms(3,4) good_void [OF good_File_assign [OF laws, of i j]] by auto
  next
    case (Pipe i j)
    then show ?thesis using assms(3,4) good_void [OF good_File_pipe [OF laws, of i j]] by auto
  next
    case (Fdopen i md b)
    then show ?thesis using assms(3,4) good_void [OF good_File_fdopen [OF laws, of i b]] by auto
  next
    case (BAssign i j)
    then show ?thesis using assms(3,4) good_void [OF good_BufferedFile_assign [OF laws, of i j]] by auto
  qed (use assms(3,4) good_new [OF assms(2)] good_void [OF good_File_open [OF laws]] good_void [OF good_File_dup [OF laws]]
      good_void [OF good_File_close [OF laws]] good_void [OF good_keeping(1) [OF laws]]
      good_void [OF good_keeping(2) [OF laws]] good_void [OF good_keeping(3) [OF laws]] good_void [OF good_keeping(4) [OF laws]]
      good_void [OF good_keeping(5) [OF laws]] good_void [OF good_BufferedFile_open [OF laws]]
      good_void [OF good_BufferedFile_close [OF laws]] in \<open>auto\<close>)
qed

lemma good_start: "good fds strm (fds k) {} (objects_new k)"
proof -
  have "held strm (objects_new k) = Map.empty"
  proof
    show "held strm (objects_new k) x = None" for x by (cases x) (simp_all add: objects_new_def)
  qed
  then show ?thesis by (simp add: good_def owns_empty) (simp add: objects_new_def owns_empty)
qed

lemma good_run:
  assumes "posix_laws px fds strm" "posix_run px k targets s"
  shows "good fds strm (fds k) targets s"
  using assms(2) by induction (auto intro: good_start good_step [OF assms(1)])

section \<open>Every operation returns\<close>

lemma retry_val_returns:
  assumes "interruptions_end px m is_error f"
  shows "\<exists>y. retry_val (px_errno px) is_error f k = Some y"
proof (induction "m k" arbitrary: k rule: less_induct)
  case less
  obtain r k' where f: "f k = (r, k')" by fastforce
  show ?case
  proof (cases "is_error r \<and> px_errno px k' = EINTR")
    case True
    then have "m k' < m k" using assms f by (auto simp: interruptions_end_def)
    from less [OF this] show ?thesis using True by (subst retry_val.simps) (simp add: f)
  next
    case False
    then show ?thesis by (subst retry_val.simps) (auto simp: f)
  qed
qed

lemma retry_call_returns: "interruptions_end px m is_error f \<Longrightarrow> retry_call px is_error f s \<noteq> None"
  using retry_val_returns [of px m is_error f "ob_kernel s"] by (auto simp: retry_call_def)

text \<open>The texts of the errors.\<close>

lemma message_init:
  assumes "responsive px m" "list_all2 (\<lambda>a t. arg_ok a \<and> arg_text a = Some t) args ts"
    and "\<forall>s. Lit s \<in> set ps \<longrightarrow> CHR 0x00 \<notin> set s" "template_text ps ts = Some body"
  shows "\<exists>msg. SystemError_init px code (template_src ps) args = Some (System_error code (body @ '': '' @ msg))"
proof -
  obtain msg where "\<forall>n. px_strerror_r px code n = (take (n - 1) msg, True)" using assms(1) unfolding responsive_def by blast
  then have "format_system_error (px_strerror_r px) code body [] = Some (body @ '': '' @ msg)"
    using format_system_error_whole [of "px_strerror_r px" code msg body "[]"] by simp
  then show ?thesis using format_template [OF assms(2,3), of "px_memory px" "px_thousands_sep px" "\<lambda>d spec b. None" "[]"] assms(4)
    by (simp add: SystemError_init_def)
qed

lemma throw_text:
  assumes "responsive px m" "list_all2 (\<lambda>a t. arg_ok a \<and> arg_text a = Some t) args ts"
    and "\<forall>s. Lit s \<in> set ps \<longrightarrow> CHR 0x00 \<notin> set s" "template_text ps ts = Some body" "template_src ps = fmt"
  shows "\<exists>msg. throw_errno px fmt args s =
    Some (Inl (System_error (px_errno px (ob_kernel s)) (body @ '': '' @ msg)), s)"
  using message_init [OF assms(1-4), of "px_errno px (ob_kernel s)"] assms(5) by (auto simp: throw_errno_def)

lemma throw_plain:
  assumes "responsive px m" "CHR 0x00 \<notin> set fmt" "CHR ''{'' \<notin> set fmt" "CHR ''}'' \<notin> set fmt"
  shows "\<exists>msg. throw_errno px fmt [] s = Some (Inl (System_error (px_errno px (ob_kernel s)) (fmt @ '': '' @ msg)), s)"
proof -
  have "escape fmt = fmt" using assms(3,4) by (induction fmt) auto
  then show ?thesis using throw_text [OF assms(1), of "[]" "[]" "[Lit fmt]" fmt fmt s] assms(2) by (simp add: template_src_def)
qed

lemma throw_cannot_open:
  assumes "responsive px m"
  shows "\<exists>msg. throw_errno px ''cannot open file {}'' [cstring_arg path] s =
    Some (Inl (System_error (px_errno px (ob_kernel s)) (''cannot open file '' @ path @ '': '' @ msg)), s)"
proof -
  have "\<exists>msg. throw_errno px ''cannot open file {}'' [cstring_arg path] s =
      Some (Inl (System_error (px_errno px (ob_kernel s)) ((''cannot open file '' @ path) @ '': '' @ msg)), s)"
    by (rule throw_text [OF assms, of _ "[path]" "[Lit ''cannot open file '', Hole]"]) (auto simp: template_src_def cstring_arg_def)
  then show ?thesis by (simp only: append_assoc)
qed

lemma throw_cannot_duplicate:
  assumes "responsive px m" "int_in_range Int_t fd"
  shows "throw_errno px ''cannot duplicate file descriptor {}'' [Arg_INT fd] s \<noteq> None"
    "int_in_range Int_t target \<Longrightarrow> throw_errno px ''cannot duplicate file descriptor {} to {}'' [Arg_INT fd, Arg_INT target] s \<noteq> None"
proof -
  let ?d = "''cannot duplicate file descriptor ''"
  have "\<exists>msg. throw_errno px ''cannot duplicate file descriptor {}'' [Arg_INT fd] s =
      Some (Inl (System_error (px_errno px (ob_kernel s)) ((?d @ show_int fd) @ '': '' @ msg)), s)"
    by (rule throw_text [OF assms(1), of _ "[show_int fd]" "[Lit ?d, Hole]"]) (use assms(2) in \<open>auto simp: template_src_def\<close>)
  then show "throw_errno px ''cannot duplicate file descriptor {}'' [Arg_INT fd] s \<noteq> None" by auto
  assume "int_in_range Int_t target"
  then have "\<exists>msg. throw_errno px ''cannot duplicate file descriptor {} to {}'' [Arg_INT fd, Arg_INT target] s =
      Some (Inl (System_error (px_errno px (ob_kernel s)) ((?d @ show_int fd @ '' to '' @ show_int target) @ '': '' @ msg)), s)"
    by (intro throw_text [OF assms(1), of _ "[show_int fd, show_int target]" "[Lit ?d, Hole, Lit '' to '', Hole]"])
      (use assms(2) in \<open>auto simp: template_src_def\<close>)
  then show "throw_errno px ''cannot duplicate file descriptor {} to {}'' [Arg_INT fd, Arg_INT target] s \<noteq> None" by auto
qed

lemma report_returns:
  assumes "responsive px m"
  shows "\<exists>s'. report_errno px msg s = Some s'"
proof -
  obtain msg2 where "\<forall>n. px_strerror_r px (px_errno px (ob_kernel s)) n = (take (n - 1) msg2, True)"
    using assms unfolding responsive_def by blast
  then show ?thesis
    using format_system_error_whole [of "px_strerror_r px" "px_errno px (ob_kernel s)" msg2 msg "[]"]
    by (simp add: report_errno_def report_system_error_def)
qed

lemma throw_returns:
  assumes "responsive px m"
  shows "throw_errno px ''cannot close file'' [] s \<noteq> None"
    "throw_errno px ''cannot get file attributes'' [] s \<noteq> None"
    "throw_errno px ''cannot read from file'' [] s \<noteq> None"
    "throw_errno px ''cannot write to file'' [] s \<noteq> None"
    "throw_errno px ''cannot create pipe'' [] s \<noteq> None"
    "throw_errno px ''cannot get memory page size'' [] s \<noteq> None"
    "throw_errno px ''cannot get file descriptor'' [] s \<noteq> None"
    "throw_errno px ''cannot associate stream with file descriptor'' [] s \<noteq> None"
  using throw_plain [OF assms, of "''cannot close file''" s] throw_plain [OF assms, of "''cannot get file attributes''" s]
    throw_plain [OF assms, of "''cannot read from file''" s] throw_plain [OF assms, of "''cannot write to file''" s]
    throw_plain [OF assms, of "''cannot create pipe''" s] throw_plain [OF assms, of "''cannot get memory page size''" s]
    throw_plain [OF assms, of "''cannot get file descriptor''" s]
    throw_plain [OF assms, of "''cannot associate stream with file descriptor''" s]
  by force+

lemma close_returns:
  assumes "responsive px m"
  shows "File_close px i s \<noteq> None" "fd_destroy px fd s \<noteq> None" "BufferedFile_close px i s \<noteq> None"
proof -
  note returns = throw_returns(1) [OF assms]
  show "File_close px i s \<noteq> None" "BufferedFile_close px i s \<noteq> None"
    by (simp_all add: File_close_def BufferedFile_close_def Let_def returns del: not_None_eq split: prod.splits)
  show "fd_destroy px fd s \<noteq> None"
    using report_returns [OF assms, of "''cannot close file''" "snd (system_call (px_close px fd) s)"]
    by (auto simp: fd_destroy_def split: prod.splits)
qed

lemma bind_call_returns:
  assumes "m \<noteq> None" "\<And>a s. m = Some (Inr a, s) \<Longrightarrow> f a s \<noteq> None"
  shows "bind_call m f \<noteq> None"
  using assms by (auto simp: bind_call_def split: option.splits sum.splits prod.splits)

lemma File_pipe_returns:
  assumes "responsive px m"
  shows "File_pipe px i j s \<noteq> None"
proof -
  have t: "File_assign_temporary px i fd s \<noteq> None" for i fd s
    using close_returns [OF assms] by (auto simp: File_assign_temporary_def split: option.splits sum.splits)
  show ?thesis unfolding File_pipe_def
    by (intro bind_call_returns close_returns [OF assms])
      (simp add: t bind_call_returns throw_returns(5) [OF assms] del: not_None_eq split: prod.splits)
qed

lemma void_returns [simp]: "void c = None \<longleftrightarrow> c = None"
  by (simp add: void_def)

lemma retried_returns:
  assumes r: "responsive px m"
  shows "File_open px i path oflag s \<noteq> None" "BufferedFile_open px i filename md s \<noteq> None"
    "File_read px i n s \<noteq> None" "File_write px i data s \<noteq> None" "File_dup2_ec px i fd ec s \<noteq> None"
proof -
  obtain fd1 s1 where 1: "retry_call px (\<lambda>fd. fd = - 1) (px_open px path oflag user_rw) s = Some (fd1, s1)"
    using retry_call_returns [of px m "\<lambda>fd. fd = - 1" "px_open px path oflag user_rw" s] r by (auto simp: responsive_def)
  show "File_open px i path oflag s \<noteq> None"
    using throw_cannot_open [OF r, of path s1] by (auto simp: File_open_def 1)
  obtain p s2 where 2: "retry_call px (\<lambda>p. p = 0) (px_fopen px filename md) s = Some (p, s2)"
    using retry_call_returns [of px m "\<lambda>p. p = 0" "px_fopen px filename md" s] r by (auto simp: responsive_def)
  show "BufferedFile_open px i filename md s \<noteq> None"
    using throw_cannot_open [OF r, of filename s2] by (auto simp: BufferedFile_open_def 2)
  obtain k d s3 where 3: "retry_call px (\<lambda>(n, data). n = - 1) (px_read px (descriptor i s) n) s = Some ((k, d), s3)"
    using retry_call_returns [of px m "\<lambda>(n, data). n = - 1" "px_read px (descriptor i s) n" s] r by (auto simp: responsive_def)
  show "File_read px i n s \<noteq> None"
    by (simp add: File_read_def 3 throw_returns(3) [OF r] del: not_None_eq)
  obtain k2 s4 where 4: "retry_call px (\<lambda>n. n = - 1) (px_write px (descriptor i s) data) s = Some (k2, s4)"
    using retry_call_returns [of px m "\<lambda>n. n = - 1" "px_write px (descriptor i s) data" s] r by (auto simp: responsive_def)
  show "File_write px i data s \<noteq> None"
    by (simp add: File_write_def 4 throw_returns(4) [OF r] del: not_None_eq)
  obtain k3 s5 where 5: "retry_call px (\<lambda>r. r = - 1) (px_dup2 px (descriptor i s) fd) s = Some (k3, s5)"
    using retry_call_returns [of px m "\<lambda>r. r = - 1" "px_dup2 px (descriptor i s) fd" s] r by (auto simp: responsive_def)
  show "File_dup2_ec px i fd ec s \<noteq> None" by (simp add: File_dup2_ec_def 5)
qed

lemma File_dup2_returns:
  assumes r: "responsive px m" and laws: "posix_laws px fds strm" and g: "good fds strm base targets s"
    and live: "ob_files s i \<noteq> None" and fd: "int_in_range Int_t fd"
  shows "File_dup2 px i fd s \<noteq> None"
proof -
  have "held strm s (Inl i) = Some (descriptor i s)" if "descriptor i s \<noteq> - 1" using descriptor_held [OF live that] .
  then have "descriptor i s = - 1 \<or> descriptor i s \<in> {0 .. int_max}"
    using g posix_lawsD(1) [OF laws, of "ob_kernel s"] unfolding good_def owns_def by (metis DiffD1 ranI subset_iff)
  then have d: "int_in_range Int_t (descriptor i s)" by (auto simp: int_max_def)
  obtain k s1 where 1: "retry_call px (\<lambda>r. r = - 1) (px_dup2 px (descriptor i s) fd) s = Some (k, s1)"
    using retry_call_returns [of px m "\<lambda>r. r = - 1" "px_dup2 px (descriptor i s) fd" s] r by (auto simp: responsive_def)
  then have "descriptor i s1 = descriptor i s" by (auto simp: retry_call_def descriptor_def)
  then show ?thesis by (simp add: File_dup2_def 1 throw_cannot_duplicate(2) [OF r d fd] del: not_None_eq)
qed

text \<open>With the state's invariant and a client that keeps to the language, no operation is stuck.\<close>

lemma step_returns:
  assumes r: "responsive px m" and laws: "posix_laws px fds strm" and g: "good fds strm base targets s" and ok: "op_ok op s"
  shows "posix_step px op s \<noteq> None"
proof (cases op)
  case (Dup i fd)
  then have "int_in_range Int_t fd" using ok by simp
  then show ?thesis using Dup
    by (simp add: File_dup_def throw_cannot_duplicate(1) [OF r] del: not_None_eq int_in_range.simps split: prod.splits)
next
  case (Dup2 i fd)
  then show ?thesis using File_dup2_returns [OF r laws g, of i fd] ok by simp
next
  case (BDestroy i)
  then show ?thesis using report_returns [OF r, of "''cannot close file''" "snd (system_call (px_fclose px (stream i s)) s)"]
    by (auto simp: BufferedFile_destroy_def split: prod.splits)
next
  case (Size i)
  then show ?thesis by (simp add: File_size_def throw_returns(2) [OF r] del: not_None_eq split: prod.splits)
next
  case (BFileno i)
  then show ?thesis using ok by (simp add: BufferedFile_fileno_def throw_returns(7) [OF r] del: not_None_eq split: prod.splits)
next
  case Pagesize
  then show ?thesis by (simp add: getpagesize_def throw_returns(6) [OF r] del: not_None_eq split: prod.splits)
next
  case (Fdopen i md b)
  then show ?thesis by (simp add: File_fdopen_def throw_returns(8) [OF r] del: not_None_eq split: prod.splits)
next
  case (Destroy i)
  then show ?thesis by (simp add: File_destroy_def close_returns(2) [OF r] del: not_None_eq)
qed (simp_all add: retried_returns [OF r] close_returns [OF r] File_pipe_returns [OF r] File_assign_def BufferedFile_assign_def
    bind_call_returns del: not_None_eq)

section \<open>What clients get\<close>


text \<open>
  A small system: descriptors up to 5 and streams 1 to 3; the next call of \<open>open\<close> is interrupted
  while the counter is above 1.
\<close>

definition first_free :: "int list \<Rightarrow> int option" where
  "first_free F = find (\<lambda>d. d \<notin> set F) [3, 4, 5]"

definition free_stream :: "(nat \<Rightarrow> int option) \<Rightarrow> nat option" where
  "free_stream S = find (\<lambda>p. S p = None) [1, 2, 3]"

type_synonym sample_kernel = "int list \<times> (nat \<Rightarrow> int option) \<times> nat"

definition sample_opens :: "sample_kernel \<Rightarrow> int \<times> sample_kernel" where
  "sample_opens = (\<lambda>(F, S, n). case first_free F of None \<Rightarrow> (- 1, (F, S, n)) | Some d \<Rightarrow> (d, (d # F, S, n)))"

definition sample_posix :: "sample_kernel posix" where
  "sample_posix =
     \<lparr>px_errno = (\<lambda>(F, S, n). if n > 0 then EINTR else 9),
      px_open = (\<lambda>path oflag mode (F, S, n). if n > 1 then (- 1, (F, S, n - 1)) else sample_opens (F, S, 0)),
      px_close = (\<lambda>fd (F, S, n). (if fd \<in> set F then 0 else - 1, (removeAll fd F, S, n))),
      px_fstat = (\<lambda>fd k. ((- 1, 0), k)),
      px_read = (\<lambda>fd count (F, S, n). ((0, []), (F, S, 0))),
      px_write = (\<lambda>fd data (F, S, n). (int (length data), (F, S, 0))),
      px_dup = (\<lambda>fd k. sample_opens k),
      px_dup2 = (\<lambda>fd target (F, S, n). if 0 \<le> target \<and> target \<le> 5 then (target, (target # F, S, 0)) else (- 1, (F, S, 0))),
      px_pipe = (\<lambda>(F, S, n). case filter (\<lambda>d. d \<notin> set F) [3, 4, 5] of
          a # b # _ \<Rightarrow> ((0, a, b), (b # a # F, S, n)) | _ \<Rightarrow> ((- 1, 0, 0), (F, S, n))),
      px_fopen = (\<lambda>filename mode (F, S, n). case (first_free F, free_stream S) of
          (Some d, Some p) \<Rightarrow> (p, (d # F, S(p \<mapsto> d), 0)) | _ \<Rightarrow> (0, (F, S, 0))),
      px_fdopen = (\<lambda>fd mode (F, S, n). case free_stream S of
          Some p \<Rightarrow> if fd \<in> set F \<and> 0 \<le> fd \<and> fd \<le> 5 then (p, (F, S(p \<mapsto> fd), n)) else (0, (F, S, n)) | None \<Rightarrow> (0, (F, S, n))),
      px_fclose = (\<lambda>p (F, S, n). case S p of None \<Rightarrow> (- 1, (F, S, n)) | Some fd \<Rightarrow> (0, (removeAll fd F, S(p := None), n))),
      px_fileno = (\<lambda>p (F, S, n). (case S p of None \<Rightarrow> - 1 | Some fd \<Rightarrow> fd, (F, S, n))),
      px_pagesize = (\<lambda>k. (4096, k)),
      px_strerror_r = (\<lambda>code n. (take (n - 1) ''Bad file descriptor'', True)),
      px_memory = \<lparr>be_fresh = (\<lambda>_. CHR ''?''), be_moves = (\<lambda>_ _. True)\<rparr>,
      px_thousands_sep = '',''\<rparr>"

definition sample_fds :: "sample_kernel \<Rightarrow> int set" where
  "sample_fds k = set (fst k) \<inter> {0 .. 5}"

definition sample_strm :: "sample_kernel \<Rightarrow> nat \<Rightarrow> int option" where
  "sample_strm k = fst (snd k)"

lemma first_freeD: "first_free F = Some d \<Longrightarrow> d \<notin> set F \<and> 3 \<le> d \<and> d \<le> 5"
  by (auto simp: first_free_def split: if_splits)

lemma free_streamD: "free_stream S = Some p \<Longrightarrow> S p = None \<and> p \<noteq> 0"
  by (auto simp: free_stream_def split: if_splits)

lemma sample_opens_laws: "opens sample_fds sample_strm sample_opens"
  by (auto simp: opens_def sample_opens_def sample_fds_def sample_strm_def dest!: first_freeD split: option.splits)

lemma sample_posix_laws: "posix_laws sample_posix sample_fds sample_strm"
  unfolding posix_laws_def
proof (intro conjI allI impI)
  show "sample_fds k \<subseteq> {0 .. int_max}" for k by (auto simp: sample_fds_def int_max_def)
  show "opens sample_fds sample_strm (px_open sample_posix path oflag md)" for path oflag md
    by (auto simp: sample_posix_def opens_def sample_opens_def sample_fds_def sample_strm_def dest!: first_freeD split: if_splits option.splits)
  show "opens sample_fds sample_strm (px_dup sample_posix fd)" for fd using sample_opens_laws by (simp add: sample_posix_def)
  fix k :: sample_kernel and k' a b r
  assume p: "px_pipe sample_posix k = ((r, a, b), k')"
  obtain F S n where k: "k = (F, S, n)" by (cases k) auto
  show "sample_strm k' = sample_strm k" using p by (auto simp: k sample_posix_def sample_strm_def split: list.splits)
  have new: "a \<notin> set F \<and> b \<notin> set F \<and> a \<noteq> b \<and> a \<in> {0 .. 5} \<and> b \<in> {0 .. 5}" if "filter (\<lambda>d. d \<notin> set F) [3, 4, 5] = a # b # x" for x
    using that by (auto split: if_splits)
  show "if r \<noteq> 0 then sample_fds k' = sample_fds k
    else a \<noteq> b \<and> a \<notin> sample_fds k \<and> b \<notin> sample_fds k \<and> sample_fds k' = insert b (insert a (sample_fds k))"
    using p new by (auto simp: k sample_posix_def sample_fds_def simp del: filter.simps split: list.splits)
qed (auto simp: sample_posix_def sample_fds_def sample_strm_def keeps_def dest!: first_freeD free_streamD split: if_splits option.splits,
    metis)

lemma sample_responsive: "responsive sample_posix (\<lambda>(F, S, n). n)"
  by (auto simp: responsive_def interruptions_end_def sample_posix_def EINTR_def sample_opens_def
      dest!: first_freeD free_streamD split: if_splits option.splits)

text \<open>Both ends of a pipe are given to one file, which is made a buffered file after that.\<close>

definition sample_state :: "sample_kernel objects" where
  "sample_state = \<lparr>ob_kernel = ([4, 0], [1 \<mapsto> 4], 2), ob_stderr = [], ob_files = [0 \<mapsto> - 1], ob_buffered = [7 \<mapsto> 1]\<rparr>"

lemma sample_run: "posix_run sample_posix ([0], Map.empty, 2) {} sample_state"
proof -
  let ?k = "([0], Map.empty, 2) :: sample_kernel"
  let ?s1 = "\<lparr>ob_kernel = ?k, ob_stderr = [], ob_files = [0 \<mapsto> - 1], ob_buffered = Map.empty\<rparr>"
  let ?s2 = "\<lparr>ob_kernel = ([4, 0], Map.empty, 2), ob_stderr = [], ob_files = [0 \<mapsto> 4], ob_buffered = Map.empty\<rparr>"
  have "posix_step sample_posix (New 0) (objects_new ?k) = Some ?s1" by (simp add: File_new_def objects_new_def put_file_def)
  from posix_run.step [OF posix_run.start _ this] have 1: "posix_run sample_posix ?k {} ?s1" by (simp add: objects_new_def)
  have "posix_step sample_posix (Pipe 0 0) ?s1 = Some ?s2"
    by (simp add: File_pipe_def File_close_def descriptor_def system_call_def sample_posix_def File_assign_temporary_def void_def put_file_def)
  from posix_run.step [OF 1 _ this] have 2: "posix_run sample_posix ?k {} ?s2" by simp
  have "posix_step sample_posix (Fdopen 0 ''w'' 7) ?s2 = Some sample_state"
    by (simp add: File_fdopen_def descriptor_def system_call_def sample_posix_def free_stream_def void_def put_file_def put_buffered_def
        sample_state_def)
  from posix_run.step [OF 2 _ this] show ?thesis by simp
qed


text \<open>A call that was interrupted is made again.\<close>

lemma interrupted_open_retried:
  "File_open sample_posix 0 ''log'' 0 (objects_new ([0], Map.empty, 2)) =
   Some (Inr (), \<lparr>ob_kernel = ([3, 0], Map.empty, 0), ob_stderr = [], ob_files = [0 \<mapsto> 3], ob_buffered = Map.empty\<rparr>)"
proof -
  have "retry_val (px_errno sample_posix) (\<lambda>fd. fd = - 1) (px_open sample_posix ''log'' 0 user_rw) ([0], Map.empty, 2) =
      Some (3, ([3, 0], Map.empty, 0))"
    by (subst retry_val.simps, subst retry_val.simps) (simp add: sample_posix_def sample_opens_def first_free_def)
  then show ?thesis by (simp add: File_open_def retry_call_def objects_new_def put_file_def)
qed

end
