(* ===== verification/Spec2Isabelle.thy ===== *)
theory Spec2Isabelle
  imports Stats Request_Props Rocks_Props Add_Race Serving Options Service Logger_Props File_Sinks Sinks Fmt_Float Fmt_Stream Posix_Props
begin

text \<open>
  Quitsies is a server that speaks a part of the memcached protocol over TCP and keeps its data
  in RocksDB; an HTTP server on the side offers the same data as REST resources and metrics go
  to statsd. This development models the program and the logging library that is part of its
  repository.

  \<^bold>\<open>How the program works.\<close> \<open>main\<close> (\<open>src/service.cpp\<close>) parses the command line, creates a logger
  and a metrics aggregator, opens the store and starts the HTTP server and the TCP server. The
  TCP server (\<open>quitsies/tcp/server.cpp\<close>) accepts connections and hands each to the connection
  manager; a connection (\<open>connection.cpp\<close>) reads up to 8192 bytes at a time, feeds them to its
  request object (\<open>request.cpp\<close>), which is a state machine over bytes, and when a request is
  finished writes the response and starts over. Finishing a request calls the store through an
  interface (\<open>db/store.hpp\<close>) that \<open>db/rocks.cpp\<close> implements; \<open>ADD\<close> takes the store's mutex around
  its get and put. Everything logs through spdlog: the logger formats a message with fmt and
  pushes it into a lock-free queue, a worker thread pops it, renders its line and passes it to
  the sinks.

  \<^bold>\<open>Theories and sources.\<close>

  \<^item> \<open>Prelude\<close>: exceptions as values, the calls into the C++ standard library that several parts
    make (character classes, decimal printing, \<open>stoi\<close>, \<open>std::map\<close> as a key-sorted list), words.
    An operation that may throw gives \<open>exn + 'a\<close>; one that may also be undefined or block gives
    \<open>None\<close> then. State is passed explicitly.
  \<^item> \<open>Log_Level\<close> (\<open>spdlog/common.h\<close>): levels as a linear order, log events.
  \<^item> \<open>Stats\<close> (\<open>stats/\<close>): the statsd client, the aggregator with its four maps and its background
    loop as a sequence of events; counters are 64-bit words.
  \<^item> \<open>Store\<close> (\<open>db/store.hpp\<close>): the interface as a record of calls, and the locale
    \<open>store_contract\<close> of what the request handler relies on.
  \<^item> \<open>Request\<close>, \<open>Request_Parse\<close>, \<open>Request_Props\<close> (\<open>tcp/request.hpp\<close>, \<open>request.cpp\<close>): the state
    machine, one definition per state and per response; what commands it accepts; its invariant.
  \<^item> \<open>Memcached\<close>: the abstract server, a command on a map from keys to values, and the
    refinement by \<open>prepare_response\<close>, proved inside \<open>store_contract\<close> and its extension
    \<open>reliable_store\<close>.
  \<^item> \<open>Rocks\<close>, \<open>Rocks_Props\<close> (\<open>db/rocks.hpp\<close>, \<open>rocks.cpp\<close>): opening and restoring, data
    operations, REST endpoints, folder size. RocksDB is a parameter with the laws
    \<open>rocksdb_laws\<close>; both locales are interpreted on \<open>rocks_store\<close>.
  \<^item> \<open>Add_Race\<close>: storage commands on several threads; a step is one store call of one thread.
  \<^item> \<open>Server\<close>, \<open>Server_Run\<close>, \<open>Server_Props\<close> (\<open>tcp/connection.cpp\<close>, \<open>connection_manager.cpp\<close>,
    \<open>server.cpp\<close>): every completion handler as a function on the whole server; Boost.Asio as a
    step relation that completes one outstanding operation with a result its documentation
    allows; the invariant of reachable states.
  \<^item> \<open>Session\<close>, \<open>Serving\<close>: a client's requests, cut into reads, through the handlers of its
    connection; and all reachable states of the server at once.
  \<^item> \<open>Option_Handler\<close>, \<open>Options\<close>, \<open>Service\<close> (\<open>OptionHandler/option_handler.h\<close>, \<open>options.hpp\<close>,
    \<open>options.cpp\<close>, \<open>service.cpp\<close>): the command line and \<open>main\<close>.
  \<^item> \<open>Mpmc_Queue\<close> (\<open>spdlog/details/mpmc_bounded_q.h\<close>): the ring buffer on 64-bit positions, and
    the locale \<open>bounded_queue\<close>.
  \<^item> \<open>Async_Log\<close>, \<open>Async_Log_Props\<close> (\<open>async_log_helper.h\<close>, \<open>log_msg.h\<close>, \<open>sinks/sink.h\<close>,
    \<open>stdout_sinks.h\<close>): messages, sinks as records of operations, pushing and the worker; the
    locales \<open>sink_contract\<close> and, on top of it and \<open>bounded_queue\<close>, \<open>async_logging\<close>.
  \<^item> \<open>Fmt_Digits\<close>, \<open>Fmt_Writer\<close>, \<open>Fmt_Format\<close>, \<open>Fmt_Printf\<close> (\<open>spdlog/fmt/bundled/format.h\<close>,
    \<open>format.cc\<close>): digits, padding and presentation of integers and strings in a growing
    buffer, the format language and \<open>printf\<close>. A pointer into a buffer is an index, a write outside
    is \<open>None\<close>, fresh memory is indeterminate and growing may move the buffer.
  \<^item> \<open>Fmt_Buffer\<close>, \<open>Fmt_Float\<close>, \<open>Fmt_Stream\<close> (\<open>format.h\<close>, \<open>ostream.h\<close>, \<open>time.h\<close>): the buffers
    themselves with their array and blocks, the locale \<open>growing_buffer\<close> for the two kinds of
    them; and the code that works on their memory: floating-point numbers, stream buffers, dates.
  \<^item> \<open>Posix_File\<close>, \<open>Posix_Props\<close> (\<open>fmt/bundled/posix.h\<close>, \<open>posix.cc\<close>): the owners of file
    descriptors and streams over the system calls \<open>posix\<close> with the laws \<open>posix_laws\<close>.
  \<^item> \<open>Pattern_Formatter\<close> (\<open>pattern_formatter_impl.h\<close>): compiling and rendering patterns.
  \<^item> \<open>Logger\<close>, \<open>Logger_Props\<close> (\<open>logger_impl.h\<close>, \<open>async_logger_impl.h\<close>, \<open>registry.h\<close>,
    \<open>quitsies/log/logger.cpp\<close>): loggers, error handlers, the registry and the program's logger.
  \<^item> \<open>File_Sinks\<close>, \<open>Sinks\<close> (\<open>file_helper.h\<close>, \<open>sinks/\<close>): files, rotated files, and the remaining
    sinks, which meet \<open>sink_contract\<close> again, the colouring sink over any sink that does.

  \<^bold>\<open>What the lemmas show.\<close> A session with the running server is a session with the abstract map
  (\<open>Session\<close>), and the server with all its clients is one abstract map that serves a request
  at a time (\<open>Serving\<close>), through four layers: the parser recognises each command however it is cut
  (\<open>Request_Props\<close>), a parsed command acts on the store as on the map (\<open>Memcached\<close>), RocksDB
  under its laws is such a store (\<open>Rocks_Props\<close>), and the handlers keep one read or write
  outstanding per open connection (\<open>Server_Props\<close>). On several threads an \<open>ADD\<close> has one winner
  among \<open>ADD\<close>s, but not against \<open>SET\<close>, which takes no lock (\<open>Add_Race\<close>). Handlers return, and
  after a stop signal the server drains. The command line sets what it says, and \<open>main\<close> serves
  only an open store. Counters are conserved up to the flush. For logging: the ring buffer is a
  FIFO queue, the worker delivers what was queued in order, formatting stays inside its buffers,
  the lines are the ones the pattern and the format string describe, errors stay inside, and
  rotation loses only the oldest file. For the library below: buffers are lists, numbers, streamed
  values and dates are appended to them as specified, and files own their descriptors.

  \<^bold>\<open>Bounds and fuel.\<close> No loop needs fuel: those over text end because they consume it, those
  over numbers by a measure, opening a file by its five tries (\<open>open_tries\<close>). The loops that ask a
  library for room until it has enough, for a system message, a date (\<open>tm_loop\<close>) or a number
  (\<open>float_loop\<close>), and the one that repeats an interrupted call (\<open>retry_val\<close>), are partial functions
  with lemmas that they return, the last one when interruptions end (\<open>responsive\<close>). The calls on the
  ring buffer take the number \<open>fails\<close> of spurious failures of the exchange, over which every
  statement is quantified. A push that waits for room is one that is not enabled, \<open>None\<close>. The
  numbers of connections, requests, threads and messages are not bounded.

  \<^bold>\<open>Not modelled, and why.\<close> Boost.Asio, RocksDB, Boost.Filesystem, the served HTTP library and
  the system calls are code outside the repository: parameters with hypotheses, or the
  environment of a step relation. Handlers run one at a time in \<open>Server_Run\<close>; what several
  threads of the pool can do to the store is the subject of \<open>Add_Race\<close>. The ring buffer is
  modelled without interference inside a call. In \<open>Fmt_Format\<close> the buffer is its text
  and the output of floating-point numbers a parameter; \<open>Fmt_Float\<close> has it on the memory, with
  \<open>snprintf\<close> and \<open>strftime\<close>, which are C's, as parameters. Left out are fmt's wide strings, Windows
  parts and locales, none of which the program uses; spdlog's Windows sink; forwarding headers;
  build files; the tests and the vendored test framework.
  Two loggers that share a sink object are not related (\<open>Logger\<close>); a \<open>dist_sink\<close> does share its
  sinks (\<open>Sinks\<close>). Buffering by C's streams is left out: what was written is in the file.
\<close>

end
